(* ===== verification/Prelude.thy ===== *)
theory Prelude
  imports Main
    "HOL-Library.AList"
    "HOL-Library.Char_ord"
    "HOL-Library.List_Lexorder"
    "HOL-Library.Product_Lexorder"
    "HOL-Library.Multiset"
    "HOL-Library.Word"
begin

text \<open>
  What every component of the development shares: the types the Rust sources take from the
  language and its standard library (results and panics, hash maps, IP addresses, points in
  time), the few standard-library functions whose behaviour the sources rely on
  (\<^verbatim>\<open>IpAddr\<close> parsing, \<^verbatim>\<open>Iterator::min_by_key\<close>, integer formatting), and the generic
  lemmas about them.

  \<^item> A Rust \<^verbatim>\<open>Result<T, E>\<close> is \<open>'e fault + 'a\<close>: \<open>Inl (Err e)\<close> is the error value, \<open>Inl Panic\<close> a
    panic (an \<^verbatim>\<open>unwrap\<close> on an error, an index out of bounds), \<open>Inr a\<close> the result.
  \<^item> A \<^verbatim>\<open>HashMap\<close> is an association list with distinct keys, in the order an iteration over it
    happens to yield. Rust leaves that order open, so results that must not depend on it are
    proved to depend on \<open>map_of\<close> (or the set of entries) only.
  \<^item> A \<^verbatim>\<open>SystemTime\<close> is the number of nanoseconds since the epoch (an instant
    before it is negative). A function that reads the
    clock takes the instant \<open>now\<close> as an argument; one operation reads one instant.
  \<^item> A \<^verbatim>\<open>String\<close> is the list of its UTF-8 bytes, so the library's lexicographic order on lists
    of characters is Rust's order on strings.
\<close>

subsection \<open>Collections of facts\<close>

named_theorems attr_simps \<open>rewriting rules for attributes and actors\<close>
named_theorems eval_simps \<open>rewriting rules for policy matching\<close>
named_theorems wf_intros \<open>preservation of well-formedness\<close>

subsection \<open>Results and panics\<close>

datatype 'e fault = Err 'e | Panic

type_synonym ('e, 'a) result = "'e fault + 'a"

type_synonym time = int

type_synonym u8 = "8 word"
type_synonym u16 = "16 word"
type_synonym u32 = "32 word"
type_synonym u64 = "64 word"

definition USIZE_MAX :: int where
  "USIZE_MAX = 2 ^ 64 - 1"

text \<open>\<^verbatim>\<open>r.unwrap()\<close> turns an error into a panic.\<close>

definition unwrap :: "('e, 'a) result \<Rightarrow> ('f, 'a) result" where
  "unwrap r = (case r of Inl _ \<Rightarrow> Inl Panic | Inr a \<Rightarrow> Inr a)"

definition bind :: "('e, 'a) result \<Rightarrow> ('a \<Rightarrow> ('e, 'b) result) \<Rightarrow> ('e, 'b) result" where
  "bind r f = (case r of Inl e \<Rightarrow> Inl e | Inr a \<Rightarrow> f a)"

subsection \<open>Hash maps\<close>

type_synonym ('k, 'v) hashmap = "('k \<times> 'v) list"

abbreviation hm_get :: "('k, 'v) hashmap \<Rightarrow> 'k \<Rightarrow> 'v option" where
  "hm_get m k \<equiv> map_of m k"

abbreviation hm_insert :: "'k \<Rightarrow> 'v \<Rightarrow> ('k, 'v) hashmap \<Rightarrow> ('k, 'v) hashmap" where
  "hm_insert k v m \<equiv> AList.update k v m"

abbreviation hm_remove :: "'k \<Rightarrow> ('k, 'v) hashmap \<Rightarrow> ('k, 'v) hashmap" where
  "hm_remove k m \<equiv> AList.delete k m"

abbreviation hm_keys :: "('k, 'v) hashmap \<Rightarrow> 'k list" where
  "hm_keys m \<equiv> map fst m"

abbreviation hm_values :: "('k, 'v) hashmap \<Rightarrow> 'v list" where
  "hm_values m \<equiv> map snd m"

abbreviation hm_wf :: "('k, 'v) hashmap \<Rightarrow> bool" where
  "hm_wf m \<equiv> distinct (map fst m)"

subsection \<open>Iterator helpers\<close>

text \<open>\<^verbatim>\<open>Iterator::min_by_key\<close>: the first of the elements with the least key.\<close>

fun min_by_key :: "('a \<Rightarrow> 'b::linorder) \<Rightarrow> 'a list \<Rightarrow> 'a option" where
  "min_by_key f [] = None"
| "min_by_key f (x # xs) =
     (case min_by_key f xs of
        None \<Rightarrow> Some x
      | Some y \<Rightarrow> if f y < f x then Some y else Some x)"

text \<open>\<^verbatim>\<open>slice::first\<close>.\<close>

definition first :: "'a list \<Rightarrow> 'a option" where
  "first xs = (case xs of [] \<Rightarrow> None | x # _ \<Rightarrow> Some x)"

text \<open>\<^verbatim>\<open>slice::get\<close>.\<close>

definition get_at :: "'a list \<Rightarrow> nat \<Rightarrow> 'a option" where
  "get_at xs i = (if i < length xs then Some (xs ! i) else None)"

subsection \<open>Formatting of integers\<close>

definition digit_char :: "int \<Rightarrow> char" where
  "digit_char d = (if d < 10 then char_of (48 + d) else char_of (87 + d))"

fun to_radix :: "nat \<Rightarrow> int \<Rightarrow> int \<Rightarrow> string" where
  "to_radix 0 r n = []"
| "to_radix (Suc fuel) r n =
     (if n < r then [digit_char n] else to_radix fuel r (n div r) @ [digit_char (n mod r)])"

text \<open>\<^verbatim>\<open>u64::to_string\<close> and the \<^verbatim>\<open>{:x}\<close> format; 64 digits are enough for any radix from 2 on.\<close>

definition u64_to_string :: "u64 \<Rightarrow> string" where
  "u64_to_string w = to_radix 64 10 (uint w)"

definition u64_to_hex :: "u64 \<Rightarrow> string" where
  "u64_to_hex w = to_radix 64 16 (uint w)"

subsection \<open>IP addresses\<close>

datatype ip_addr = V4 u32 | V6 "128 word"

text \<open>\<^verbatim>\<open>Ord for IpAddr\<close>: every IPv4 address is below every IPv6 address.\<close>

instantiation ip_addr :: linorder
begin

fun less_eq_ip_addr :: "ip_addr \<Rightarrow> ip_addr \<Rightarrow> bool" where
  "less_eq_ip_addr (V4 a) (V4 b) = (a \<le> b)"
| "less_eq_ip_addr (V4 a) (V6 b) = True"
| "less_eq_ip_addr (V6 a) (V4 b) = False"
| "less_eq_ip_addr (V6 a) (V6 b) = (a \<le> b)"

definition less_ip_addr :: "ip_addr \<Rightarrow> ip_addr \<Rightarrow> bool" where
  "less_ip_addr x y \<longleftrightarrow> x \<le> y \<and> \<not> y \<le> x"

instance
proof
  fix x y z :: ip_addr
  show "x < y \<longleftrightarrow> x \<le> y \<and> \<not> y \<le> x" by (rule less_ip_addr_def)
  show "x \<le> x" by (cases x) auto
  show "x \<le> y \<or> y \<le> x" by (cases x; cases y) auto
  show "x = y" if "x \<le> y" "y \<le> x" using that by (cases x; cases y) auto
  show "x \<le> z" if "x \<le> y" "y \<le> z" using that by (cases x; cases y; cases z) auto
qed

end

text \<open>
  The recursive-descent parser of \<^verbatim>\<open>core::net\<close>. A reader takes the remaining input and
  returns the value read and what is left, or None having consumed nothing.
\<close>

definition to_digit :: "int \<Rightarrow> char \<Rightarrow> int option" where
  "to_digit r c =
     (let n = of_char c :: int;
          d = (if 48 \<le> n \<and> n \<le> 57 then n - 48
               else if 97 \<le> n \<and> n \<le> 102 then n - 87
               else if 65 \<le> n \<and> n \<le> 70 then n - 55 else 99)
      in if d < r then Some d else None)"

fun read_digits :: "int \<Rightarrow> string \<Rightarrow> int list \<times> string" where
  "read_digits r [] = ([], [])"
| "read_digits r (c # cs) =
     (case to_digit r c of
        None \<Rightarrow> ([], c # cs)
      | Some d \<Rightarrow> (case read_digits r cs of (ds, rest) \<Rightarrow> (d # ds, rest)))"

definition read_number :: "int \<Rightarrow> nat \<Rightarrow> int \<Rightarrow> bool \<Rightarrow> string \<Rightarrow> (int \<times> string) option" where
  "read_number r max_digits max_val allow_zero_prefix s =
     (case read_digits r s of (ds, rest) \<Rightarrow>
        let v = foldl (\<lambda>acc d. acc * r + d) 0 ds
        in if ds = [] \<or> length ds > max_digits \<or> v > max_val
              \<or> (\<not> allow_zero_prefix \<and> hd ds = 0 \<and> length ds > 1)
           then None else Some (v, rest))"

definition read_given_char :: "char \<Rightarrow> string \<Rightarrow> string option" where
  "read_given_char c s = (case s of [] \<Rightarrow> None | x # xs \<Rightarrow> if x = c then Some xs else None)"

definition read_separator ::
  "char \<Rightarrow> nat \<Rightarrow> (string \<Rightarrow> ('a \<times> string) option) \<Rightarrow> string \<Rightarrow> ('a \<times> string) option" where
  "read_separator sep index inner s =
     (if index > 0 then (case read_given_char sep s of None \<Rightarrow> None | Some s' \<Rightarrow> inner s')
      else inner s)"

fun read_octets :: "nat \<Rightarrow> nat \<Rightarrow> string \<Rightarrow> (int list \<times> string) option" where
  "read_octets i 0 s = Some ([], s)"
| "read_octets i (Suc n) s =
     (case read_separator (CHR ''.'') i (read_number 10 3 255 False) s of
        None \<Rightarrow> None
      | Some (o1, s') \<Rightarrow>
          (case read_octets (Suc i) n s' of
             None \<Rightarrow> None
           | Some (os, s'') \<Rightarrow> Some (o1 # os, s'')))"

definition read_ipv4_addr :: "string \<Rightarrow> (u32 \<times> string) option" where
  "read_ipv4_addr s =
     map_option (\<lambda>(os, rest). (of_int (foldl (\<lambda>acc b. acc * 256 + b) 0 os), rest)) (read_octets 0 4 s)"

text \<open>\<open>read_groups i k s\<close> reads the groups with indices \<open>i\<close> to \<open>i + k - 1\<close>; the flag says that the
  last two came from an embedded IPv4 address.\<close>

fun read_groups :: "nat \<Rightarrow> nat \<Rightarrow> string \<Rightarrow> int list \<times> bool \<times> string" where
  "read_groups i 0 s = ([], False, s)"
| "read_groups i (Suc k) s =
     (case (if 0 < k then read_separator (CHR '':'') i read_ipv4_addr s else None) of
        Some (v4, s') \<Rightarrow> ([uint v4 div 65536, uint v4 mod 65536], True, s')
      | None \<Rightarrow>
          (case read_separator (CHR '':'') i (read_number 16 4 65535 True) s of
             None \<Rightarrow> ([], False, s)
           | Some (g, s') \<Rightarrow>
               (case read_groups (Suc i) k s' of (gs, v4, s'') \<Rightarrow> (g # gs, v4, s''))))"

definition groups_to_v6 :: "int list \<Rightarrow> 128 word" where
  "groups_to_v6 gs = of_int (foldl (\<lambda>acc g. acc * 65536 + g) 0 gs)"

definition read_ipv6_addr :: "string \<Rightarrow> (128 word \<times> string) option" where
  "read_ipv6_addr s =
     (case read_groups 0 8 s of (head, head_ipv4, s1) \<Rightarrow>
        if length head = 8 then Some (groups_to_v6 head, s1)
        else if head_ipv4 then None
        else
          (case read_given_char (CHR '':'') s1 of None \<Rightarrow> None | Some s2 \<Rightarrow>
          (case read_given_char (CHR '':'') s2 of None \<Rightarrow> None | Some s3 \<Rightarrow>
          (case read_groups 0 (8 - (length head + 1)) s3 of (tail, _, s4) \<Rightarrow>
             Some (groups_to_v6 (head @ replicate (8 - length head - length tail) 0 @ tail), s4)))))"

definition parse_ip :: "string \<Rightarrow> ip_addr option" where
  "parse_ip s =
     (case read_ipv4_addr s of
        Some (a, rest) \<Rightarrow> if rest = [] then Some (V4 a) else None
      | None \<Rightarrow>
          (case read_ipv6_addr s of
             Some (a, rest) \<Rightarrow> if rest = [] then Some (V6 a) else None
           | None \<Rightarrow> None))"

subsection \<open>Lemmas\<close>

declare map_of_eq_Some_iff [simp del]

lemma unwrap_Inr_iff [simp]: "unwrap r = Inr a \<longleftrightarrow> r = Inr a"
  by (auto simp: unwrap_def split: sum.splits)

lemma bind_simps [simp]:
  "bind (Inl e) f = Inl e"
  "bind (Inr a) f = f a"
  by (auto simp: bind_def)

lemma bind_Inr_iff: "bind r f = Inr b \<longleftrightarrow> (\<exists>a. r = Inr a \<and> f a = Inr b)"
  by (auto simp: bind_def split: sum.splits)

lemma first_simps [simp]:
  "first [] = None"
  "first (x # xs) = Some x"
  by (auto simp: first_def)

lemma first_in_set: "first xs = Some x \<Longrightarrow> x \<in> set xs"
  by (auto simp: first_def split: list.splits)

lemma get_at_Some_iff: "get_at xs i = Some x \<longleftrightarrow> i < length xs \<and> xs ! i = x"
  by (auto simp: get_at_def)

lemma min_by_key_None_iff [simp]: "min_by_key f xs = None \<longleftrightarrow> xs = []"
  by (cases xs) (auto split: option.splits)

lemma min_by_key_in_set: "min_by_key f xs = Some x \<Longrightarrow> x \<in> set xs"
  by (induction xs arbitrary: x) (auto split: option.splits if_splits)

lemma min_by_key_le: "min_by_key f xs = Some x \<Longrightarrow> y \<in> set xs \<Longrightarrow> f x \<le> f y"
proof (induction xs arbitrary: x)
  case (Cons z zs)
  then show ?case
    by (cases "min_by_key f zs") (fastforce split: if_splits)+
qed simp

lemma filter_eq_distinct: "distinct zs \<Longrightarrow> k \<in> set zs \<Longrightarrow> filter (\<lambda>x. x = k) zs = [k]"
  by (induction zs) (auto intro: filter_False)

lemma filter_inj_on_distinct:
  assumes "distinct zs" "k \<in> set zs" "inj_on f (set zs)"
  shows "filter (\<lambda>x. f k = f x) zs = [k]"
proof -
  have "filter (\<lambda>x. f k = f x) zs = filter (\<lambda>x. x = k) zs"
    using assms(2,3) by (intro filter_cong refl) (auto dest: inj_onD)
  then show ?thesis using assms(1,2) by (simp add: filter_eq_distinct)
qed

text \<open>Sorting by a key that tells the elements apart does not depend on the order they come in.\<close>

lemma sort_key_unique:
  assumes eq: "mset xs = mset ys" and inj: "inj_on f (set xs)" and dist: "distinct xs"
  shows "sort_key f xs = sort_key f ys"
proof (rule properties_for_sort_key)
  show "mset (sort_key f ys) = mset xs" using eq by simp
  show "sorted (map f (sort_key f ys))" by simp
  fix k assume "k \<in> set (sort_key f ys)"
  then show "filter (\<lambda>x. f k = f x) (sort_key f ys) = filter (\<lambda>x. f k = f x) xs"
    using mset_eq_setD [OF eq] mset_eq_imp_distinct_iff [OF eq] inj dist
    by (simp add: filter_inj_on_distinct)
qed

lemma set_map_filter: "set (List.map_filter f ks) = {y. \<exists>k \<in> set ks. f k = Some y}"
  by (force simp: map_filter_def)

lemma u32_less: "unat (w :: u32) < 2 ^ 32"
  using unsigned_less [of w, where 'a = nat] by simp

lemma u64_less: "unat (w :: u64) < 2 ^ 64"
  using unsigned_less [of w, where 'a = nat] by simp

lemma u64_add_no_wrap: "unat x + unat y < 2 ^ 64 \<Longrightarrow> unat (x + y :: u64) = unat x + unat y"
  by (simp add: unat_word_ariths)

lemma u32_to_u64: "unat (ucast (w :: u32) :: u64) = unat w"
  using u32_less [of w] by (simp add: unsigned_ucast_eq take_bit_nat_eq_self_iff)

lemma u64_saturate_u32: "unat (ucast (min d 0xFFFFFFFF) :: u32) = min (unat (d :: u64)) (2 ^ 32 - 1)"
proof (cases "d \<le> 0xFFFFFFFF")
  case True
  then have "unat d \<le> 2 ^ 32 - 1" by (simp add: word_le_nat_alt)
  with True show ?thesis by (simp add: min_def unsigned_ucast_eq take_bit_nat_eq_self_iff)
next
  case False
  then have "unat d > 2 ^ 32 - 1" by (simp add: word_le_nat_alt)
  with False show ?thesis by (simp add: min_def)
qed

lemma hm_wf_insert [wf_intros]: "hm_wf m \<Longrightarrow> hm_wf (hm_insert k v m)"
  by (rule distinct_update)

lemma hm_wf_remove [wf_intros]: "hm_wf m \<Longrightarrow> hm_wf (hm_remove k m)"
  by (rule distinct_delete)

lemma hm_get_insert [simp]: "hm_get (hm_insert k v m) k' = (if k' = k then Some v else hm_get m k')"
  by (simp add: update_conv')

lemma hm_get_remove [simp]: "hm_get (hm_remove k m) k' = (if k' = k then None else hm_get m k')"
  by (simp add: delete_conv')

lemma hm_entry_iff: "hm_wf m \<Longrightarrow> (k, v) \<in> set m \<longleftrightarrow> hm_get m k = Some v"
  by (auto simp: map_of_eq_Some_iff)

lemma hm_keys_insert [simp]: "fst ` set (hm_insert k v m) = insert k (fst ` set m)"
  by (simp add: dom_update)

lemma hm_keys_remove [simp]: "fst ` set (hm_remove k m) = fst ` set m - {k}"
  by (metis delete_keys set_removeAll list.set_map)

lemma hm_key_get: "k \<in> fst ` set m \<longleftrightarrow> (\<exists>v. hm_get m k = Some v)"
  by (metis map_of_eq_None_iff not_None_eq)

lemma hm_key_iff: "k \<in> set (hm_keys m) \<longleftrightarrow> hm_get m k \<noteq> None"
  by (simp add: map_of_eq_None_iff)

end
