(* ===== verification/Addr_Text.thy ===== *)
theory Addr_Text
  imports Prelude
begin

text \<open>
  The text forms of numbers and addresses the state database uses, \<^verbatim>\<open>vs/src/db/mod.rs\<close>: \<^verbatim>\<open>u64\<close> numbers, IP addresses as
  the standard library prints and parses them, and the two encodings for parts of a key, \<^verbatim>\<open>ZAddr\<close> and \<^verbatim>\<open>KeyString\<close>.
  The lemmas are the round trips: what was printed or encoded is read back as the same value, so two keys are the
  same only where they stand for the same thing.
\<close>

subsection \<open>Numbers as stored text\<close>

text \<open>\<^verbatim>\<open>str::parse::<u64>\<close>: an optional plus sign, at least one digit, nothing else, within range.\<close>

definition parse_u64 :: "string \<Rightarrow> u64 option" where
  "parse_u64 s =
     (let ds = (case s of c # cs \<Rightarrow> if c = CHR ''+'' then cs else s | [] \<Rightarrow> [])
      in case read_digits 10 ds of (vs, rest) \<Rightarrow>
           let n = foldl (\<lambda>acc d. acc * 10 + d) 0 vs
           in if vs = [] \<or> rest \<noteq> [] \<or> n \<ge> 2 ^ 64 then None else Some (of_int n))"

subsection \<open>Printing addresses\<close>

text \<open>The digits of a number in base \<open>b\<close>, the most significant first.\<close>

fun be_digits :: "int \<Rightarrow> nat \<Rightarrow> int \<Rightarrow> int list" where
  "be_digits b 0 n = []"
| "be_digits b (Suc k) n = be_digits b k (n div b) @ [n mod b]"

fun join_with :: "string \<Rightarrow> string list \<Rightarrow> string" where
  "join_with sep [] = []"
| "join_with sep [x] = x"
| "join_with sep (x # y # ys) = x @ sep @ join_with sep (y # ys)"

definition ipv4_to_string :: "u32 \<Rightarrow> string" where
  "ipv4_to_string a = join_with ''.'' (map (to_radix 64 10) (be_digits 256 4 (uint a)))"

definition v6_segments :: "128 word \<Rightarrow> int list" where
  "v6_segments a = be_digits 65536 8 (uint a)"

definition fmt_subslice :: "int list \<Rightarrow> string" where
  "fmt_subslice gs = join_with '':'' (map (to_radix 64 16) gs)"

text \<open>The first of the longest runs of zeros, as its start and length. \<open>i\<close> is the index of the next segment,
  \<open>(start, len)\<close> the run that ends before it and \<open>best\<close> the longest so far.\<close>

fun longest_zeros :: "nat \<Rightarrow> nat \<times> nat \<Rightarrow> nat \<times> nat \<Rightarrow> int list \<Rightarrow> nat \<times> nat" where
  "longest_zeros i cur best [] = best"
| "longest_zeros i (start, len) best (g # gs) =
     (if g = 0 then
        let cur = (if len = 0 then i else start, Suc len)
        in longest_zeros (Suc i) cur (if snd cur > snd best then cur else best) gs
      else longest_zeros (Suc i) (0, 0) best gs)"

text \<open>\<^verbatim>\<open>Display for Ipv6Addr\<close>: an address that embeds an IPv4 address shows it, a longest run of at least two zero
  segments is left out.\<close>

definition ipv6_to_string :: "128 word \<Rightarrow> string" where
  "ipv6_to_string a =
     (let gs = v6_segments a
      in if take 6 gs = [0, 0, 0, 0, 0, 0xFFFF] then ''::ffff:'' @ ipv4_to_string (ucast a)
         else case longest_zeros 0 (0, 0) (0, 0) gs of (start, len) \<Rightarrow>
           if len > 1 then fmt_subslice (take start gs) @ ''::'' @ fmt_subslice (drop (start + len) gs)
           else fmt_subslice gs)"

fun ip_to_string :: "ip_addr \<Rightarrow> string" where
  "ip_to_string (V4 a) = ipv4_to_string a"
| "ip_to_string (V6 a) = ipv6_to_string a"

subsection \<open>Addresses in keys\<close>

definition replace_char :: "char \<Rightarrow> char \<Rightarrow> string \<Rightarrow> string" where
  "replace_char c d = map (\<lambda>x. if x = c then d else x)"

fun zaddr :: "ip_addr \<Rightarrow> string" where
  "zaddr (V4 a) = ipv4_to_string a"
| "zaddr (V6 a) = replace_char (CHR '':'') (CHR ''-'') (ipv6_to_string a)"

text \<open>\<^verbatim>\<open>Ipv6Addr::from_str\<close> and \<^verbatim>\<open>Ipv4Addr::from_str\<close> take the whole text.\<close>

definition parse_ipv6 :: "string \<Rightarrow> ip_addr option" where
  "parse_ipv6 s = (case read_ipv6_addr s of Some (a, []) \<Rightarrow> Some (V6 a) | _ \<Rightarrow> None)"

definition parse_ipv4 :: "string \<Rightarrow> ip_addr option" where
  "parse_ipv4 s = (case read_ipv4_addr s of Some (a, []) \<Rightarrow> Some (V4 a) | _ \<Rightarrow> None)"

definition addr_of_zaddr :: "string \<Rightarrow> ip_addr option" where
  "addr_of_zaddr z =
     (if CHR ''-'' \<in> set z then parse_ipv6 (replace_char (CHR ''-'') (CHR '':'') z) else parse_ipv4 z)"

subsection \<open>Numbers: what is printed is read back\<close>

lemma to_digit_digit_char: "0 \<le> d \<Longrightarrow> d < r \<Longrightarrow> r \<le> 16 \<Longrightarrow> to_digit r (digit_char d) = Some d"
  by (auto simp: to_digit_def digit_char_def Let_def)

lemma read_digits_append:
  "read_digits r s = (vs, []) \<Longrightarrow> read_digits r (s @ t) = (vs @ fst (read_digits r t), snd (read_digits r t))"
  by (induction s arbitrary: vs) (auto split: option.splits prod.splits)

lemma div_power_less: "2 \<le> (r :: int) \<Longrightarrow> n < r ^ Suc k \<Longrightarrow> n div r < r ^ k"
proof (rule ccontr)
  assume "2 \<le> r" "n < r ^ Suc k" "\<not> n div r < r ^ k"
  then have "r * r ^ k \<le> r * (n div r)" by simp
  also have "\<dots> \<le> n" using \<open>2 \<le> r\<close> by (simp add: minus_mod_eq_mult_div [symmetric])
  finally show False using \<open>n < r ^ Suc k\<close> by simp
qed

lemma read_digits_to_radix:
  assumes "2 \<le> r" "r \<le> 16" "0 \<le> n" "n < r ^ fuel" "0 < fuel"
  shows "\<exists>vs. read_digits r (to_radix fuel r n) = (vs, []) \<and> vs \<noteq> [] \<and> foldl (\<lambda>acc d. acc * r + d) 0 vs = n"
  using assms(3-5)
proof (induction fuel arbitrary: n)
  case (Suc fuel)
  show ?case
  proof (cases "n < r")
    case True
    with Suc.prems assms show ?thesis by (simp add: to_digit_digit_char)
  next
    case False
    have "n div r < r ^ fuel"
    using div_power_less [of r n fuel] Suc.prems assms(1) by simp
    moreover have "0 < fuel" using Suc.prems False by (cases fuel) auto
    ultimately obtain vs where vs: "read_digits r (to_radix fuel r (n div r)) = (vs, [])"
        "foldl (\<lambda>acc d. acc * r + d) 0 vs = n div r"
      using Suc.IH [of "n div r"] Suc.prems assms(1) by (auto simp: pos_imp_zdiv_nonneg_iff)
    have "to_digit r (digit_char (n mod r)) = Some (n mod r)"
      using assms by (intro to_digit_digit_char) auto
    with vs False show ?thesis by (simp add: read_digits_append)
  qed
qed simp

lemma to_radix_head:
  assumes "2 \<le> r" "r \<le> 16" "0 \<le> n" "to_radix fuel r n = c # cs"
  shows "\<exists>d. 0 \<le> d \<and> d < r \<and> c = digit_char d"
  using assms(3,4)
proof (induction fuel arbitrary: n cs)
  case (Suc fuel)
  show ?case
  proof (cases "n < r")
    case True
    with Suc.prems show ?thesis by auto
  next
    case False
    show ?thesis
    proof (cases "to_radix fuel r (n div r)")
      case Nil
      with False Suc.prems assms(1) show ?thesis by (intro exI [of _ "n mod r"]) auto
    next
      case (Cons c' cs')
      with False Suc.prems assms(1) Suc.IH [of "n div r" cs'] show ?thesis
        by (auto simp: pos_imp_zdiv_nonneg_iff)
    qed
  qed
qed simp

text \<open>Printing a number and reading it back gives the number.\<close>

lemma parse_u64_to_string [simp]: "parse_u64 (u64_to_string w) = Some w"
proof -
  have bound: "uint w < 10 ^ 64"
    using uint_lt2p [of w] by (rule less_trans) simp
  obtain vs where vs: "read_digits 10 (u64_to_string w) = (vs, [])" "vs \<noteq> []"
      "foldl (\<lambda>acc d. acc * 10 + d) 0 vs = uint w"
    using read_digits_to_radix [of 10 "uint w" 64] bound by (auto simp: u64_to_string_def)
  obtain c cs where c: "u64_to_string w = c # cs" using vs(1,2) by (cases "u64_to_string w") auto
  then obtain d where d: "0 \<le> d" "d < 10" "c = digit_char d"
    using to_radix_head [of 10 "uint w" 64 c cs] by (auto simp: u64_to_string_def)
  have "c \<noteq> CHR ''+''"
  proof
    assume "c = CHR ''+''"
    then have "of_char (digit_char d) = (43 :: int)" using d(3) by simp
    with d show False by (simp add: digit_char_def)
  qed
  with vs c uint_lt2p [of w] show ?thesis by (simp add: parse_u64_def)
qed

lemma u64_to_string_inj [simp]: "u64_to_string v = u64_to_string w \<longleftrightarrow> v = w"
  by (metis parse_u64_to_string option.inject)

subsection \<open>Addresses: what is printed is read back\<close>

lemma length_be_digits [simp]: "length (be_digits b k n) = k"
  by (induction k arbitrary: n) auto

lemma be_digits_bounds: "0 < b \<Longrightarrow> d \<in> set (be_digits b k n) \<Longrightarrow> 0 \<le> d \<and> d < b"
  by (induction k arbitrary: n) auto

lemma foldl_be_digits: "0 < b \<Longrightarrow> foldl (\<lambda>acc d. acc * b + d) 0 (be_digits b k n) = n mod b ^ k"
proof (induction k arbitrary: n)
  case (Suc k)
  have "n mod (b * b ^ k) = b * (n div b mod b ^ k) + n mod b"
    using Suc.prems by (simp add: zmod_zmult2_eq)
  with Suc show ?case by (simp add: mult.commute)
qed simp

text \<open>A text that can follow a number: it does not go on with a digit.\<close>

definition stops :: "int \<Rightarrow> string \<Rightarrow> bool" where
  "stops r s \<longleftrightarrow> (case s of [] \<Rightarrow> True | c # _ \<Rightarrow> to_digit r c = None)"

lemma stops_simps [simp]:
  "stops r []"
  "stops r (c # cs) \<longleftrightarrow> to_digit r c = None"
  by (auto simp: stops_def)

lemma to_digit_separators [simp]:
  "r \<le> 16 \<Longrightarrow> to_digit r (CHR '':'') = None"
  "r \<le> 16 \<Longrightarrow> to_digit r (CHR ''.'') = None"
  by (auto simp: to_digit_def Let_def)

lemma read_digits_stops: "stops r s \<Longrightarrow> read_digits r s = ([], s)"
  by (cases s) auto

lemma length_to_radix:
  assumes "2 \<le> r" "0 \<le> n" "n < r ^ k" "0 < k"
  shows "length (to_radix fuel r n) \<le> k"
  using assms(2-4)
proof (induction fuel arbitrary: n k)
  case (Suc fuel)
  show ?case
  proof (cases "n < r")
    case False
    then obtain k' where k': "k = Suc k'" "0 < k'" using Suc.prems by (cases k; cases "k - 1") auto
    have "n div r < r ^ k'"
    using div_power_less [of r n k'] Suc.prems assms(1) k' by simp
    with False k' Suc.IH [of "n div r" k'] Suc.prems assms(1) show ?thesis
      by (auto simp: pos_imp_zdiv_nonneg_iff)
  qed (use Suc.prems in auto)
qed simp

lemma length_read_digits: "read_digits r s = (vs, rest) \<Longrightarrow> length vs + length rest = length s"
  by (induction s arbitrary: vs) (auto split: option.splits prod.splits)

lemma hd_to_radix:
  assumes "2 \<le> r" "r \<le> 16" "0 < n" "n < r ^ fuel"
  shows "hd (fst (read_digits r (to_radix fuel r n))) \<noteq> 0"
  using assms(3,4)
proof (induction fuel arbitrary: n)
  case (Suc fuel)
  show ?case
  proof (cases "n < r")
    case True
    with Suc.prems assms show ?thesis by (simp add: to_digit_digit_char)
  next
    case False
    have "n div r < r ^ fuel"
    using div_power_less [of r n fuel] Suc.prems assms(1) by simp
    moreover have pos: "0 < n div r" using False assms(1) by (simp add: pos_imp_zdiv_pos_iff)
    moreover have "0 < fuel" using calculation by (cases fuel) auto
    ultimately obtain vs where vs: "read_digits r (to_radix fuel r (n div r)) = (vs, [])" "vs \<noteq> []"
      using read_digits_to_radix [of r "n div r" fuel] assms by auto
    have "to_digit r (digit_char (n mod r)) = Some (n mod r)"
      using assms by (intro to_digit_digit_char) auto
    with vs False Suc.IH [of "n div r"] \<open>n div r < r ^ fuel\<close> pos show ?thesis
      by (simp add: read_digits_append)
  qed
qed simp

lemma read_number_to_radix:
  assumes "2 \<le> r" "r \<le> 16" "0 \<le> n" "n \<le> max_val" "n < r ^ max_digits" "0 < max_digits" "max_digits \<le> 64"
    "stops r rest"
  shows "read_number r max_digits max_val zero_ok (to_radix 64 r n @ rest) = Some (n, rest)"
proof -
  have "r ^ max_digits \<le> r ^ 64" using assms by (intro power_increasing) auto
  with assms(5) have fuel: "n < r ^ 64" by simp
  obtain vs where vs: "read_digits r (to_radix 64 r n) = (vs, [])" "vs \<noteq> []"
      "foldl (\<lambda>acc d. acc * r + d) 0 vs = n"
    using read_digits_to_radix [OF assms(1-3) fuel] by auto
  have "length vs = length (to_radix 64 r n)" using length_read_digits [OF vs(1)] by simp
  then have "length vs \<le> max_digits" using length_to_radix [of r n max_digits 64] assms by simp
  moreover have "hd vs \<noteq> 0 \<or> length vs \<le> 1"
  proof (cases "n = 0")
    case True
    then have "to_radix 64 r n = [digit_char n]" using assms(1) by (simp add: numeral_eq_Suc)
    with \<open>length vs = _\<close> show ?thesis by simp
  next
    case False
    then show ?thesis using hd_to_radix [OF assms(1,2) _ fuel] assms(3) vs(1) by simp
  qed
  ultimately show ?thesis
    using vs assms(4,8) by (auto simp: read_number_def read_digits_append read_digits_stops Let_def)
qed

lemma read_octet:
  assumes "0 \<le> d" "d < 256" "stops 10 rest"
  shows "read_number 10 3 255 False (to_radix 64 10 d @ rest) = Some (d, rest)"
  using assms by (intro read_number_to_radix) auto

lemma join_with_Cons: "join_with sep (x # ys) = x @ (if ys = [] then [] else sep @ join_with sep ys)"
  by (cases ys) auto

lemma read_octets_text:
  assumes "\<forall>d \<in> set ds. 0 \<le> d \<and> d < 256" "stops 10 rest" "ds \<noteq> []"
  shows "read_octets i (length ds) ((if 0 < i then ''.'' else []) @ join_with ''.'' (map (to_radix 64 10) ds) @ rest)
    = Some (ds, rest)"
  using assms(1,3)
proof (induction ds arbitrary: i)
  case (Cons d ds)
  then show ?case
    using assms(2) Cons.IH [of "Suc i"]
    by (cases "ds = []") (auto simp: read_separator_def read_given_char_def read_octet join_with_Cons)
qed simp

lemma read_ipv4_to_string:
  assumes "stops 10 rest"
  shows "read_ipv4_addr (ipv4_to_string a @ rest) = Some (a, rest)"
proof -
  have "uint a mod 256 ^ 4 = uint a" using uint_lt2p [of a] by simp
  then have "of_int (foldl (\<lambda>acc b. acc * 256 + b) 0 (be_digits 256 4 (uint a))) = a"
    by (subst foldl_be_digits) simp_all
  moreover have "be_digits 256 4 (uint a) \<noteq> []" by (metis length_be_digits list.size(3) zero_neq_numeral)
  ultimately show ?thesis
    using read_octets_text [of "be_digits 256 4 (uint a)" rest 0] assms be_digits_bounds [of 256]
    by (auto simp: read_ipv4_addr_def ipv4_to_string_def)
qed

lemma read_digits_rest: "read_digits r s = (vs, rest) \<Longrightarrow> set rest \<subseteq> set s"
  by (induction s arbitrary: vs) (auto split: option.splits prod.splits)

lemma read_number_rest: "read_number r d m z s = Some (v, rest) \<Longrightarrow> set rest \<subseteq> set s"
  by (auto simp: read_number_def Let_def dest: read_digits_rest split: prod.splits if_splits)

lemma read_ipv4_no_dot: "CHR ''.'' \<notin> set s \<Longrightarrow> read_ipv4_addr s = None"
  by (auto simp: read_ipv4_addr_def numeral_eq_Suc read_separator_def read_given_char_def
      dest!: read_number_rest split: option.splits list.splits)

lemma read_group:
  assumes "0 \<le> g" "g < 65536" "stops 16 rest"
  shows "read_number 16 4 65535 True (to_radix 64 16 g @ rest) = Some (g, rest)"
  using assms by (intro read_number_to_radix) auto

lemma digit_char_neq [simp]:
  assumes "0 \<le> d" "d < 16"
  shows "digit_char d \<noteq> CHR ''.''" "digit_char d \<noteq> CHR '':''" "digit_char d \<noteq> CHR ''-''" "digit_char d \<noteq> CHR ''|''"
proof -
  have "of_char (digit_char d) \<in> {48..57} \<union> {97..102 :: int}"
    using assms by (auto simp: digit_char_def)
  then show "digit_char d \<noteq> CHR ''.''" "digit_char d \<noteq> CHR '':''" "digit_char d \<noteq> CHR ''-''"
    "digit_char d \<noteq> CHR ''|''"
    by auto
qed

lemma to_radix_chars:
  "2 \<le> r \<Longrightarrow> 0 \<le> n \<Longrightarrow> c \<in> set (to_radix fuel r n) \<Longrightarrow> \<exists>d. 0 \<le> d \<and> d < r \<and> c = digit_char d"
proof (induction fuel arbitrary: n)
  case (Suc fuel)
  then show ?case
    using Suc.IH [of "n div r"] by (cases "n < r") (auto simp: pos_imp_zdiv_nonneg_iff intro: exI [of _ "n mod r"])
qed simp

text \<open>What may follow a list of groups that is not complete: nothing, or the double colon.\<close>

definition after_groups :: "string \<Rightarrow> bool" where
  "after_groups rest \<longleftrightarrow> rest = [] \<or> (\<exists>t. rest = CHR '':'' # CHR '':'' # t)"

lemma after_groups_stops: "after_groups rest \<Longrightarrow> stops 16 rest"
  by (auto simp: after_groups_def)

lemma read_groups_stop:
  assumes "after_groups rest" "CHR ''.'' \<notin> set rest"
  shows "read_groups i k rest = ([], False, rest)"
proof (cases k)
  case (Suc k')
  have "read_ipv4_addr t = None" if "set t \<subseteq> set rest" for t
    using that assms(2) by (intro read_ipv4_no_dot) auto
  then show ?thesis
    using assms(1) Suc
    by (auto simp: after_groups_def read_separator_def read_given_char_def read_number_def)
qed simp

lemma fmt_subslice_chars:
  "\<forall>g \<in> set gs. 0 \<le> g \<Longrightarrow> c \<in> set (fmt_subslice gs) \<Longrightarrow> c = CHR '':'' \<or> (\<exists>d. 0 \<le> d \<and> d < 16 \<and> c = digit_char d)"
proof (induction gs)
  case (Cons g gs)
  then show ?case
    using to_radix_chars [of 16 g c 64] by (auto simp: fmt_subslice_def join_with_Cons split: if_splits)
qed (simp add: fmt_subslice_def)

lemma fmt_subslice_no_dot: "\<forall>g \<in> set gs. 0 \<le> g \<Longrightarrow> CHR ''.'' \<notin> set (fmt_subslice gs)"
proof
  assume "\<forall>g \<in> set gs. 0 \<le> g" "CHR ''.'' \<in> set (fmt_subslice gs)"
  then have "CHR ''.'' = CHR '':'' \<or> (\<exists>d. 0 \<le> d \<and> d < 16 \<and> CHR ''.'' = digit_char d)"
    by (rule fmt_subslice_chars)
  then obtain d where "0 \<le> d" "d < 16" "CHR ''.'' = digit_char d" by auto
  with digit_char_neq(1) [of d] show False by simp
qed

lemma read_groups_text:
  assumes "\<forall>g \<in> set gs. 0 \<le> g \<and> g < 65536" "length gs \<le> k" "after_groups rest"
    "CHR ''.'' \<notin> set rest"
  shows "read_groups i k ((if 0 < i \<and> gs \<noteq> [] then '':'' else []) @ fmt_subslice gs @ rest) = (gs, False, rest)"
  using assms(1,2)
proof (induction gs arbitrary: i k)
  case Nil
  then show ?case using assms(3,4) by (simp add: fmt_subslice_def read_groups_stop)
next
  case (Cons g gs)
  then obtain k' where k: "k = Suc k'" by (cases k) auto
  define rest' where "rest' = (if gs \<noteq> [] then '':'' else []) @ fmt_subslice gs @ rest"
  have eq: "fmt_subslice (g # gs) @ rest = to_radix 64 16 g @ rest'"
    by (simp add: fmt_subslice_def join_with_Cons rest'_def)
  have stop: "stops 16 rest'"
    using after_groups_stops [OF assms(3)] by (auto simp: rest'_def fmt_subslice_def)
  have "CHR ''.'' \<notin> set (fmt_subslice (g # gs) @ rest)"
    using fmt_subslice_no_dot [of "g # gs"] Cons.prems(1) assms(4) by auto
  then have v4: "read_ipv4_addr (to_radix 64 16 g @ rest') = None"
    unfolding eq by (rule read_ipv4_no_dot)
  have "read_groups (Suc i) k' rest' = (gs, False, rest)"
    using Cons.IH [of k' "Suc i"] Cons.prems k by (auto simp: rest'_def)
  moreover have "read_number 16 4 65535 True (to_radix 64 16 g @ rest') = Some (g, rest')"
    using Cons.prems stop by (intro read_group) auto
  ultimately show ?case
    using v4 unfolding k by (auto simp: eq read_separator_def read_given_char_def)
qed

text \<open>A run of zeros of the segments \<open>gs\<close> before index \<open>i\<close>.\<close>

definition zeros_at :: "int list \<Rightarrow> nat \<Rightarrow> nat \<times> nat \<Rightarrow> bool" where
  "zeros_at gs i = (\<lambda>(start, len). start + len \<le> i \<and> (\<forall>j < len. gs ! (start + j) = 0))"

lemma longest_zeros_run:
  assumes "i + length rest = length gs" "drop i gs = rest" "zeros_at gs i best"
    "zeros_at gs i cur" "snd cur > 0 \<longrightarrow> fst cur + snd cur = i"
  shows "zeros_at gs (length gs) (longest_zeros i cur best rest)"
  using assms
proof (induction rest arbitrary: i cur best)
  case Nil
  then show ?case by simp
next
  case (Cons g rest)
  have g: "gs ! i = g" "drop (Suc i) gs = rest"
    using Cons.prems(1,2) by (metis nth_via_drop, metis drop_Suc list.sel(3) tl_drop)
  obtain start len where cur: "cur = (start, len)" by fastforce
  have best: "zeros_at gs (Suc i) best" using Cons.prems(3) by (auto simp: zeros_at_def)
  have len: "Suc i + length rest = length gs" using Cons.prems(1) by simp
  show ?case
  proof (cases "g = 0")
    case True
    define cur' where "cur' = (if len = 0 then i else start, Suc len)"
    have cur': "zeros_at gs (Suc i) cur'" "fst cur' + snd cur' = Suc i"
      using Cons.prems(4,5) g True cur by (auto simp: zeros_at_def less_Suc_eq cur'_def)
    have "zeros_at gs (length gs) (longest_zeros (Suc i) cur' (if snd cur' > snd best then cur' else best) rest)"
      using cur' best len g by (intro Cons.IH) auto
    moreover have "longest_zeros i cur best (g # rest) =
        longest_zeros (Suc i) cur' (if snd cur' > snd best then cur' else best) rest"
      by (simp only: cur True longest_zeros.simps Let_def cur'_def simp_thms if_True)
    ultimately show ?thesis by simp
  next
    case False
    have "zeros_at gs (length gs) (longest_zeros (Suc i) (0, 0) best rest)"
      using best len g by (intro Cons.IH) (auto simp: zeros_at_def)
    with False cur show ?thesis by simp
  qed
qed

lemma zeros_at_take:
  assumes "zeros_at gs (length gs) (start, len)"
  shows "gs = take start gs @ replicate len 0 @ drop (start + len) gs"
proof -
  have "take len (drop start gs) = replicate len 0"
    using assms by (intro nth_equalityI) (auto simp: zeros_at_def)
  then show ?thesis
    by (metis append_take_drop_id drop_drop add.commute)
qed

lemma groups_to_v6_segments: "groups_to_v6 (v6_segments a) = a"
proof -
  have "uint a mod 65536 ^ 8 = uint a" using uint_lt2p [of a] by simp
  then show ?thesis by (simp add: groups_to_v6_def v6_segments_def foldl_be_digits del: be_digits.simps)
qed

lemma v6_segments_bounds: "g \<in> set (v6_segments a) \<Longrightarrow> 0 \<le> g \<and> g < 65536"
  using be_digits_bounds [of 65536 g 8 "uint a"] by (simp add: v6_segments_def)

lemma length_v6_segments [simp]: "length (v6_segments a) = 8"
  by (simp add: v6_segments_def)

lemma read_full_groups:
  assumes "\<forall>g \<in> set gs. 0 \<le> g \<and> g < 65536" "length gs = 8"
  shows "read_ipv6_addr (fmt_subslice gs) = Some (groups_to_v6 gs, [])"
  using read_groups_text [of gs 8 "[]" 0] assms by (simp add: read_ipv6_addr_def after_groups_def)

lemma read_compressed_groups:
  assumes "\<forall>g \<in> set (gs @ hs). 0 \<le> g \<and> g < 65536" "length gs + length hs \<le> 6"
  shows "read_ipv6_addr (fmt_subslice gs @ ''::'' @ fmt_subslice hs) =
    Some (groups_to_v6 (gs @ replicate (8 - length gs - length hs) 0 @ hs), [])"
proof -
  have "CHR ''.'' \<notin> set (''::'' @ fmt_subslice hs)"
    using fmt_subslice_no_dot [of hs] assms(1) by auto
  then have "read_groups 0 8 (fmt_subslice gs @ ''::'' @ fmt_subslice hs) = (gs, False, ''::'' @ fmt_subslice hs)"
    using read_groups_text [of gs 8 "''::'' @ fmt_subslice hs" 0] assms by (auto simp: after_groups_def)
  moreover have "read_groups 0 (8 - (length gs + 1)) (fmt_subslice hs) = (hs, False, [])"
    using read_groups_text [of hs "8 - (length gs + 1)" "[]" 0] assms by (auto simp: after_groups_def)
  ultimately show ?thesis
    using assms(2) by (simp add: read_ipv6_addr_def read_given_char_def)
qed

lemma read_ipv4_nondigit: "to_digit 10 c = None \<Longrightarrow> read_ipv4_addr (c # t) = None"
  by (simp add: read_ipv4_addr_def numeral_eq_Suc read_separator_def read_number_def)

lemma read_mapped:
  "read_ipv6_addr (''::ffff:'' @ ipv4_to_string b) =
     Some (groups_to_v6 ([0, 0, 0, 0, 0, 0xFFFF] @ [uint b div 65536, uint b mod 65536]), [])"
proof -
  have ffff: "read_number 16 4 65535 True (''ffff'' @ CHR '':'' # t) = Some (65535, CHR '':'' # t)" for t
    by (simp add: read_number_def to_digit_def Let_def)
  have f: "to_digit 10 (CHR ''f'') = None" by (simp add: to_digit_def)
  have v4: "read_ipv4_addr (ipv4_to_string b) = Some (b, [])" using read_ipv4_to_string [of "[]"] by simp
  have "read_groups 0 8 (''::ffff:'' @ ipv4_to_string b) = ([], False, ''::ffff:'' @ ipv4_to_string b)"
    using read_ipv4_nondigit
    by (simp add: numeral_eq_Suc read_separator_def read_number_def)
  moreover have "read_groups 0 7 (''ffff:'' @ ipv4_to_string b) =
      ([0xFFFF, uint b div 65536, uint b mod 65536], True, [])"
    using ffff [of "ipv4_to_string b"] read_ipv4_nondigit [OF f] v4
    by (simp add: numeral_eq_Suc read_separator_def read_given_char_def)
  ultimately show ?thesis
    by (simp add: read_ipv6_addr_def read_given_char_def numeral_eq_Suc)
qed

lemma read_ipv6_to_string: "read_ipv6_addr (ipv6_to_string a) = Some (a, [])"
proof -
  define gs where "gs = v6_segments a"
  have bounds: "\<forall>g \<in> set gs. 0 \<le> g \<and> g < 65536" using v6_segments_bounds by (auto simp: gs_def)
  have len: "length gs = 8" by (simp add: gs_def)
  show ?thesis
  proof (cases "take 6 gs = [0, 0, 0, 0, 0, 0xFFFF]")
    case True
    have "drop 6 gs = [uint a div 65536 mod 65536, uint a mod 65536]"
      by (simp add: gs_def v6_segments_def numeral_eq_Suc)
    moreover have "uint (ucast a :: u32) = uint a mod 2 ^ 32"
      by (simp add: unsigned_ucast_eq take_bit_eq_mod)
    moreover have "uint a mod 2 ^ 32 div 65536 = uint a div 65536 mod 65536"
      using zmod_zmult2_eq [of 65536 "uint a" 65536] by simp
    moreover have "uint a mod 2 ^ 32 mod 65536 = uint a mod 65536"
      by (simp add: mod_mod_cancel)
    ultimately have "[0, 0, 0, 0, 0, 0xFFFF] @ [uint (ucast a :: u32) div 65536, uint (ucast a :: u32) mod 65536] = gs"
      using True by (metis append_take_drop_id)
    then show ?thesis
      using True read_mapped [of "ucast a"] groups_to_v6_segments [of a]
      by (simp add: ipv6_to_string_def gs_def [symmetric])
  next
    case False
    obtain start n where span: "longest_zeros 0 (0, 0) (0, 0) gs = (start, n)" by fastforce
    then have zeros: "zeros_at gs 8 (start, n)"
      using longest_zeros_run [of 0 gs gs "(0, 0)" "(0, 0)"] len by (simp add: zeros_at_def)
    show ?thesis
    proof (cases "n > 1")
      case True
      have "8 - length (take start gs) - length (drop (start + n) gs) = n"
        using zeros len by (simp add: zeros_at_def)
      moreover have "length (take start gs) + length (drop (start + n) gs) \<le> 6"
        using zeros len True by (simp add: zeros_at_def)
      moreover have "\<forall>g \<in> set (take start gs @ drop (start + n) gs). 0 \<le> g \<and> g < 65536"
        using bounds by (auto dest: in_set_takeD in_set_dropD)
      ultimately have "read_ipv6_addr (fmt_subslice (take start gs) @ ''::'' @ fmt_subslice (drop (start + n) gs)) =
          Some (groups_to_v6 gs, [])"
        using read_compressed_groups [of "take start gs" "drop (start + n) gs"] zeros_at_take [of gs start n] zeros len
        by simp
      with True False span show ?thesis
        using groups_to_v6_segments [of a] by (simp add: ipv6_to_string_def gs_def [symmetric])
    next
      case False
      with \<open>take 6 gs \<noteq> _\<close> span bounds len show ?thesis
        using groups_to_v6_segments [of a] read_full_groups [of gs]
        by (simp add: ipv6_to_string_def gs_def [symmetric])
    qed
  qed
qed

lemma u64_chars: "c \<in> set (u64_to_string w) \<Longrightarrow> c \<noteq> CHR '':''"
  using to_radix_chars [of 10 "uint w" c 64] by (auto simp: u64_to_string_def)

text \<open>The characters of a printed address.\<close>

definition addr_char :: "char \<Rightarrow> bool" where
  "addr_char c \<longleftrightarrow> c = CHR '':'' \<or> c = CHR ''.'' \<or> (\<exists>d. 0 \<le> d \<and> d < 16 \<and> c = digit_char d)"

lemma addr_char_neq: "addr_char c \<Longrightarrow> c \<noteq> CHR ''-'' \<and> c \<noteq> CHR ''|''"
  by (auto simp: addr_char_def dest: digit_char_neq)

lemma ipv4_chars:
  assumes "c \<in> set (ipv4_to_string a)"
  shows "c \<noteq> CHR '':'' \<and> addr_char c"
proof -
  have "c = CHR ''.'' \<or> (\<exists>d. 0 \<le> d \<and> d < 10 \<and> c = digit_char d)"
    if "\<forall>d \<in> set ds. 0 \<le> d" "c \<in> set (join_with ''.'' (map (to_radix 64 10) ds))" for ds
    using that
  proof (induction ds)
    case (Cons d ds)
    then show ?case
      using to_radix_chars [of 10 d c 64] by (auto simp: join_with_Cons split: if_splits)
  qed simp
  moreover have "\<forall>d \<in> set (be_digits 256 4 (uint a)). 0 \<le> d"
    using be_digits_bounds [of 256 _ 4 "uint a"] by auto
  ultimately consider "c = CHR ''.''" | d where "0 \<le> d" "d < 10" "c = digit_char d"
    using assms unfolding ipv4_to_string_def by blast
  then show ?thesis
  proof cases
    case (2 d)
    then show ?thesis using digit_char_neq(2) [of d] by (auto simp: addr_char_def)
  qed (simp add: addr_char_def)
qed

lemma ipv6_chars:
  assumes "c \<in> set (ipv6_to_string a)"
  shows "addr_char c"
proof -
  have groups: "addr_char c" if "c \<in> set (fmt_subslice gs)" "set gs \<subseteq> set (v6_segments a)" for gs
    using fmt_subslice_chars [of gs c] that v6_segments_bounds [of _ a] by (auto simp: addr_char_def)
  have f: "addr_char (CHR ''f'')" unfolding addr_char_def
    by (intro disjI2 exI [of _ 15]) (simp add: digit_char_def char_of_def)
  have colon: "addr_char (CHR '':'')" by (simp add: addr_char_def)
  show ?thesis
    using assms groups f colon ipv4_chars [of c "ucast a"] set_take_subset [of _ "v6_segments a"]
      set_drop_subset [of _ "v6_segments a"]
    unfolding ipv6_to_string_def Let_def by (auto split: if_splits prod.splits)
qed

lemma ipv6_has_colon: "CHR '':'' \<in> set (ipv6_to_string a)"
proof -
  obtain g h gs where "v6_segments a = g # h # gs"
    using length_v6_segments [of a] by (cases "v6_segments a"; cases "tl (v6_segments a)") auto
  then have "CHR '':'' \<in> set (fmt_subslice (v6_segments a))" by (simp add: fmt_subslice_def)
  then show ?thesis
    by (cases "longest_zeros 0 (0, 0) (0, 0) (v6_segments a)") (auto simp: ipv6_to_string_def Let_def)
qed

lemma parse_ip_to_string [simp]: "parse_ip (ip_to_string a) = Some a"
proof (cases a)
  case (V4 b)
  then show ?thesis using read_ipv4_to_string [of "[]" b] by (simp add: parse_ip_def)
next
  case (V6 b)
  have "read_ipv4_addr (ipv6_to_string b) = None"
  proof (cases "take 6 (v6_segments b) = [0, 0, 0, 0, 0, 0xFFFF]")
    case True
    then show ?thesis by (simp add: ipv6_to_string_def read_ipv4_nondigit)
  next
    case False
    have "CHR ''.'' \<notin> set (fmt_subslice gs)" if "set gs \<subseteq> set (v6_segments b)" for gs
      using that v6_segments_bounds [of _ b] by (intro fmt_subslice_no_dot) auto
    with False show ?thesis
      using set_take_subset [of _ "v6_segments b"] set_drop_subset [of _ "v6_segments b"]
      by (intro read_ipv4_no_dot) (auto simp: ipv6_to_string_def Let_def split: prod.splits)
  qed
  with V6 show ?thesis by (simp add: parse_ip_def read_ipv6_to_string)
qed

lemma ip_to_string_inj [simp]: "ip_to_string a = ip_to_string b \<longleftrightarrow> a = b"
  by (metis parse_ip_to_string option.inject)

lemma zaddr_chars: "c \<in> set (zaddr a) \<Longrightarrow> c \<noteq> CHR '':'' \<and> c \<noteq> CHR ''|''"
  by (cases a) (auto simp: replace_char_def dest!: ipv4_chars ipv6_chars addr_char_neq)

lemma addr_of_zaddr_zaddr [simp]: "addr_of_zaddr (zaddr a) = Some a"
proof (cases a)
  case (V4 b)
  have "CHR ''-'' \<notin> set (ipv4_to_string b)" using ipv4_chars addr_char_neq by blast
  then show ?thesis
    using V4 read_ipv4_to_string [of "[]" b] by (simp add: addr_of_zaddr_def parse_ipv4_def)
next
  case (V6 b)
  have "map (\<lambda>x. if x = CHR ''-'' then CHR '':'' else x) (zaddr a) = ipv6_to_string b"
    using V6 ipv6_chars [of _ b] addr_char_neq
    by (auto simp: replace_char_def intro!: map_idI)
  moreover have "CHR ''-'' \<in> set (zaddr a)"
    using V6 ipv6_has_colon [of b] by (auto simp: replace_char_def)
  ultimately show ?thesis
    using V6 read_ipv6_to_string [of b] by (simp add: addr_of_zaddr_def parse_ipv6_def replace_char_def)
qed

lemma zaddr_inj [simp]: "zaddr a = zaddr b \<longleftrightarrow> a = b"
  by (metis addr_of_zaddr_zaddr option.inject)

end
