(* ===== verification/Database.thy ===== *)
theory Database
  imports Addr_Text
begin

text \<open>
  The database interface of the visa service, \<^verbatim>\<open>vs/src/db/mod.rs\<close>, and its in-memory implementation,
  \<^verbatim>\<open>vs/src/db/db_fake.rs\<close>. The trait object \<^verbatim>\<open>Arc<dyn DbConnection>\<close> the repositories hold is a record of functions:
  each takes the instant of the call and the state behind the connection and returns the state it leaves and its
  reply. \<open>fake_db\<close> is that record for \<^verbatim>\<open>FakeDb\<close>, with its injected faults; the regular expressions of its key scan
  are a parameter. The Redis server behind \<^verbatim>\<open>RedisDb\<close> is outside the sources: what the repositories rely on is stated
  as the laws of locales, against an abstract store, and the locales are interpreted on \<open>fake_db\<close>.
\<close>

subsection \<open>Bytes as text\<close>

definition byte_in :: "nat \<Rightarrow> nat \<Rightarrow> char \<Rightarrow> bool" where
  "byte_in lo hi c \<longleftrightarrow> lo \<le> of_char c \<and> of_char c \<le> hi"

abbreviation continuation :: "char \<Rightarrow> bool" where
  "continuation \<equiv> byte_in 0x80 0xBF"

text \<open>The range of the second byte of a sequence of three or four bytes, by its first byte.\<close>

definition second_ok :: "char \<Rightarrow> char \<Rightarrow> bool" where
  "second_ok c d =
     (let n = of_char c :: nat
      in if n = 0xE0 then byte_in 0xA0 0xBF d
         else if n = 0xED then byte_in 0x80 0x9F d
         else if n = 0xF0 then byte_in 0x90 0xBF d
         else if n = 0xF4 then byte_in 0x80 0x8F d
         else continuation d)"

text \<open>One step of the decoder of \<^verbatim>\<open>core::str::lossy\<close>: whether the text starts with a well-formed character, and how
  many bytes that character, or the malformed piece in its place, takes.\<close>

definition utf8_step :: "string \<Rightarrow> bool \<times> nat" where
  "utf8_step s =
     (let at = (\<lambda>P i. i < length s \<and> P (s ! i)); c = hd s
      in if byte_in 0 0x7F c then (True, 1)
         else if byte_in 0xC2 0xDF c then
           (if at continuation 1 then (True, 2) else (False, 1))
         else if byte_in 0xE0 0xEF c then
           (if \<not> at (second_ok c) 1 then (False, 1)
            else if at continuation 2 then (True, 3) else (False, 2))
         else if byte_in 0xF0 0xF4 c then
           (if \<not> at (second_ok c) 1 then (False, 1)
            else if \<not> at continuation 2 then (False, 2)
            else if at continuation 3 then (True, 4) else (False, 3))
         else (False, 1))"

definition REPLACEMENT_CHARACTER :: string where
  "REPLACEMENT_CHARACTER = [CHR 0xEF, CHR 0xBF, CHR 0xBD]"

lemma utf8_step_pos: "0 < snd (utf8_step s)"
  by (simp add: utf8_step_def Let_def)

text \<open>\<^verbatim>\<open>String::from_utf8_lossy\<close>.\<close>

function from_utf8_lossy :: "string \<Rightarrow> string" where
  "from_utf8_lossy s =
     (if s = [] then []
      else case utf8_step s of (ok, n) \<Rightarrow>
        (if ok then take n s else REPLACEMENT_CHARACTER) @ from_utf8_lossy (drop n s))"
  by pat_completeness auto

termination from_utf8_lossy
proof (relation "measure length", goal_cases)
  case (2 s ok n)
  then have "0 < n" using utf8_step_pos [of s] by (metis snd_conv)
  with 2(1) show ?case by (cases s) auto
qed simp

declare from_utf8_lossy.simps [simp del]

text \<open>Every Rust \<^verbatim>\<open>String\<close> is well-formed UTF-8, so reading its bytes back as text changes nothing.\<close>

definition valid_utf8 :: "string \<Rightarrow> bool" where
  "valid_utf8 s \<longleftrightarrow> from_utf8_lossy s = s"

subsection \<open>The interface\<close>

text \<open>A reply of the database driver that is not a value; the drivers carry a message.\<close>

datatype redis_error = RedisError string

datatype lock_type = VsInstance

record lock_descriptor =
  ld_key :: string
  ld_ident :: string
  ld_timeout :: time

definition lock_descriptor_new :: "lock_type \<Rightarrow> string \<Rightarrow> time \<Rightarrow> lock_descriptor" where
  "lock_descriptor_new lt ident timeout =
     \<lparr>ld_key = (case lt of VsInstance \<Rightarrow> ''lock:vsinstance''), ld_ident = ident, ld_timeout = timeout\<rparr>"

datatype db_op =
    Del string
  | SetBin string string
  | SRem string string
  | HSet string string string
  | HSetMultiple string "(string \<times> string) list"
  | Expire string int

type_synonym ('db, 'a) db_call = "time \<Rightarrow> 'db \<Rightarrow> 'db \<times> (redis_error, 'a) result"

record 'db db_connection =
  db_shutdown_cleanup :: "('db, unit) db_call"
  db_exists :: "string \<Rightarrow> ('db, bool) db_call"
  db_set :: "string \<Rightarrow> string \<Rightarrow> ('db, unit) db_call"
  db_set_ex :: "string \<Rightarrow> string \<Rightarrow> u64 \<Rightarrow> ('db, unit) db_call"
  db_get :: "string \<Rightarrow> ('db, string option) db_call"
  db_set_bin :: "string \<Rightarrow> string \<Rightarrow> ('db, unit) db_call"
  db_set_bin_ex :: "string \<Rightarrow> string \<Rightarrow> u64 \<Rightarrow> ('db, unit) db_call"
  db_get_bin :: "string \<Rightarrow> ('db, string) db_call"
  db_del :: "string \<Rightarrow> ('db, unit) db_call"
  db_smembers :: "string \<Rightarrow> ('db, string list) db_call"
  db_sismember :: "string \<Rightarrow> string \<Rightarrow> ('db, bool) db_call"
  db_hget :: "string \<Rightarrow> string \<Rightarrow> ('db, string option) db_call"
  db_hgetall :: "string \<Rightarrow> ('db, (string, string) hashmap) db_call"
  db_hset :: "string \<Rightarrow> string \<Rightarrow> string \<Rightarrow> ('db, unit) db_call"
  db_hset_nx :: "string \<Rightarrow> string \<Rightarrow> string \<Rightarrow> ('db, bool) db_call"
  db_hset_multiple :: "string \<Rightarrow> (string \<times> string) list \<Rightarrow> ('db, unit) db_call"
  db_hdel :: "string \<Rightarrow> string \<Rightarrow> ('db, unit) db_call"
  db_sadd :: "string \<Rightarrow> string \<Rightarrow> ('db, unit) db_call"
  db_incr :: "string \<Rightarrow> u64 \<Rightarrow> ('db, u64) db_call"
  db_expire :: "string \<Rightarrow> int \<Rightarrow> ('db, unit) db_call"
  db_atomic_pipeline :: "db_op list \<Rightarrow> ('db, unit) db_call"
  db_scan_match_all :: "string \<Rightarrow> ('db, string list) db_call"
  db_clear_state :: "('db, unit) db_call"
  db_acquire_or_renew_lock :: "lock_descriptor \<Rightarrow> ('db, bool) db_call"
  db_release_lock :: "lock_descriptor \<Rightarrow> ('db, bool) db_call"

subsection \<open>The in-memory database\<close>

datatype fault_mode = NoFault | Reject | ApplyThenError

datatype fake_db_value =
    Str string
  | Bin string
  | Hash "(string, string) hashmap"
  | SetVal "string list"

record fake_entry =
  fe_value :: fake_db_value
  fe_exp :: time

record fake_store =
  fk_store :: "(string, fake_entry) hashmap"
  fk_set_ex_fault :: fault_mode
  fk_del_fault :: fault_mode
  fk_hset_fault :: fault_mode

definition fake_new :: fake_store where
  "fake_new = \<lparr>fk_store = [], fk_set_ex_fault = NoFault, fk_del_fault = NoFault, fk_hset_fault = NoFault\<rparr>"

definition set_set_ex_fault :: "fault_mode \<Rightarrow> fake_store \<Rightarrow> fake_store" where
  "set_set_ex_fault m db = db\<lparr>fk_set_ex_fault := m\<rparr>"

definition set_del_fault :: "fault_mode \<Rightarrow> fake_store \<Rightarrow> fake_store" where
  "set_del_fault m db = db\<lparr>fk_del_fault := m\<rparr>"

definition set_hset_fault :: "fault_mode \<Rightarrow> fake_store \<Rightarrow> fake_store" where
  "set_hset_fault m db = db\<lparr>fk_hset_fault := m\<rparr>"

definition injected_fault_err :: "(redis_error, 'a) result" where
  "injected_fault_err = Inl (Err (RedisError ''injected fault''))"

abbreviation redis_err :: "string \<Rightarrow> (redis_error, 'a) result" where
  "redis_err m \<equiv> Inl (Err (RedisError m))"

definition DAY :: time where
  "DAY = 86400 * 1000000000"

definition entry_new :: "time \<Rightarrow> fake_db_value \<Rightarrow> fake_entry" where
  "entry_new now v = \<lparr>fe_value = v, fe_exp = now + DAY\<rparr>"

definition secs :: "u64 \<Rightarrow> time" where
  "secs n = uint n * 1000000000"

definition entry_new_ex :: "time \<Rightarrow> fake_db_value \<Rightarrow> u64 \<Rightarrow> fake_entry" where
  "entry_new_ex now v s = \<lparr>fe_value = v, fe_exp = now + secs s\<rparr>"

abbreviation fk_insert :: "string \<Rightarrow> fake_entry \<Rightarrow> fake_store \<Rightarrow> fake_store" where
  "fk_insert k e db \<equiv> db\<lparr>fk_store := hm_insert k e (fk_store db)\<rparr>"

abbreviation fk_remove :: "string \<Rightarrow> fake_store \<Rightarrow> fake_store" where
  "fk_remove k db \<equiv> db\<lparr>fk_store := hm_remove k (fk_store db)\<rparr>"

text \<open>An expired key is dropped when it is asked for.\<close>

definition fake_exists :: "string \<Rightarrow> (fake_store, bool) db_call" where
  "fake_exists k now db =
     (case hm_get (fk_store db) k of
        None \<Rightarrow> (db, Inr False)
      | Some e \<Rightarrow> if now > fe_exp e then (fk_remove k db, Inr False) else (db, Inr True))"

definition fake_set :: "string \<Rightarrow> string \<Rightarrow> (fake_store, unit) db_call" where
  "fake_set k v now db = (fk_insert k (entry_new now (Str v)) db, Inr ())"

text \<open>An operation with an injected fault either does nothing and fails, or does its work and fails.\<close>

definition with_fault :: "fault_mode \<Rightarrow> (fake_store \<Rightarrow> fake_store \<times> (redis_error, 'a) result) \<Rightarrow> fake_store
    \<Rightarrow> fake_store \<times> (redis_error, 'a) result" where
  "with_fault m f db =
     (case m of
        NoFault \<Rightarrow> f db
      | Reject \<Rightarrow> (db, injected_fault_err)
      | ApplyThenError \<Rightarrow>
          (case f db of (db', Inl e) \<Rightarrow> (db', Inl e) | (db', Inr _) \<Rightarrow> (db', injected_fault_err)))"

definition fake_set_ex :: "string \<Rightarrow> string \<Rightarrow> u64 \<Rightarrow> (fake_store, unit) db_call" where
  "fake_set_ex k v s now db =
     with_fault (fk_set_ex_fault db) (\<lambda>db. (fk_insert k (entry_new_ex now (Str v) s) db, Inr ())) db"

text \<open>The body the reading operations share: an absent or expired key gives a default.\<close>

definition fake_read :: "string \<Rightarrow> (redis_error, 'a) result \<Rightarrow> (fake_db_value \<Rightarrow> (redis_error, 'a) result)
    \<Rightarrow> (fake_store, 'a) db_call" where
  "fake_read k absent read now db =
     (case fake_exists k now db of
        (db', Inl e) \<Rightarrow> (db', Inl e)
      | (db', Inr present) \<Rightarrow>
          if \<not> present then (db', absent)
          else (case hm_get (fk_store db') k of
                  None \<Rightarrow> (db', absent)
                | Some e \<Rightarrow> (db', read (fe_value e))))"

definition fake_get :: "string \<Rightarrow> (fake_store, string option) db_call" where
  "fake_get k = fake_read k (Inr None)
     (\<lambda>v. case v of Str s \<Rightarrow> Inr (Some s) | Bin b \<Rightarrow> Inr (Some (from_utf8_lossy b))
        | _ \<Rightarrow> redis_err ''value is not string'')"

definition fake_set_bin :: "string \<Rightarrow> string \<Rightarrow> (fake_store, unit) db_call" where
  "fake_set_bin k v now db = (fk_insert k (entry_new now (Bin v)) db, Inr ())"

definition fake_set_bin_ex :: "string \<Rightarrow> string \<Rightarrow> u64 \<Rightarrow> (fake_store, unit) db_call" where
  "fake_set_bin_ex k v s now db = (fk_insert k (entry_new_ex now (Bin v) s) db, Inr ())"

definition fake_get_bin :: "string \<Rightarrow> (fake_store, string) db_call" where
  "fake_get_bin k = fake_read k (redis_err ''key not found'')
     (\<lambda>v. case v of Bin b \<Rightarrow> Inr b | Str s \<Rightarrow> Inr s | _ \<Rightarrow> redis_err ''value is not binary'')"

definition fake_del_with_lock :: "string \<Rightarrow> (fake_store, unit) db_call" where
  "fake_del_with_lock k now db = (fk_remove k db, Inr ())"

definition fake_del :: "string \<Rightarrow> (fake_store, unit) db_call" where
  "fake_del k now db = with_fault (fk_del_fault db) (fake_del_with_lock k now) db"

definition fake_smembers :: "string \<Rightarrow> (fake_store, string list) db_call" where
  "fake_smembers k = fake_read k (Inr [])
     (\<lambda>v. case v of SetVal xs \<Rightarrow> Inr xs | _ \<Rightarrow> redis_err ''value is not a set'')"

definition fake_sismember :: "string \<Rightarrow> string \<Rightarrow> (fake_store, bool) db_call" where
  "fake_sismember k x = fake_read k (Inr False)
     (\<lambda>v. case v of SetVal xs \<Rightarrow> Inr (x \<in> set xs) | _ \<Rightarrow> redis_err ''value is not a set'')"

definition fake_hget :: "string \<Rightarrow> string \<Rightarrow> (fake_store, string option) db_call" where
  "fake_hget k f = fake_read k (Inr None)
     (\<lambda>v. case v of Hash h \<Rightarrow> Inr (hm_get h f) | _ \<Rightarrow> redis_err ''value is not a hash'')"

definition fake_hgetall :: "string \<Rightarrow> (fake_store, (string, string) hashmap) db_call" where
  "fake_hgetall k = fake_read k (Inr [])
     (\<lambda>v. case v of Hash h \<Rightarrow> Inr h | _ \<Rightarrow> redis_err ''value is not a hash'')"

text \<open>The body the writing operations share: the entry of the key, made anew when it is absent, is updated in
  place. An expired entry is not noticed here: it is updated and stays expired.\<close>

definition fake_upsert :: "string \<Rightarrow> fake_db_value \<Rightarrow> (fake_db_value \<Rightarrow> (redis_error, fake_db_value \<times> 'a) result)
    \<Rightarrow> (fake_store, 'a) db_call" where
  "fake_upsert k fresh f now db =
     (let e = (case hm_get (fk_store db) k of None \<Rightarrow> entry_new now fresh | Some e \<Rightarrow> e);
          db' = fk_insert k e db
      in case f (fe_value e) of
           Inl err \<Rightarrow> (db', Inl err)
         | Inr (v, a) \<Rightarrow> (fk_insert k (e\<lparr>fe_value := v\<rparr>) db', Inr a))"

definition fake_hset_with_lock :: "string \<Rightarrow> string \<Rightarrow> string \<Rightarrow> (fake_store, unit) db_call" where
  "fake_hset_with_lock k f x = fake_upsert k (Hash [])
     (\<lambda>v. case v of Hash h \<Rightarrow> Inr (Hash (hm_insert f x h), ()) | _ \<Rightarrow> redis_err ''value is not a hash'')"

definition fake_hset_multiple :: "string \<Rightarrow> (string \<times> string) list \<Rightarrow> (fake_store, unit) db_call" where
  "fake_hset_multiple k fvs = fake_upsert k (Hash [])
     (\<lambda>v. case v of Hash h \<Rightarrow> Inr (Hash (fold (\<lambda>(f, x). hm_insert f x) fvs h), ())
        | _ \<Rightarrow> redis_err ''value is not a hash'')"

definition fake_hset :: "string \<Rightarrow> string \<Rightarrow> string \<Rightarrow> (fake_store, unit) db_call" where
  "fake_hset k f x now db = with_fault (fk_hset_fault db) (fake_hset_with_lock k f x now) db"

definition fake_hset_nx :: "string \<Rightarrow> string \<Rightarrow> string \<Rightarrow> (fake_store, bool) db_call" where
  "fake_hset_nx k f x = fake_upsert k (Hash [])
     (\<lambda>v. case v of
        Hash h \<Rightarrow> (case hm_get h f of None \<Rightarrow> Inr (Hash (hm_insert f x h), True) | Some _ \<Rightarrow> Inr (Hash h, False))
      | _ \<Rightarrow> redis_err ''value is not a hash'')"

definition fake_hdel :: "string \<Rightarrow> string \<Rightarrow> (fake_store, unit) db_call" where
  "fake_hdel k f now db =
     (case hm_get (fk_store db) k of
        None \<Rightarrow> (db, Inr ())
      | Some e \<Rightarrow>
          (case fe_value e of
             Hash h \<Rightarrow> (fk_insert k (e\<lparr>fe_value := Hash (hm_remove f h)\<rparr>) db, Inr ())
           | _ \<Rightarrow> (db, redis_err ''value is not a hash'')))"

definition fake_sadd :: "string \<Rightarrow> string \<Rightarrow> (fake_store, unit) db_call" where
  "fake_sadd k x = fake_upsert k (SetVal [])
     (\<lambda>v. case v of SetVal xs \<Rightarrow> Inr (SetVal (List.insert x xs), ()) | _ \<Rightarrow> redis_err ''value is not a set'')"

text \<open>The sum panics where it overflows: this backend is built with overflow checks.\<close>

definition fake_incr :: "string \<Rightarrow> u64 \<Rightarrow> (fake_store, u64) db_call" where
  "fake_incr k by = fake_upsert k (Str ''0'')
     (\<lambda>v. case v of
        Str s \<Rightarrow>
          (case parse_u64 s of
             None \<Rightarrow> redis_err ''value is not an integer''
           | Some n \<Rightarrow> if uint n + uint by < 2 ^ 64 then Inr (Str (u64_to_string (n + by)), n + by) else Inl Panic)
      | _ \<Rightarrow> redis_err ''value is not a string'')"

definition fake_srem_with_lock :: "string \<Rightarrow> string \<Rightarrow> (fake_store, unit) db_call" where
  "fake_srem_with_lock k x now db =
     (case fake_exists k now db of
        (db', Inl e) \<Rightarrow> (db', Inl e)
      | (db', Inr present) \<Rightarrow>
          if \<not> present then (db', Inr ())
          else (case hm_get (fk_store db') k of
                  None \<Rightarrow> (db', Inr ())
                | Some e \<Rightarrow>
                    (case fe_value e of
                       SetVal xs \<Rightarrow> (fk_insert k (e\<lparr>fe_value := SetVal (removeAll x xs)\<rparr>) db', Inr ())
                     | _ \<Rightarrow> (db', redis_err ''value is not a set''))))"

definition fake_expire :: "string \<Rightarrow> int \<Rightarrow> (fake_store, unit) db_call" where
  "fake_expire k s now db =
     (case fake_exists k now db of
        (db', Inl e) \<Rightarrow> (db', Inl e)
      | (db', Inr present) \<Rightarrow>
          if \<not> present then (db', Inr ())
          else if s \<le> 0 then (fk_remove k db', Inr ())
          else (case hm_get (fk_store db') k of
                  None \<Rightarrow> (db', Inr ())
                | Some e \<Rightarrow> (fk_insert k (e\<lparr>fe_exp := now + s * 1000000000\<rparr>) db', Inr ())))"

fun fake_run_op :: "db_op \<Rightarrow> (fake_store, unit) db_call" where
  "fake_run_op (Del k) = fake_del_with_lock k"
| "fake_run_op (SetBin k v) = fake_set_bin k v"
| "fake_run_op (SRem k x) = fake_srem_with_lock k x"
| "fake_run_op (HSet k f x) = fake_hset_with_lock k f x"
| "fake_run_op (HSetMultiple k fvs) = fake_hset_multiple k fvs"
| "fake_run_op (Expire k s) = fake_expire k s"

fun fake_run_ops :: "db_op list \<Rightarrow> (fake_store, unit) db_call" where
  "fake_run_ops [] now db = (db, Inr ())"
| "fake_run_ops (opn # ops) now db =
     (case fake_run_op opn now db of
        (db', Inl e) \<Rightarrow> (db', Inl e)
      | (db', Inr _) \<Rightarrow> fake_run_ops ops now db')"

definition fake_atomic_pipeline :: "db_op list \<Rightarrow> (fake_store, unit) db_call" where
  "fake_atomic_pipeline ops now db =
     (if fk_set_ex_fault db = Reject then (db, injected_fault_err) else fake_run_ops ops now db)"

text \<open>The regular expression engine is a parameter: None for a pattern that does not compile, else which keys it
  matches somewhere in them.\<close>

definition regex_of_glob :: "string \<Rightarrow> string" where
  "regex_of_glob p = concat (map (\<lambda>c. if c = CHR ''*'' then ''.*'' else [c]) p)"

definition fake_scan_match_all :: "(string \<Rightarrow> (string \<Rightarrow> bool) option) \<Rightarrow> string \<Rightarrow> (fake_store, string list) db_call" where
  "fake_scan_match_all regex p now db =
     (case regex (regex_of_glob p) of
        None \<Rightarrow> (db, redis_err ''invalid pattern regex'')
      | Some is_match \<Rightarrow> (db, Inr (filter is_match (hm_keys (fk_store db)))))"

definition fake_clear_state :: "(fake_store, unit) db_call" where
  "fake_clear_state now db = (db\<lparr>fk_store := []\<rparr>, Inr ())"

definition whole_secs :: "time \<Rightarrow> time" where
  "whole_secs t = t div 1000000000 * 1000000000"

definition fake_acquire_or_renew_lock :: "lock_descriptor \<Rightarrow> (fake_store, bool) db_call" where
  "fake_acquire_or_renew_lock d now db =
     (let k = ld_key d in
      case hm_get (fk_store db) k of
        Some e \<Rightarrow>
          if fe_exp e < now then
            (fk_insert k \<lparr>fe_value = Str (ld_ident d), fe_exp = now + ld_timeout d\<rparr> db, Inr True)
          else (case fe_value e of
                  Str s \<Rightarrow> if s = ld_ident d then (fk_insert k (e\<lparr>fe_exp := now + ld_timeout d\<rparr>) db, Inr True)
                          else (db, Inr False)
                | _ \<Rightarrow> (db, Inl Panic))
      | None \<Rightarrow>
          (fk_insert k \<lparr>fe_value = Str (ld_ident d), fe_exp = now + whole_secs (ld_timeout d)\<rparr> db, Inr True))"

definition fake_release_lock :: "lock_descriptor \<Rightarrow> (fake_store, bool) db_call" where
  "fake_release_lock d now db =
     (let k = ld_key d in
      case hm_get (fk_store db) k of
        None \<Rightarrow> (db, Inr True)
      | Some e \<Rightarrow>
          if fe_exp e \<ge> now then
            (case fe_value e of
               Str s \<Rightarrow> if s \<noteq> ld_ident d then (db, Inr False) else (fk_remove k db, Inr True)
             | _ \<Rightarrow> (db, Inl Panic))
          else (fk_remove k db, Inr True))"

definition fake_db :: "(string \<Rightarrow> (string \<Rightarrow> bool) option) \<Rightarrow> fake_store db_connection" where
  "fake_db regex = \<lparr>
     db_shutdown_cleanup = (\<lambda>now db. (db, Inr ())),
     db_exists = fake_exists, db_set = fake_set, db_set_ex = fake_set_ex, db_get = fake_get,
     db_set_bin = fake_set_bin, db_set_bin_ex = fake_set_bin_ex, db_get_bin = fake_get_bin, db_del = fake_del,
     db_smembers = fake_smembers, db_sismember = fake_sismember, db_hget = fake_hget, db_hgetall = fake_hgetall,
     db_hset = fake_hset, db_hset_nx = fake_hset_nx, db_hset_multiple = fake_hset_multiple, db_hdel = fake_hdel,
     db_sadd = fake_sadd, db_incr = fake_incr, db_expire = fake_expire,
     db_atomic_pipeline = fake_atomic_pipeline, db_scan_match_all = fake_scan_match_all regex,
     db_clear_state = fake_clear_state,
     db_acquire_or_renew_lock = fake_acquire_or_renew_lock, db_release_lock = fake_release_lock\<rparr>"

subsection \<open>What the repositories rely on\<close>

text \<open>The abstract store: what each key holds and the last instant it holds it. An expired key may or may not be
  there any more, so a store is described by its part that is alive.\<close>

datatype db_value =
    StrV string
  | HashV "string \<rightharpoonup> string"
  | SetV "string set"

type_synonym db_state = "string \<rightharpoonup> db_value \<times> time"

definition alive :: "time \<Rightarrow> db_state \<Rightarrow> db_state" where
  "alive now m k = (case m k of None \<Rightarrow> None | Some (v, e) \<Rightarrow> if now \<le> e then Some (v, e) else None)"

fun spec_op :: "time \<Rightarrow> time \<Rightarrow> db_op \<Rightarrow> db_state \<Rightarrow> db_state" where
  "spec_op keep now (Del k) m = m(k := None)"
| "spec_op keep now (SetBin k v) m = m(k \<mapsto> (StrV v, now + keep))"
| "spec_op keep now (Expire k s) m =
     (case m k of
        None \<Rightarrow> m
      | Some (v, e) \<Rightarrow> if s \<le> 0 then m(k := None) else m(k \<mapsto> (v, now + s * 1000000000)))"
| "spec_op keep now _ m = m"

fun string_op :: "db_op \<Rightarrow> bool" where
  "string_op (Del k) = True"
| "string_op (SetBin k v) = valid_utf8 v"
| "string_op (Expire k s) = True"
| "string_op _ = False"

definition string_at :: "db_state \<Rightarrow> string \<Rightarrow> string option option" where
  "string_at m k = (case m k of None \<Rightarrow> Some None | Some (StrV v, _) \<Rightarrow> Some (Some v) | _ \<Rightarrow> None)"

text \<open>The contract of a call, against the state it should leave and the value it should return: a call that
  returns a value has done its work; a call that fails has done it or has done nothing, and the caller cannot tell;
  no call panics.\<close>

definition obeys :: "('db \<Rightarrow> db_state) \<Rightarrow> time \<Rightarrow> 'db \<Rightarrow> 'db \<times> (redis_error, 'a) result \<Rightarrow> db_state \<times> 'a option \<Rightarrow> bool" where
  "obeys contents now db out spec \<longleftrightarrow>
     (case snd out of
        Inr b \<Rightarrow> snd spec = Some b \<and> alive now (contents (fst out)) = fst spec
      | Inl (Err _) \<Rightarrow> alive now (contents (fst out)) = fst spec \<or> alive now (contents (fst out)) = alive now (contents db)
      | Inl Panic \<Rightarrow> False)"

locale db_strings =
  fixes conn :: "'db db_connection"
    and contents :: "'db \<Rightarrow> db_state"
    and keep :: time
    and matches :: "string \<Rightarrow> string \<Rightarrow> bool"
  assumes keep_pos: "0 < keep"
    and exists_law: "obeys contents now db (db_exists conn k now db)
      (alive now (contents db), Some (k \<in> dom (alive now (contents db))))"
    and set_law: "obeys contents now db (db_set conn k v now db)
      ((alive now (contents db))(k \<mapsto> (StrV v, now + keep)), Some ())"
    and set_ex_law: "obeys contents now db (db_set_ex conn k v s now db)
      ((alive now (contents db))(k \<mapsto> (StrV v, now + secs s)), Some ())"
    and get_law: "obeys contents now db (db_get conn k now db)
      (alive now (contents db), string_at (alive now (contents db)) k)"
    and del_law: "obeys contents now db (db_del conn k now db) ((alive now (contents db))(k := None), Some ())"
    and pipeline_law: "list_all string_op ops \<Longrightarrow> obeys contents now db (db_atomic_pipeline conn ops now db)
      (fold (spec_op keep now) ops (alive now (contents db)), Some ())"
    and incr_law: "alive now (contents db) k = Some (StrV t, e) \<Longrightarrow> parse_u64 t = Some n \<Longrightarrow>
      uint n + uint d < 2 ^ 64 \<Longrightarrow> obeys contents now db (db_incr conn k d now db)
      ((alive now (contents db))(k \<mapsto> (StrV (u64_to_string (n + d)), e)), Some (n + d))"
    and scan_law: "db_scan_match_all conn p now db = (db', r) \<Longrightarrow>
      alive now (contents db') = alive now (contents db) \<and> r \<noteq> Inl Panic \<and>
      (\<forall>ks. r = Inr ks \<longrightarrow> (\<forall>k \<in> set ks. matches p k) \<and>
         {k \<in> dom (alive now (contents db)). matches p k} \<subseteq> set ks)"

subsection \<open>The in-memory database keeps the contract\<close>

fun abs_value :: "fake_db_value \<Rightarrow> db_value" where
  "abs_value (Str s) = StrV s"
| "abs_value (Bin b) = StrV (from_utf8_lossy b)"
| "abs_value (Hash h) = HashV (map_of h)"
| "abs_value (SetVal xs) = SetV (set xs)"

definition fake_contents :: "fake_store \<Rightarrow> db_state" where
  "fake_contents db k = map_option (\<lambda>e. (abs_value (fe_value e), fe_exp e)) (hm_get (fk_store db) k)"

definition fake_matches :: "(string \<Rightarrow> (string \<Rightarrow> bool) option) \<Rightarrow> string \<Rightarrow> string \<Rightarrow> bool" where
  "fake_matches regex p k \<longleftrightarrow> (case regex (regex_of_glob p) of None \<Rightarrow> False | Some f \<Rightarrow> f k)"

lemma alive_alive: "now \<le> now' \<Longrightarrow> alive now' (alive now m) = alive now' m"
  by (auto simp: alive_def fun_eq_iff split: option.splits)

lemma alive_idem [simp]: "alive now (alive now m) = alive now m"
  by (simp add: alive_alive)

lemma alive_upd [simp]: "alive now (m(k \<mapsto> (v, e))) = (if now \<le> e then (alive now m)(k \<mapsto> (v, e)) else (alive now m)(k := None))"
  by (auto simp: alive_def fun_eq_iff)

lemma alive_remove [simp]: "alive now (m(k := None)) = (alive now m)(k := None)"
  by (auto simp: alive_def fun_eq_iff)

lemma fake_contents_insert [simp]:
  "fake_contents (fk_insert k e db) = (fake_contents db)(k \<mapsto> (abs_value (fe_value e), fe_exp e))"
  by (auto simp: fake_contents_def fun_eq_iff)

lemma fake_contents_remove [simp]: "fake_contents (fk_remove k db) = (fake_contents db)(k := None)"
  by (auto simp: fake_contents_def fun_eq_iff)

lemma fake_exists_spec:
  "fake_exists k now db = (db', r) \<Longrightarrow>
     alive now (fake_contents db') = alive now (fake_contents db) \<and>
     r = Inr (k \<in> dom (alive now (fake_contents db))) \<and>
     (r = Inr True \<longrightarrow> db' = db)"
  by (auto simp: fake_exists_def alive_def fake_contents_def fun_eq_iff split: option.splits if_splits)

lemma secs_nonneg [simp]: "0 \<le> secs s"
  by (simp add: secs_def)

lemma alive_fake: "alive now (fake_contents db) k =
    (case hm_get (fk_store db) k of
       None \<Rightarrow> None
     | Some e \<Rightarrow> if now \<le> fe_exp e then Some (abs_value (fe_value e), fe_exp e) else None)"
  by (auto simp: alive_def fake_contents_def split: option.splits)

lemma fake_read_spec:
  assumes "fake_read k absent read now db = (db', r)"
  shows "alive now (fake_contents db') = alive now (fake_contents db)"
    and "r = (case hm_get (fk_store db) k of
       None \<Rightarrow> absent
     | Some e \<Rightarrow> if now \<le> fe_exp e then read (fe_value e) else absent)"
  using assms by (auto simp: fake_read_def fake_exists_def alive_fake fun_eq_iff split: option.splits if_splits)

lemma fake_get_law: "obeys fake_contents now db (fake_get k now db)
    (alive now (fake_contents db), string_at (alive now (fake_contents db)) k)"
proof -
  obtain db' r where out: "fake_get k now db = (db', r)" by fastforce
  show ?thesis
    using fake_read_spec [OF out [unfolded fake_get_def]] out
    by (auto simp: obeys_def string_at_def alive_fake split: option.splits fake_db_value.splits if_splits)
qed

lemma with_fault_law:
  assumes "f db = (db', Inr a)" "alive now (fake_contents db') = m"
  shows "obeys fake_contents now db (with_fault mode f db) (m, Some a)"
  using assms by (cases mode) (auto simp: obeys_def with_fault_def injected_fault_err_def)

lemma fake_run_op_law:
  assumes "string_op opn"
  obtains db' where "fake_run_op opn now db = (db', Inr ())"
    "alive now (fake_contents db') = spec_op DAY now opn (alive now (fake_contents db))"
    "fk_set_ex_fault db' = fk_set_ex_fault db"
proof (cases opn)
  case (Expire k s)
  obtain db1 r where out: "fake_exists k now db = (db1, r)" by fastforce
  note spec = fake_exists_spec [OF out]
  show ?thesis
  proof (cases "k \<in> dom (alive now (fake_contents db))")
    case True
    with spec have "db1 = db" by simp
    with True spec out Expire that show ?thesis
      by (cases "0 < s") (auto simp: fake_expire_def alive_fake split: option.splits if_splits)
  next
    case False
    with spec out Expire that [of db1] show ?thesis
      by (auto simp: fake_expire_def alive_fake fake_exists_def dom_def split: option.splits if_splits)
  qed
qed (use assms that in \<open>auto simp: fake_del_with_lock_def fake_set_bin_def entry_new_def DAY_def valid_utf8_def\<close>)

lemma fake_run_ops_law:
  "list_all string_op ops \<Longrightarrow> \<exists>db'. fake_run_ops ops now db = (db', Inr ()) \<and>
     alive now (fake_contents db') = fold (spec_op DAY now) ops (alive now (fake_contents db))"
proof (induction ops arbitrary: db)
  case (Cons opn ops)
  then obtain db1 where "fake_run_op opn now db = (db1, Inr ())"
    "alive now (fake_contents db1) = spec_op DAY now opn (alive now (fake_contents db))"
    by (auto elim: fake_run_op_law)
  with Cons.IH [of db1] Cons.prems show ?case by auto
qed simp

lemma fake_scan_law:
  assumes "fake_scan_match_all regex p now db = (db', r)"
  shows "db' = db \<and> r \<noteq> Inl Panic \<and>
    (\<forall>ks. r = Inr ks \<longrightarrow> (\<forall>k \<in> set ks. fake_matches regex p k) \<and>
       {k \<in> dom (alive now (fake_contents db)). fake_matches regex p k} \<subseteq> set ks)"
  using assms
  by (auto simp: fake_scan_match_all_def fake_matches_def alive_fake hm_key_get split: option.splits if_splits)

interpretation fake: db_strings "fake_db regex" fake_contents DAY "fake_matches regex" for regex
proof
  fix now db k v s p db' r and ops :: "db_op list"
  let ?m = "alive now (fake_contents db)"
  show "0 < DAY" by (simp add: DAY_def)
  show "obeys fake_contents now db (db_exists (fake_db regex) k now db) (?m, Some (k \<in> dom ?m))"
    using fake_exists_spec [of k now db]
    by (cases "fake_exists k now db") (auto simp: fake_db_def obeys_def)
  show "obeys fake_contents now db (db_set (fake_db regex) k v now db) (?m(k \<mapsto> (StrV v, now + DAY)), Some ())"
    by (simp add: fake_db_def obeys_def fake_set_def entry_new_def DAY_def)
  show "obeys fake_contents now db (db_set_ex (fake_db regex) k v s now db)
      (?m(k \<mapsto> (StrV v, now + secs s)), Some ())"
    unfolding fake_db_def fake_set_ex_def db_connection.simps
    by (rule with_fault_law [OF refl]) (simp add: entry_new_ex_def)
  show "obeys fake_contents now db (db_get (fake_db regex) k now db) (?m, string_at ?m k)"
    by (simp add: fake_db_def fake_get_law)
  show "obeys fake_contents now db (db_del (fake_db regex) k now db) (?m(k := None), Some ())"
    unfolding fake_db_def fake_del_def db_connection.simps
    by (rule with_fault_law [where db' = "fk_remove k db"]) (simp_all add: fake_del_with_lock_def)
  show "obeys fake_contents now db (db_atomic_pipeline (fake_db regex) ops now db)
      (fold (spec_op DAY now) ops ?m, Some ())" if "list_all string_op ops"
    using fake_run_ops_law [OF that, of now db]
    by (auto simp: fake_db_def obeys_def fake_atomic_pipeline_def injected_fault_err_def)
  show "alive now (fake_contents db') = ?m \<and> r \<noteq> Inl Panic \<and>
      (\<forall>ks. r = Inr ks \<longrightarrow> (\<forall>k \<in> set ks. fake_matches regex p k) \<and>
         {k \<in> dom ?m. fake_matches regex p k} \<subseteq> set ks)"
    if "db_scan_match_all (fake_db regex) p now db = (db', r)"
    using fake_scan_law [of regex p now db db' r] that by (simp add: fake_db_def)
  show "obeys fake_contents now db (db_incr (fake_db regex) k d now db)
      (?m(k \<mapsto> (StrV (u64_to_string (n + d)), e)), Some (n + d))"
    if "?m k = Some (StrV t, e)" "parse_u64 t = Some n" "uint n + uint d < 2 ^ 64" for t e n d
    using that
    by (auto simp: fake_db_def obeys_def fake_incr_def fake_upsert_def alive_fake Let_def
        split: option.splits if_splits fake_db_value.splits)
qed

end
