(* ===== verification/Attributes.thy ===== *)
theory Attributes
  imports Prelude
begin

text \<open>
  \<^verbatim>\<open>libeval/src/attribute.rs\<close>: the attribute keys the visa service knows, the \<^verbatim>\<open>Attribute\<close> struct
  with its builder and its queries, and the comparison of attribute lists by content.
  The lemmas characterise the queries by sets of values, and \<open>attributes_equivalent\<close> by multisets.
\<close>

subsection \<open>Keys and constants\<close>

definition SOURCE_ZPR :: string where "SOURCE_ZPR = ''zpr''"

definition ROLE_NODE :: string where "ROLE_NODE = ''node''"
definition ROLE_ADAPTER :: string where "ROLE_ADAPTER = ''adapter''"

text \<open>Seconds to nanoseconds, the unit of \<^typ>\<open>time\<close>.\<close>

definition from_secs :: "int \<Rightarrow> time" where
  "from_secs s = s * 1000000000"

definition NEVER_EXPIRES :: time where
  "NEVER_EXPIRES = from_secs (60 * 60 * 60 * 24 * 365 * 100)"

definition ZPR_ADDR :: string where "ZPR_ADDR = ''zpr.addr''"
definition CONNECT_VIA :: string where "CONNECT_VIA = ''zpr.connect_via''"
definition SERVICES :: string where "SERVICES = ''zpr.services''"
definition ACTOR_HASH :: string where "ACTOR_HASH = ''zpr.actor_hash''"
definition SESSION :: string where "SESSION = ''zpr.session''"
definition CN :: string where "CN = ''device.zpr.adapter.cn''"
definition DEVICE_AUTHORITY :: string where "DEVICE_AUTHORITY = ''device.zpr.authority''"
definition USER_AUTHORITY :: string where "USER_AUTHORITY = ''user.zpr.authority''"
definition AUTHORITY_METHOD_BOOTSTRAP :: string where
  "AUTHORITY_METHOD_BOOTSTRAP = ''zpr-bootstrap''"
definition CONFIG_ID :: string where "CONFIG_ID = ''zpr.config_id''"
definition DEVICE_ZPR_ADDR :: string where "DEVICE_ZPR_ADDR = ''device.zpr_addr''"
definition AAA_NET_KEY :: string where "AAA_NET_KEY = ''device.zpr.node.aaa_net''"
definition SUBSTRATE_ADDR :: string where "SUBSTRATE_ADDR = ''zpr.substrate_addr''"
definition ROLE :: string where "ROLE = ''zpr.role''"
definition VINST :: string where "VINST = ''zpr.vinst''"
definition LINK_COST :: string where "LINK_COST = ''link.zpr.cost''"
definition A2A_DH_PUBKEY :: string where "A2A_DH_PUBKEY = ''zpr.a2a_dh_pubkey''"

definition POLICY_STAMPED :: "string list" where
  "POLICY_STAMPED = [ROLE, SERVICES, VINST, CONFIG_ID]"

lemmas key_defs = ZPR_ADDR_def CONNECT_VIA_def SERVICES_def ACTOR_HASH_def SESSION_def CN_def
  DEVICE_AUTHORITY_def USER_AUTHORITY_def CONFIG_ID_def DEVICE_ZPR_ADDR_def AAA_NET_KEY_def
  SUBSTRATE_ADDR_def ROLE_def VINST_def LINK_COST_def A2A_DH_PUBKEY_def

subsection \<open>Attributes and their builder\<close>

record attribute =
  at_key :: string
  at_value :: "string list"
  at_expires_at :: time
  at_source :: string

datatype attribute_error = NotSingleValue string

record attribute_builder =
  ab_key :: string
  ab_expires_at :: time
  ab_source :: string

definition attribute_new :: "string \<Rightarrow> string list \<Rightarrow> time \<Rightarrow> string \<Rightarrow> attribute" where
  "attribute_new key values expires_at source =
     \<lparr>at_key = key, at_value = values, at_expires_at = expires_at, at_source = source\<rparr>"

definition builder :: "time \<Rightarrow> string \<Rightarrow> attribute_builder" where
  "builder now key =
     \<lparr>ab_key = key, ab_expires_at = now + NEVER_EXPIRES, ab_source = SOURCE_ZPR\<rparr>"

definition source_builder :: "time \<Rightarrow> string \<Rightarrow> string \<Rightarrow> attribute_builder" where
  "source_builder now source key =
     \<lparr>ab_key = key, ab_expires_at = now + NEVER_EXPIRES, ab_source = source\<rparr>"

definition expires :: "time \<Rightarrow> attribute_builder \<Rightarrow> attribute_builder" where
  "expires t b = b\<lparr>ab_expires_at := t\<rparr>"

definition expires_in :: "time \<Rightarrow> time \<Rightarrow> attribute_builder \<Rightarrow> attribute_builder" where
  "expires_in now d b = b\<lparr>ab_expires_at := now + d\<rparr>"

definition build_values :: "string list \<Rightarrow> attribute_builder \<Rightarrow> attribute" where
  "build_values vs b = attribute_new (ab_key b) vs (ab_expires_at b) (ab_source b)"

definition build_value :: "string \<Rightarrow> attribute_builder \<Rightarrow> attribute" where
  "build_value v b = attribute_new (ab_key b) [v] (ab_expires_at b) (ab_source b)"

subsection \<open>Queries\<close>

definition get_single_value :: "attribute \<Rightarrow> (attribute_error, string) result" where
  "get_single_value a =
     (if length (at_value a) \<noteq> 1 then Inl (Err (NotSingleValue (at_key a)))
      else Inr (at_value a ! 0))"

definition is_single_value :: "attribute \<Rightarrow> string \<Rightarrow> bool" where
  "is_single_value a v \<longleftrightarrow> length (at_value a) = 1 \<and> at_value a ! 0 = v"

definition is_expired :: "time \<Rightarrow> attribute \<Rightarrow> bool" where
  "is_expired now a \<longleftrightarrow> now > at_expires_at a"

definition value_has :: "attribute \<Rightarrow> string \<Rightarrow> bool" where
  "value_has a v \<longleftrightarrow> list_ex (\<lambda>s. s = v) (at_value a)"

fun value_has_all :: "attribute \<Rightarrow> string list \<Rightarrow> bool" where
  "value_has_all a [] = True"
| "value_has_all a (v # vs) = (if \<not> value_has a v then False else value_has_all a vs)"

fun value_has_any :: "attribute \<Rightarrow> string list \<Rightarrow> bool" where
  "value_has_any a [] = False"
| "value_has_any a (v # vs) = (if value_has a v then True else value_has_any a vs)"

text \<open>\<^verbatim>\<open>slice::join\<close> with a separator.\<close>

fun join_with :: "string \<Rightarrow> string list \<Rightarrow> string" where
  "join_with sep [] = []"
| "join_with sep [s] = s"
| "join_with sep (s # t # ts) = s @ sep @ join_with sep (t # ts)"

definition get_value_as_string :: "attribute \<Rightarrow> string" where
  "get_value_as_string a = join_with '', '' (at_value a)"

definition normalize :: "attribute list \<Rightarrow> (string \<times> string list) list" where
  "normalize as = sort (map (\<lambda>a. (at_key a, at_value a)) as)"

definition attributes_equivalent :: "attribute list \<Rightarrow> attribute list \<Rightarrow> bool" where
  "attributes_equivalent a b \<longleftrightarrow> normalize a = normalize b"

subsection \<open>Lemmas\<close>

lemma attribute_new_simps [simp]:
  "at_key (attribute_new k vs e s) = k"
  "at_value (attribute_new k vs e s) = vs"
  "at_expires_at (attribute_new k vs e s) = e"
  "at_source (attribute_new k vs e s) = s"
  by (simp_all add: attribute_new_def)

lemma builder_simps [simp]:
  "ab_key (builder now k) = k"
  "ab_expires_at (builder now k) = now + NEVER_EXPIRES"
  "ab_key (expires t b) = ab_key b"
  "ab_expires_at (expires t b) = t"
  "ab_key (expires_in now d b) = ab_key b"
  "ab_expires_at (expires_in now d b) = now + d"
  by (simp_all add: builder_def expires_def expires_in_def)

lemma build_simps [simp]:
  "at_key (build_values vs b) = ab_key b"
  "at_value (build_values vs b) = vs"
  "at_expires_at (build_values vs b) = ab_expires_at b"
  "at_key (build_value v b) = ab_key b"
  "at_value (build_value v b) = [v]"
  "at_expires_at (build_value v b) = ab_expires_at b"
  by (simp_all add: build_values_def build_value_def)

lemma value_has_iff [attr_simps]: "value_has a v \<longleftrightarrow> v \<in> set (at_value a)"
  by (auto simp: value_has_def list_ex_iff)

lemma value_has_all_iff [attr_simps]: "value_has_all a vs \<longleftrightarrow> set vs \<subseteq> set (at_value a)"
  by (induction vs) (auto simp: attr_simps)

lemma value_has_any_iff [attr_simps]: "value_has_any a vs \<longleftrightarrow> set vs \<inter> set (at_value a) \<noteq> {}"
  by (induction vs) (auto simp: attr_simps)

lemma is_single_value_iff [attr_simps]: "is_single_value a v \<longleftrightarrow> at_value a = [v]"
  by (auto simp: is_single_value_def length_Suc_conv)

lemma get_single_value_Inr_iff: "get_single_value a = Inr v \<longleftrightarrow> at_value a = [v]"
  by (auto simp: get_single_value_def length_Suc_conv)

lemma is_expired_mono: "is_expired now a \<Longrightarrow> now \<le> now' \<Longrightarrow> is_expired now' a"
  by (simp add: is_expired_def)

lemma normalize_eq_iff:
  "normalize a = normalize b \<longleftrightarrow>
     mset (map (\<lambda>x. (at_key x, at_value x)) a) = mset (map (\<lambda>x. (at_key x, at_value x)) b)"
  (is "?l = ?r")
proof
  assume ?l
  then have "mset (normalize a) = mset (normalize b)" by simp
  then show ?r by (simp add: normalize_def)
next
  assume ?r
  then show ?l unfolding normalize_def by (intro properties_for_sort) simp_all
qed

end
