(* ===== verification/Actors.thy ===== *)
theory Actors
  imports Attributes
begin

text \<open>
  \<^verbatim>\<open>libeval/src/actor.rs\<close>: an actor is a set of attributes keyed by name, the names of its identity
  attributes in priority order, and its parsed ZPR address. \<open>actor_wf\<close> is the invariant that every
  operation keeps: keys agree with the entries stored under them, the cached address is the parse
  of the \<open>zpr.addr\<close> attribute, the role attribute is one of the two roles, and every identity key
  names an attribute the actor has.
\<close>

subsection \<open>State\<close>

datatype actor_error = AttributeError string

datatype role = Unknown | Adapter | Node

record actor =
  attrs :: "(string, attribute) hashmap"
  identity_keys :: "string list"
  zpr_addr :: "ip_addr option"

definition actor_new :: actor where
  "actor_new = \<lparr>attrs = [], identity_keys = [], zpr_addr = None\<rparr>"

text \<open>What \<^verbatim>\<open>impl Hash for Actor\<close> feeds the hasher, in this order.\<close>

definition actor_hash_input :: "actor \<Rightarrow> attribute list \<times> string list \<times> ip_addr option" where
  "actor_hash_input a = (sort_key at_key (hm_values (attrs a)), identity_keys a, zpr_addr a)"

subsection \<open>Queries\<close>

definition attrs_iter :: "actor \<Rightarrow> attribute list" where
  "attrs_iter a = hm_values (attrs a)"

definition get_attribute :: "actor \<Rightarrow> string \<Rightarrow> attribute option" where
  "get_attribute a k = hm_get (attrs a) k"

definition single :: "actor \<Rightarrow> string \<Rightarrow> string option" where
  "single a k = (case hm_get (attrs a) k of None \<Rightarrow> None | Some at \<Rightarrow> first (at_value at))"

definition has_attribute_named :: "actor \<Rightarrow> string \<Rightarrow> bool" where
  "has_attribute_named a k \<longleftrightarrow> hm_get (attrs a) k \<noteq> None"

definition has_attribute_value :: "actor \<Rightarrow> string \<Rightarrow> string \<Rightarrow> bool" where
  "has_attribute_value a k v \<longleftrightarrow>
     (case hm_get (attrs a) k of None \<Rightarrow> False | Some at \<Rightarrow> is_single_value at v)"

definition has_attribute_values :: "actor \<Rightarrow> string \<Rightarrow> string list \<Rightarrow> bool" where
  "has_attribute_values a k vs \<longleftrightarrow>
     (case hm_get (attrs a) k of None \<Rightarrow> False | Some at \<Rightarrow> value_has_all at vs)"

definition has_any_attribute_values :: "actor \<Rightarrow> string \<Rightarrow> string list \<Rightarrow> bool" where
  "has_any_attribute_values a k vs \<longleftrightarrow>
     (case hm_get (attrs a) k of None \<Rightarrow> False | Some at \<Rightarrow> value_has_any at vs)"

definition provides :: "actor \<Rightarrow> string \<Rightarrow> bool" where
  "provides a service_id \<longleftrightarrow>
     (case hm_get (attrs a) SERVICES of None \<Rightarrow> False | Some at \<Rightarrow> value_has at service_id)"

definition services_iter :: "actor \<Rightarrow> string list" where
  "services_iter a =
     (case hm_get (attrs a) SERVICES of None \<Rightarrow> [] | Some at \<Rightarrow> at_value at)"

definition is_provider :: "actor \<Rightarrow> bool" where
  "is_provider a \<longleftrightarrow> (case single a SERVICES of None \<Rightarrow> False | Some s \<Rightarrow> s \<noteq> [])"

definition is_node :: "actor \<Rightarrow> bool" where
  "is_node a \<longleftrightarrow> single a ROLE = Some ROLE_NODE"

definition get_role :: "actor \<Rightarrow> role" where
  "get_role a =
     (case single a ROLE of
        Some r \<Rightarrow> if r = ROLE_NODE then Node else if r = ROLE_ADAPTER then Adapter else Unknown
      | None \<Rightarrow> Unknown)"

definition get_cn :: "actor \<Rightarrow> string option" where
  "get_cn a = single a CN"

definition identity_value :: "actor \<Rightarrow> string \<Rightarrow> string option" where
  "identity_value a k =
     (case get_attribute a k of None \<Rightarrow> None | Some at \<Rightarrow> first (at_value at))"

definition get_identity :: "actor \<Rightarrow> string list option" where
  "get_identity a =
     (if identity_keys a = [] then None
      else Some (List.map_filter (identity_value a) (identity_keys a)))"

definition expiration_candidates :: "actor \<Rightarrow> (time \<times> string) list" where
  "expiration_candidates a =
     List.map_filter (\<lambda>k. map_option (\<lambda>at. (at_expires_at at, k)) (get_attribute a k))
       ([DEVICE_AUTHORITY, USER_AUTHORITY] @ identity_keys a)"

definition get_authentication_expiration_with_gate :: "actor \<Rightarrow> (time \<times> string) option" where
  "get_authentication_expiration_with_gate a = min_by_key fst (expiration_candidates a)"

definition get_authentication_expiration :: "actor \<Rightarrow> time option" where
  "get_authentication_expiration a = map_option fst (get_authentication_expiration_with_gate a)"

subsection \<open>Updates\<close>

definition add_identity_key :: "int \<Rightarrow> string \<Rightarrow> actor \<Rightarrow> (actor_error, actor) result" where
  "add_identity_key order k a =
     (if \<not> has_attribute_named a k
      then Inl (Err (AttributeError (''cannot add identity key '' @ k)))
      else if order \<ge> int (length (identity_keys a))
      then Inr (a\<lparr>identity_keys := identity_keys a @ [k]\<rparr>)
      else Inr (a\<lparr>identity_keys :=
             take (nat order) (identity_keys a) @ [k] @ drop (nat order) (identity_keys a)\<rparr>))"

definition first_value :: "attribute \<Rightarrow> string" where
  "first_value at = (case first (at_value at) of None \<Rightarrow> [] | Some s \<Rightarrow> s)"

definition add_attribute :: "attribute \<Rightarrow> actor \<Rightarrow> (actor_error, actor) result" where
  "add_attribute at a =
     (if at_key at = ZPR_ADDR then
        (case parse_ip (first_value at) of
           Some ip \<Rightarrow> Inr (a\<lparr>attrs := hm_insert (at_key at) at (attrs a), zpr_addr := Some ip\<rparr>)
         | None \<Rightarrow> Inl (Err (AttributeError (''Invalid IP address in zpr.addr attribute: '' @ first_value at))))
      else if at_key at = ROLE \<and> first_value at \<noteq> ROLE_ADAPTER \<and> first_value at \<noteq> ROLE_NODE then
        Inl (Err (AttributeError (''role must be node or adapter, not: '' @ first_value at)))
      else Inr (a\<lparr>attrs := hm_insert (at_key at) at (attrs a)\<rparr>))"

definition remove_attribute :: "string \<Rightarrow> actor \<Rightarrow> attribute option \<times> actor" where
  "remove_attribute k a =
     (case hm_get (attrs a) k of
        None \<Rightarrow> (None, a)
      | Some at \<Rightarrow>
          (Some at,
           a\<lparr>attrs := hm_remove k (attrs a),
             zpr_addr := (if k = ZPR_ADDR then None else zpr_addr a),
             identity_keys := filter (\<lambda>x. x \<noteq> k) (identity_keys a)\<rparr>))"

definition set_services :: "time \<Rightarrow> string set \<Rightarrow> actor \<Rightarrow> actor" where
  "set_services now services a =
     (let a' = a\<lparr>attrs := hm_remove SERVICES (attrs a)\<rparr>
      in if services = {} then a'
         else a'\<lparr>attrs := hm_insert SERVICES
                   (build_values (sorted_list_of_set services)
                      (expires_in now NEVER_EXPIRES (builder now SERVICES))) (attrs a')\<rparr>)"

subsection \<open>The invariant\<close>

definition role_ok :: "attribute \<Rightarrow> bool" where
  "role_ok at \<longleftrightarrow> first_value at = ROLE_ADAPTER \<or> first_value at = ROLE_NODE"

definition actor_wf :: "actor \<Rightarrow> bool" where
  "actor_wf a \<longleftrightarrow>
     hm_wf (attrs a)
     \<and> (\<forall>k at. hm_get (attrs a) k = Some at \<longrightarrow> at_key at = k)
     \<and> zpr_addr a = (case hm_get (attrs a) ZPR_ADDR of None \<Rightarrow> None | Some at \<Rightarrow> parse_ip (first_value at))
     \<and> (\<forall>at. hm_get (attrs a) ZPR_ADDR = Some at \<longrightarrow> parse_ip (first_value at) \<noteq> None)
     \<and> (\<forall>at. hm_get (attrs a) ROLE = Some at \<longrightarrow> role_ok at)
     \<and> (\<forall>k \<in> set (identity_keys a). hm_get (attrs a) k \<noteq> None)"

subsection \<open>Lemmas\<close>

lemma key_neqs [simp]:
  "ROLE \<noteq> ZPR_ADDR" "ZPR_ADDR \<noteq> ROLE" "SERVICES \<noteq> ZPR_ADDR" "ZPR_ADDR \<noteq> SERVICES"
  "SERVICES \<noteq> ROLE" "ROLE \<noteq> SERVICES" "VINST \<noteq> ZPR_ADDR" "ZPR_ADDR \<noteq> VINST" "VINST \<noteq> ROLE"
  "ROLE \<noteq> VINST" "VINST \<noteq> SERVICES" "SERVICES \<noteq> VINST" "ACTOR_HASH \<noteq> ZPR_ADDR" "ZPR_ADDR \<noteq> ACTOR_HASH"
  "ACTOR_HASH \<noteq> ROLE" "ROLE \<noteq> ACTOR_HASH" "ACTOR_HASH \<noteq> SERVICES" "SERVICES \<noteq> ACTOR_HASH"
  "ACTOR_HASH \<noteq> VINST" "VINST \<noteq> ACTOR_HASH" "CN \<noteq> ZPR_ADDR" "CN \<noteq> ROLE" "CN \<noteq> SERVICES" "CN \<noteq> VINST"
  "CN \<noteq> ACTOR_HASH" "ROLE_NODE \<noteq> ROLE_ADAPTER" "ROLE_ADAPTER \<noteq> ROLE_NODE"
  by (simp_all add: key_defs ROLE_NODE_def ROLE_ADAPTER_def)

lemma actor_wf_new [wf_intros]: "actor_wf actor_new"
  by (simp add: actor_wf_def actor_new_def)

lemma add_attribute_cases:
  assumes "add_attribute at a = Inr a'"
  obtains (addr) ip where "at_key at = ZPR_ADDR" "parse_ip (first_value at) = Some ip"
      "a' = a\<lparr>attrs := hm_insert ZPR_ADDR at (attrs a), zpr_addr := Some ip\<rparr>"
  | (other) "at_key at \<noteq> ZPR_ADDR" "at_key at = ROLE \<Longrightarrow> role_ok at"
      "a' = a\<lparr>attrs := hm_insert (at_key at) at (attrs a)\<rparr>"
  using assms by (auto simp: add_attribute_def role_ok_def split: if_splits option.splits)

lemma add_attribute_attrs:
  "add_attribute at a = Inr a' \<Longrightarrow> attrs a' = hm_insert (at_key at) at (attrs a)"
  by (erule add_attribute_cases) simp_all

lemma add_attribute_identity:
  "add_attribute at a = Inr a' \<Longrightarrow> identity_keys a' = identity_keys a"
  by (erule add_attribute_cases) simp_all

lemma actor_wf_add_attribute [wf_intros]:
  assumes wf: "actor_wf a" and add: "add_attribute at a = Inr a'"
  shows "actor_wf a'"
  using add
proof (cases rule: add_attribute_cases)
  case (addr ip)
  with wf show ?thesis by (simp add: actor_wf_def hm_wf_insert)
next
  case other
  with wf show ?thesis by (simp add: actor_wf_def hm_wf_insert)
qed

lemma actor_wf_remove_attribute [wf_intros]:
  "actor_wf a \<Longrightarrow> actor_wf (snd (remove_attribute k a))"
  by (auto simp: actor_wf_def remove_attribute_def hm_wf_remove split: option.splits)

lemma actor_wf_add_identity_key [wf_intros]:
  assumes "actor_wf a" "add_identity_key n k a = Inr a'"
  shows "actor_wf a'"
  using assms
  by (fastforce simp: actor_wf_def add_identity_key_def has_attribute_named_def split: if_splits
      dest: in_set_takeD in_set_dropD)

lemma set_take_drop: "set (take n xs) \<union> set (drop n xs) = set xs"
  by (simp flip: set_append)

lemma add_identity_key_result:
  assumes "has_attribute_named a k"
  shows "\<exists>l. add_identity_key n k a = Inr (a\<lparr>identity_keys := l\<rparr>) \<and> set l = insert k (set (identity_keys a))"
proof (cases "n \<ge> int (length (identity_keys a))")
  case True
  with assms show ?thesis
    by (intro exI [of _ "identity_keys a @ [k]"]) (simp add: add_identity_key_def)
next
  case False
  have "set (take (nat n) (identity_keys a) @ [k] @ drop (nat n) (identity_keys a)) =
      insert k (set (identity_keys a))"
    using set_take_drop [of "nat n" "identity_keys a"] by auto
  with False assms show ?thesis
    by (intro exI [of _ "take (nat n) (identity_keys a) @ [k] @ drop (nat n) (identity_keys a)"])
      (simp add: add_identity_key_def)
qed

lemma set_services_get [attr_simps]:
  "hm_get (attrs (set_services now ss a)) k =
     (if k = SERVICES
      then (if ss = {} then None
            else Some (build_values (sorted_list_of_set ss)
                   (expires_in now NEVER_EXPIRES (builder now SERVICES))))
      else hm_get (attrs a) k)"
  by (auto simp: set_services_def Let_def)

lemma set_services_other [simp]:
  "identity_keys (set_services now ss a) = identity_keys a"
  "zpr_addr (set_services now ss a) = zpr_addr a"
  by (auto simp: set_services_def Let_def)

lemma actor_wf_set_services [wf_intros]:
  assumes "actor_wf a" "ss \<noteq> {} \<or> SERVICES \<notin> set (identity_keys a)"
  shows "actor_wf (set_services now ss a)"
proof -
  have "hm_wf (attrs (set_services now ss a))"
    using assms(1) by (auto simp: actor_wf_def set_services_def Let_def hm_wf_insert hm_wf_remove)
  with assms show ?thesis
    by (auto simp: actor_wf_def set_services_get)
qed

lemma provides_iff: "provides a s \<longleftrightarrow> s \<in> set (services_iter a)"
  by (simp add: provides_def services_iter_def attr_simps split: option.splits)

lemma set_services_services [simp]:
  "finite ss \<Longrightarrow> set (services_iter (set_services now ss a)) = ss"
  by (auto simp: services_iter_def attr_simps)

lemma expiration_candidates_set:
  "set (expiration_candidates a) =
     {(at_expires_at at, k) | k at.
        k \<in> {DEVICE_AUTHORITY, USER_AUTHORITY} \<union> set (identity_keys a) \<and> get_attribute a k = Some at}"
  unfolding expiration_candidates_def set_map_filter by auto

lemma get_identity_present:
  assumes "actor_wf a" "identity_keys a \<noteq> []"
  shows "\<exists>t. get_authentication_expiration a = Some t"
proof -
  obtain k where k: "k \<in> set (identity_keys a)" using assms(2) by (cases "identity_keys a") auto
  with assms(1) obtain at where "hm_get (attrs a) k = Some at" by (auto simp: actor_wf_def)
  with k have "(at_expires_at at, k) \<in> set (expiration_candidates a)"
    by (auto simp: expiration_candidates_set get_attribute_def)
  then have "expiration_candidates a \<noteq> []" by (cases "expiration_candidates a") auto
  then obtain e where "min_by_key fst (expiration_candidates a) = Some e"
    using min_by_key_None_iff by blast
  then show ?thesis
    by (simp add: get_authentication_expiration_def get_authentication_expiration_with_gate_def)
qed

lemma attrs_values_inj:
  assumes "actor_wf a"
  shows "inj_on at_key (set (hm_values (attrs a)))" and "distinct (hm_values (attrs a))"
proof -
  have key: "at_key at = k" if "(k, at) \<in> set (attrs a)" for k at
    using assms that by (auto simp: actor_wf_def map_of_eq_Some_iff)
  then have keys: "map at_key (hm_values (attrs a)) = hm_keys (attrs a)" by auto
  have "hm_wf (attrs a)" using assms by (simp add: actor_wf_def)
  then have "distinct (map at_key (hm_values (attrs a)))" unfolding keys .
  then show "inj_on at_key (set (hm_values (attrs a)))" "distinct (hm_values (attrs a))"
    unfolding distinct_map by simp_all
qed

subsection \<open>Properties\<close>

text \<open>C19. The operations that change an actor keep the actor invariant, with one exception: adding or replacing an
  attribute, removing one and adding an identity key always do; replacing the set of services does so exactly
  where the new set is not empty or the services attribute is not an identity key. In the remaining case the identity key
  stays without its attribute.\<close>

theorem actor_operations_keep_invariant:
  assumes "actor_wf a"
  shows "(\<forall>at a'. add_attribute at a = Inr a' \<longrightarrow> actor_wf a')
    \<and> actor_wf (snd (remove_attribute k a))
    \<and> (\<forall>n i a'. add_identity_key n i a = Inr a' \<longrightarrow> actor_wf a')
    \<and> (actor_wf (set_services now ss a) \<longleftrightarrow> ss \<noteq> {} \<or> SERVICES \<notin> set (identity_keys a))"
proof -
  have "\<not> actor_wf (set_services now ss a)" if "ss = {}" "SERVICES \<in> set (identity_keys a)"
    using that by (auto simp: actor_wf_def set_services_get)
  then show ?thesis
    using assms actor_wf_add_attribute actor_wf_remove_attribute actor_wf_add_identity_key actor_wf_set_services by blast
qed

theorem actor_operations_keep_invariant_witness:
  "\<exists>a1 a2. add_attribute (attribute_new CN [''alice''] 100 ''rsa'') actor_new = Inr a1 \<and> actor_wf a1
     \<and> add_identity_key 0 CN a1 = Inr a2 \<and> actor_wf a2
     \<and> actor_wf (snd (remove_attribute CN a2)) \<and> actor_wf (set_services 0 {''web''} a2)"
proof -
  let ?at = "attribute_new CN [''alice''] 100 ''rsa''"
  let ?a1 = "actor_new\<lparr>attrs := hm_insert CN ?at (attrs actor_new)\<rparr>"
  have a1: "add_attribute ?at actor_new = Inr ?a1"
    by (simp add: add_attribute_def attribute_new_def CN_def ZPR_ADDR_def ROLE_def)
  then have wf1: "actor_wf ?a1"
    using actor_operations_keep_invariant [OF actor_wf_new, of ROLE 0 "{}"] by blast
  have a2: "add_identity_key 0 CN ?a1 = Inr (?a1\<lparr>identity_keys := [CN]\<rparr>)"
    by (simp add: add_identity_key_def has_attribute_named_def actor_new_def)
  then have wf2: "actor_wf (?a1\<lparr>identity_keys := [CN]\<rparr>)"
    using actor_operations_keep_invariant [OF wf1, of ROLE 0 "{}"] by blast
  show ?thesis
    using a1 wf1 a2 wf2 actor_operations_keep_invariant [OF wf2, of CN 0 "{''web''}"] by blast
qed


definition bootstrap_actor :: actor where
  "bootstrap_actor = \<lparr>attrs = [(DEVICE_AUTHORITY, attribute_new DEVICE_AUTHORITY [AUTHORITY_METHOD_BOOTSTRAP] 5 SOURCE_ZPR),
     (CN, attribute_new CN [''node1''] 9 SOURCE_ZPR)], identity_keys = [], zpr_addr = None\<rparr>"

lemma bootstrap_actor_gate:
  "get_authentication_expiration_with_gate bootstrap_actor = Some (5, DEVICE_AUTHORITY)"
  by (simp add: get_authentication_expiration_with_gate_def expiration_candidates_def map_filter_def
      bootstrap_actor_def get_attribute_def key_defs)


text \<open>An actor without identity keys still has an authentication expiration when it carries an
  authority attribute.\<close>

lemma expiration_without_identity_keys:
  "identity_keys bootstrap_actor = [] \<and> get_authentication_expiration bootstrap_actor = Some 5"
  by (simp add: get_authentication_expiration_def bootstrap_actor_gate) (simp add: bootstrap_actor_def)

text \<open>What an actor feeds the hasher depends on its attributes and not on the order in which its
  attribute map yields them.\<close>

theorem actor_hash_ignores_map_order:
  assumes "actor_wf a" "mset (attrs a) = mset (attrs b)"
    and "identity_keys a = identity_keys b" "zpr_addr a = zpr_addr b"
  shows "actor_hash_input a = actor_hash_input b"
proof -
  have "mset (hm_values (attrs a)) = mset (hm_values (attrs b))"
    using assms(2) by (metis mset_map)
  then have "sort_key at_key (hm_values (attrs a)) = sort_key at_key (hm_values (attrs b))"
    using attrs_values_inj [OF assms(1)] by (intro sort_key_unique)
  with assms(3,4) show ?thesis by (simp add: actor_hash_input_def)
qed

theorem actor_hash_ignores_map_order_witness:
  "actor_hash_input bootstrap_actor = actor_hash_input (bootstrap_actor\<lparr>attrs := rev (attrs bootstrap_actor)\<rparr>)"
proof -
  have "actor_wf bootstrap_actor"
    by (simp add: actor_wf_def bootstrap_actor_def key_defs)
  then show ?thesis by (rule actor_hash_ignores_map_order) simp_all
qed

end
