(* ===== verification/Join_Policy.thy ===== *)
theory Join_Policy
  imports Actors
begin

text \<open>
  \<^verbatim>\<open>libeval/src/joinpolicy.rs\<close>: join policies and how a list of attributes matches one. The attribute
  expression types \<^verbatim>\<open>AttrExp\<close> and \<^verbatim>\<open>AttrOp\<close> are plain data of the policy format; the records below have
  the fields the code reads. \<open>jp_matches\<close> is the nested loop of \<^verbatim>\<open>JPolicy::matches\<close> with its early
  returns; \<open>exp_satisfied\<close> is the declarative reading its documentation gives, and the two agree.
\<close>

subsection \<open>Data\<close>

datatype attr_op = Eq | Ne | Has | Excludes

record attr_exp =
  ax_key :: string
  ax_op :: attr_op
  ax_value :: "string list"

datatype jflag = IsNode | IsVs | IsVsDock

record jpolicy =
  jp_exps :: "attr_exp list"
  jp_flags :: "jflag set"
  jp_services :: "string list option"

subsection \<open>Matching\<close>

text \<open>The two hash maps of \<^verbatim>\<open>contains_exactly\<close>: how often each string occurs.\<close>

fun count_values :: "string list \<Rightarrow> (string \<rightharpoonup> nat) \<Rightarrow> (string \<rightharpoonup> nat)" where
  "count_values [] m = m"
| "count_values (s # ss) m =
     count_values ss (m(s \<mapsto> (case m s of None \<Rightarrow> 0 | Some n \<Rightarrow> n) + 1))"

definition count_tables_equal :: "string list \<Rightarrow> (string \<rightharpoonup> nat) \<Rightarrow> (string \<rightharpoonup> nat) \<Rightarrow> bool" where
  "count_tables_equal keys m n \<longleftrightarrow> list_all (\<lambda>k. m k = n k) keys"

definition contains_exactly :: "attr_exp \<Rightarrow> string list \<Rightarrow> bool" where
  "contains_exactly e vals =
     (if length vals \<noteq> length (ax_value e) then False
      else count_tables_equal (vals @ ax_value e)
             (count_values vals Map.empty) (count_values (ax_value e) Map.empty))"

definition is_empty_value :: "attr_exp \<Rightarrow> bool" where
  "is_empty_value e \<longleftrightarrow> ax_value e = [] \<or> ax_value e ! 0 = []"

text \<open>The \<^verbatim>\<open>match jp_exp.op\<close> of the inner loop: False where the code returns false.\<close>

definition op_holds :: "attr_exp \<Rightarrow> attribute \<Rightarrow> bool" where
  "op_holds e at =
     (case ax_op e of
        Eq \<Rightarrow> contains_exactly e (at_value at)
      | Ne \<Rightarrow> \<not> contains_exactly e (at_value at)
      | Has \<Rightarrow> is_empty_value e \<or> value_has_all at (ax_value e)
      | Excludes \<Rightarrow> \<not> is_empty_value e \<and> \<not> value_has_any at (ax_value e))"

text \<open>The inner loop over the attributes: None for the early return false, otherwise the final
  value of \<open>found\<close>.\<close>

fun scan_attrs :: "time \<Rightarrow> attr_exp \<Rightarrow> attribute list \<Rightarrow> bool \<Rightarrow> bool option" where
  "scan_attrs now e [] found = Some found"
| "scan_attrs now e (at # ats) found =
     (if at_key at = ax_key e then
        if is_expired now at then None
        else if op_holds e at then scan_attrs now e ats True
        else None
      else scan_attrs now e ats found)"

text \<open>The outer loop over the expressions of the policy.\<close>

fun exps_match :: "time \<Rightarrow> attr_exp list \<Rightarrow> attribute list \<Rightarrow> bool" where
  "exps_match now [] ats = True"
| "exps_match now (e # es) ats =
     (case scan_attrs now e ats False of
        None \<Rightarrow> False
      | Some True \<Rightarrow> exps_match now es ats
      | Some False \<Rightarrow>
          if ax_op e = Excludes \<and> is_empty_value e then exps_match now es ats else False)"

definition jp_matches :: "time \<Rightarrow> jpolicy \<Rightarrow> attribute list \<Rightarrow> bool" where
  "jp_matches now jp ats = exps_match now (jp_exps jp) ats"

text \<open>The declarative reading: every attribute under the key is unexpired and satisfies the
  operator, and the key is present unless the expression asks for its absence.\<close>

definition exp_satisfied :: "time \<Rightarrow> attr_exp \<Rightarrow> attribute set \<Rightarrow> bool" where
  "exp_satisfied now e ats \<longleftrightarrow>
     (\<forall>at \<in> ats. at_key at = ax_key e \<longrightarrow> \<not> is_expired now at \<and> op_holds e at)
     \<and> ((\<exists>at \<in> ats. at_key at = ax_key e) \<or> (ax_op e = Excludes \<and> is_empty_value e))"

subsection \<open>Lemmas\<close>

lemma count_values_eq:
  "(case count_values ss m k of None \<Rightarrow> 0 | Some n \<Rightarrow> n) =
     (case m k of None \<Rightarrow> 0 | Some n \<Rightarrow> n) + count_list ss k"
  by (induction ss arbitrary: m) auto

lemma count_values_dom: "dom (count_values ss m) = dom m \<union> set ss"
  by (induction ss arbitrary: m) auto

lemma count_values_empty:
  "count_values ss Map.empty k = (if k \<in> set ss then Some (count_list ss k) else None)"
  using count_values_eq [of ss Map.empty k] count_values_dom [of ss Map.empty]
  by (auto split: option.splits)

lemma contains_exactly_iff [eval_simps]:
  "contains_exactly e vals \<longleftrightarrow> mset vals = mset (ax_value e)"
proof
  assume "contains_exactly e vals"
  then have "\<forall>k \<in> set vals \<union> set (ax_value e).
      (if k \<in> set vals then Some (count_list vals k) else None) =
      (if k \<in> set (ax_value e) then Some (count_list (ax_value e) k) else None)"
    by (auto simp: contains_exactly_def count_tables_equal_def count_values_empty list_all_iff
        split: if_splits)
  then have "count_list vals k = count_list (ax_value e) k" for k
    by (cases "k \<in> set vals \<union> set (ax_value e)") (auto simp: count_notin split: if_splits)
  then show "mset vals = mset (ax_value e)"
    by (intro multiset_eqI) (simp add: count_mset)
next
  assume eq: "mset vals = mset (ax_value e)"
  then have "count_list vals k = count_list (ax_value e) k" for k
    by (metis count_mset)
  moreover have "length vals = length (ax_value e)" "set vals = set (ax_value e)"
    using eq by (auto dest: mset_eq_length mset_eq_setD)
  ultimately show "contains_exactly e vals"
    by (auto simp: contains_exactly_def count_tables_equal_def count_values_empty list_all_iff)
qed

lemma scan_attrs_eq:
  "scan_attrs now e ats found =
     (if \<forall>at \<in> set ats. at_key at = ax_key e \<longrightarrow> \<not> is_expired now at \<and> op_holds e at
      then Some (found \<or> (\<exists>at \<in> set ats. at_key at = ax_key e)) else None)"
  by (induction ats arbitrary: found) auto

lemma exps_match_iff:
  "exps_match now es ats \<longleftrightarrow> (\<forall>e \<in> set es. exp_satisfied now e (set ats))"
  by (induction es) (auto simp: scan_attrs_eq exp_satisfied_def split: option.splits bool.splits)

lemma jp_matches_spec [eval_simps]:
  "jp_matches now jp ats \<longleftrightarrow> (\<forall>e \<in> set (jp_exps jp). exp_satisfied now e (set ats))"
  by (simp add: jp_matches_def exps_match_iff)

lemma exp_satisfied_antimono:
  "exp_satisfied now' e ats \<Longrightarrow> now \<le> now' \<Longrightarrow> exp_satisfied now e ats"
  by (auto simp: exp_satisfied_def dest: is_expired_mono)

lemma jp_matches_antimono: "jp_matches now' jp ats \<Longrightarrow> now \<le> now' \<Longrightarrow> jp_matches now jp ats"
  by (auto simp: jp_matches_spec intro: exp_satisfied_antimono)

lemma jp_matches_cong: "set ats = set ats' \<Longrightarrow> jp_matches now jp ats = jp_matches now jp ats'"
  by (simp add: jp_matches_spec)

subsection \<open>Properties\<close>

text \<open>C14. A join policy matches a list of attributes exactly when each of its expressions is satisfied:
  every attribute under the expression's key is unexpired and meets the operator, and there is one
  unless the expression is an \<open>Excludes\<close> with an empty value. The order of the attributes is immaterial.\<close>

theorem join_policy_matches_declaratively:
  "jp_matches now jp ats \<longleftrightarrow>
     (\<forall>e \<in> set (jp_exps jp).
        (\<forall>at \<in> set ats. at_key at = ax_key e \<longrightarrow> \<not> is_expired now at \<and>
           (case ax_op e of
              Eq \<Rightarrow> mset (at_value at) = mset (ax_value e)
            | Ne \<Rightarrow> mset (at_value at) \<noteq> mset (ax_value e)
            | Has \<Rightarrow> is_empty_value e \<or> set (ax_value e) \<subseteq> set (at_value at)
            | Excludes \<Rightarrow> \<not> is_empty_value e \<and> set (ax_value e) \<inter> set (at_value at) = {}))
        \<and> ((\<exists>at \<in> set ats. at_key at = ax_key e) \<or> (ax_op e = Excludes \<and> is_empty_value e)))"
  unfolding jp_matches_spec exp_satisfied_def op_holds_def contains_exactly_iff value_has_all_iff value_has_any_iff
  by (simp split: attr_op.splits)

definition cn_policy :: jpolicy where
  "cn_policy = \<lparr>jp_exps = [\<lparr>ax_key = CN, ax_op = Eq, ax_value = [''db1'']\<rparr>], jp_flags = {},
     jp_services = Some [''database'']\<rparr>"

definition cn_claim :: attribute where
  "cn_claim = attribute_new CN [''db1''] 100 SOURCE_ZPR"

theorem join_policy_matches_declaratively_witness: "jp_matches 50 cn_policy [cn_claim]"
  unfolding join_policy_matches_declaratively
  by (simp add: cn_policy_def cn_claim_def is_expired_def)

text \<open>C15. Time only takes matches away: a join policy that matches a list of attributes at some time
  matched it at every earlier time. An expired attribute never grants a join.\<close>

theorem expiry_never_grants_a_join:
  assumes "jp_matches now' jp ats" "now \<le> now'"
  shows "jp_matches now jp ats
    \<and> (\<forall>e \<in> set (jp_exps jp). \<forall>at \<in> set ats. at_key at = ax_key e \<longrightarrow> \<not> is_expired now' at)"
  using assms jp_matches_antimono by (auto simp: jp_matches_spec exp_satisfied_def)

theorem expiry_never_grants_a_join_witness:
  "jp_matches 50 cn_policy [cn_claim] \<and> jp_matches 20 cn_policy [cn_claim]"
proof -
  have m: "jp_matches 50 cn_policy [cn_claim]" by code_simp
  show ?thesis using m expiry_never_grants_a_join [OF m, of 20] by simp
qed

end
