(* ===== verification/Policies.thy ===== *)
theory Policies
  imports Join_Policy
begin

text \<open>
  \<^verbatim>\<open>libeval/src/policy.rs\<close> and the loading half of \<^verbatim>\<open>joinpolicy.rs\<close>: building a \<^verbatim>\<open>Policy\<close> from a decoded
  policy message, and the questions the rest of the system asks it.

  The message types (\<^verbatim>\<open>policy_capnp\<close>) come from the policy format: the records below hold the fields
  the code reads. An optional field is what the \<^verbatim>\<open>has_..\<close> accessor of that field tests. Text is valid
  UTF-8 and pointers are valid; an enumeration value outside the schema is None where the code reads it
  with \<open>?\<close>. The conversions of service records, which the policy-types crate does, are arguments of the
  loaders that call them.
\<close>

subsection \<open>Messages\<close>

record attr_expr_msg =
  am_key :: string
  am_op :: "attr_op option"
  am_value :: "string list option"

datatype join_flag_msg = JfNode | JfVs | JfVsdock

record service =
  svc_id :: string
  svc_kind :: string

record jpolicy_msg =
  jm_match :: "attr_expr_msg list option"
  jm_provides :: "service list option"
  jm_flags :: "join_flag_msg option list option"

datatype scope_port = Port u16 | PortRange u16 u16 | PortNotInSchema u16

datatype scope_flag = UdpOneWay | OtherFlag

record scope =
  sc_protocol :: u8
  sc_port :: scope_port
  sc_flag :: "scope_flag option"

record attr_expr =
  ae_key :: string
  ae_op :: "attr_op option"
  ae_value :: "string list option"

record signal =
  sig_message :: string
  sig_service :: string

record com_policy =
  cp_allow :: bool
  cp_service_id :: string
  cp_scope :: "scope list"
  cp_client_conds :: "attr_expr list option"
  cp_service_conds :: "attr_expr list option"
  cp_signal :: "signal option"
  cp_zpl :: string

datatype key_allowance = Bootstrap | OtherAllowance
datatype key_material = RsaPub | OtherKeyMaterial

record key_msg =
  km_id :: string
  km_type :: key_material
  km_data :: string
  km_allows :: "key_allowance option list"

record attr_mapping =
  map_service_attr_key :: string
  map_is_tag :: bool
  map_is_multi_valued :: bool
  map_zpl_key :: string

record trusted_service =
  ts_service_id :: string
  ts_identity_attrs :: "string list"
  ts_returns_attrs :: "attr_mapping list"

text \<open>A substrate address (\<^verbatim>\<open>NetAddr\<close>) is host text and a port.\<close>

type_synonym net_addr = "string \<times> u16"

record peering =
  pr_link_id :: string
  pr_node_a :: ip_addr
  pr_node_b :: ip_addr
  pr_substrate_a :: net_addr
  pr_substrate_b :: net_addr
  pr_attributes :: "attr_exp list"

record policy_msg =
  pm_com_policies :: "com_policy list option"
  pm_join_policies :: "jpolicy_msg list option"
  pm_keys :: "key_msg list option"
  pm_trusted_services :: "trusted_service list option"
  pm_topology :: "peering list option"

subsection \<open>The policy\<close>

datatype policy_error =
    Capnp
  | CapnpNotInSchema
  | InvalidFormat string
  | OpenSsl
  | LinkNotFound ip_addr ip_addr

record peer =
  link_id :: string
  remote_zpr_addr :: ip_addr
  remote_substrate :: net_addr
  local_substrate :: net_addr

record policy =
  policy_rdr :: "policy_msg option"
  vinst :: u64
  bootstrap_keys :: "(string, string) hashmap"
  join_policies :: "jpolicy list"
  services :: "(string, service) hashmap"
  trusted_services :: "(string, trusted_service) hashmap"
  identity_attr_keys :: "string list"
  cpol_sources :: "string list"
  serialized :: string
  peer_table :: "(ip_addr, peer list) hashmap option"
  link_attrs :: "(string, attr_exp list) hashmap option"

record link_description =
  ld_link_id :: string
  ld_attrs :: "attribute list"
  ld_cost :: u32

definition new_empty :: policy where
  "new_empty = \<lparr>policy_rdr = None, vinst = 0, bootstrap_keys = [], join_policies = [],
     services = [], trusted_services = [], identity_attr_keys = [], cpol_sources = [],
     serialized = [], peer_table = None, link_attrs = None\<rparr>"

subsection \<open>Loading\<close>

fun load_exps :: "attr_expr_msg list \<Rightarrow> (policy_error, attr_exp list) result" where
  "load_exps [] = Inr []"
| "load_exps (m # ms) =
     (case am_op m of
        None \<Rightarrow> Inl (Err CapnpNotInSchema)
      | Some op \<Rightarrow>
          bind (load_exps ms) (\<lambda>es. Inr
            (\<lparr>ax_key = am_key m, ax_op = op,
              ax_value = (case am_value m of None \<Rightarrow> [] | Some vs \<Rightarrow> vs)\<rparr> # es)))"

fun flag_of :: "join_flag_msg \<Rightarrow> jflag" where
  "flag_of JfNode = IsNode"
| "flag_of JfVs = IsVs"
| "flag_of JfVsdock = IsVsDock"

fun load_flags :: "join_flag_msg option list \<Rightarrow> jflag set \<Rightarrow> (policy_error, jflag set) result" where
  "load_flags [] fs = Inr fs"
| "load_flags (f # rest) fs =
     (case f of
        None \<Rightarrow> Inl (Err CapnpNotInSchema)
      | Some fl \<Rightarrow> load_flags rest (insert (flag_of fl) fs))"

definition jpolicy_try_from :: "jpolicy_msg \<Rightarrow> (policy_error, jpolicy) result" where
  "jpolicy_try_from m =
     bind (case jm_match m of None \<Rightarrow> Inr [] | Some ms \<Rightarrow> load_exps ms) (\<lambda>exps.
     bind (case jm_flags m of None \<Rightarrow> Inr {} | Some fs \<Rightarrow> load_flags fs {}) (\<lambda>flags.
     Inr \<lparr>jp_exps = exps, jp_flags = flags, jp_services = map_option (map svc_id) (jm_provides m)\<rparr>))"

fun load_jpolicies :: "jpolicy_msg list \<Rightarrow> (policy_error, jpolicy list) result" where
  "load_jpolicies [] = Inr []"
| "load_jpolicies (m # ms) =
     bind (jpolicy_try_from m) (\<lambda>jp. bind (load_jpolicies ms) (\<lambda>jps. Inr (jp # jps)))"

definition load_join_policies :: "policy_msg \<Rightarrow> (policy_error, jpolicy list) result" where
  "load_join_policies m =
     (case pm_join_policies m of None \<Rightarrow> Inr [] | Some ms \<Rightarrow> load_jpolicies ms)"

definition load_cpol_sources :: "policy_msg \<Rightarrow> string list" where
  "load_cpol_sources m =
     (case pm_com_policies m of None \<Rightarrow> [] | Some cps \<Rightarrow> map cp_zpl cps)"

text \<open>A loop that converts each record and inserts it, failing on the first conversion error or on the
  first id already present.\<close>

fun insert_unique ::
  "('a \<Rightarrow> (policy_error, 'b) result) \<Rightarrow> ('b \<Rightarrow> string) \<Rightarrow> (string \<Rightarrow> policy_error) \<Rightarrow> 'a list
     \<Rightarrow> (string, 'b) hashmap \<Rightarrow> (policy_error, (string, 'b) hashmap) result" where
  "insert_unique convert ident dup [] m = Inr m"
| "insert_unique convert ident dup (x # xs) m =
     bind (convert x) (\<lambda>y.
       case hm_get m (ident y) of
         Some previous \<Rightarrow> Inl (Err (dup (ident previous)))
       | None \<Rightarrow> insert_unique convert ident dup xs (hm_insert (ident y) y m))"

fun convert_all ::
  "('a \<Rightarrow> (policy_error, 'b) result) \<Rightarrow> 'a list \<Rightarrow> (policy_error, 'b list) result" where
  "convert_all f [] = Inr []"
| "convert_all f (x # xs) = bind (f x) (\<lambda>y. bind (convert_all f xs) (\<lambda>ys. Inr (y # ys)))"

definition provided_services :: "policy_msg \<Rightarrow> service list" where
  "provided_services m =
     (case pm_join_policies m of
        None \<Rightarrow> []
      | Some jms \<Rightarrow> concat (map (\<lambda>jm. case jm_provides jm of None \<Rightarrow> [] | Some ss \<Rightarrow> ss) jms))"

definition load_services ::
  "(service \<Rightarrow> (policy_error, service) result) \<Rightarrow> policy_msg
     \<Rightarrow> (policy_error, (string, service) hashmap) result" where
  "load_services service_try_from m =
     insert_unique service_try_from svc_id
       (\<lambda>i. InvalidFormat (''duplicate service id in policy: '' @ i)) (provided_services m) []"

definition load_trusted_services ::
  "(trusted_service \<Rightarrow> (policy_error, trusted_service) result) \<Rightarrow> policy_msg
     \<Rightarrow> (policy_error, (string, trusted_service) hashmap) result" where
  "load_trusted_services ts_try_from m =
     (case pm_trusted_services m of
        None \<Rightarrow> Inr []
      | Some tss \<Rightarrow>
          insert_unique ts_try_from ts_service_id
            (\<lambda>i. InvalidFormat (''duplicate trusted service id in policy: '' @ i)) tss [])"

fun resolve_entries :: "attr_mapping list \<Rightarrow> string list \<Rightarrow> string list \<Rightarrow> string list" where
  "resolve_entries returns [] keys = keys"
| "resolve_entries returns (entry # es) keys =
     (case find (\<lambda>m. map_service_attr_key m = entry) returns of
        None \<Rightarrow> resolve_entries returns es keys
      | Some m \<Rightarrow>
          if map_is_tag m \<or> map_is_multi_valued m then resolve_entries returns es keys
          else if map_zpl_key m \<in> set keys then resolve_entries returns es keys
          else resolve_entries returns es (keys @ [map_zpl_key m]))"

fun resolve_services :: "(string, trusted_service) hashmap \<Rightarrow> string list \<Rightarrow> string list \<Rightarrow> string list" where
  "resolve_services tss [] keys = keys"
| "resolve_services tss (sid # sids) keys =
     resolve_services tss sids
       (case hm_get tss sid of
          None \<Rightarrow> keys
        | Some ts \<Rightarrow> resolve_entries (ts_returns_attrs ts) (ts_identity_attrs ts) keys)"

definition resolve_identity_attr_keys :: "(string, trusted_service) hashmap \<Rightarrow> string list" where
  "resolve_identity_attr_keys tss = resolve_services tss (sort (hm_keys tss)) []"

text \<open>\<^verbatim>\<open>entry(k).or_insert_with(Vec::new).push(p)\<close>.\<close>

definition push_peer ::
  "ip_addr \<Rightarrow> peer \<Rightarrow> (ip_addr, peer list) hashmap \<Rightarrow> (ip_addr, peer list) hashmap" where
  "push_peer k p m = hm_insert k ((case hm_get m k of None \<Rightarrow> [] | Some ps \<Rightarrow> ps) @ [p]) m"

definition peer_a_to_b :: "peering \<Rightarrow> peer" where
  "peer_a_to_b p = \<lparr>link_id = pr_link_id p, remote_zpr_addr = pr_node_b p,
     remote_substrate = pr_substrate_b p, local_substrate = pr_substrate_a p\<rparr>"

definition peer_b_to_a :: "peering \<Rightarrow> peer" where
  "peer_b_to_a p = \<lparr>link_id = pr_link_id p, remote_zpr_addr = pr_node_a p,
     remote_substrate = pr_substrate_a p, local_substrate = pr_substrate_b p\<rparr>"

fun peer_entries :: "peering list \<Rightarrow> (ip_addr, peer list) hashmap \<Rightarrow> (ip_addr, peer list) hashmap" where
  "peer_entries [] m = m"
| "peer_entries (p # ps) m =
     peer_entries ps
       (push_peer (pr_node_b p) (peer_b_to_a p) (push_peer (pr_node_a p) (peer_a_to_b p) m))"

definition load_peer_table :: "peering list \<Rightarrow> (ip_addr, peer list) hashmap option" where
  "load_peer_table ps = Some (peer_entries ps [])"

definition load_link_attrs :: "peering list \<Rightarrow> (string, attr_exp list) hashmap" where
  "load_link_attrs ps = foldl (\<lambda>m p. hm_insert (pr_link_id p) (pr_attributes p) m) [] ps"

definition load_peerings ::
  "(peering \<Rightarrow> (policy_error, peering) result) \<Rightarrow> policy_msg
     \<Rightarrow> (policy_error, peering list option) result" where
  "load_peerings peering_try_from m =
     (case pm_topology m of
        None \<Rightarrow> Inr None
      | Some ps \<Rightarrow> bind (convert_all peering_try_from ps) (\<lambda>ps'. Inr (Some ps')))"

fun load_key_allowances ::
  "(string \<Rightarrow> string option) \<Rightarrow> key_msg \<Rightarrow> key_allowance option list \<Rightarrow> (string, string) hashmap
     \<Rightarrow> (policy_error, (string, string) hashmap) result" where
  "load_key_allowances from_der k [] m = Inr m"
| "load_key_allowances from_der k (aw # aws) m =
     (if aw = Some Bootstrap then
        if km_type k \<noteq> RsaPub
        then Inl (Err (InvalidFormat (''Unsupported key type in bootstrap key for cn '' @ km_id k)))
        else (case from_der (km_data k) of
                None \<Rightarrow> Inl (Err OpenSsl)
              | Some pkey \<Rightarrow> load_key_allowances from_der k aws (hm_insert (km_id k) pkey m))
      else load_key_allowances from_der k aws m)"

fun load_keys ::
  "(string \<Rightarrow> string option) \<Rightarrow> key_msg list \<Rightarrow> (string, string) hashmap
     \<Rightarrow> (policy_error, (string, string) hashmap) result" where
  "load_keys from_der [] m = Inr m"
| "load_keys from_der (k # ks) m =
     bind (load_key_allowances from_der k (km_allows k) m) (load_keys from_der ks)"

definition load_bootstrap_keys ::
  "(string \<Rightarrow> string option) \<Rightarrow> policy_msg \<Rightarrow> (policy_error, (string, string) hashmap) result" where
  "load_bootstrap_keys from_der m =
     (case pm_keys m of None \<Rightarrow> Inr [] | Some ks \<Rightarrow> load_keys from_der ks [])"

text \<open>\<open>decode\<close> is \<^verbatim>\<open>capnp::serialize::read_message\<close> with \<^verbatim>\<open>get_root\<close>; \<open>from_der\<close> is openssl's.\<close>

definition new_from_policy_bytes ::
  "(string \<Rightarrow> policy_msg option) \<Rightarrow> (string \<Rightarrow> string option)
     \<Rightarrow> (service \<Rightarrow> (policy_error, service) result)
     \<Rightarrow> (trusted_service \<Rightarrow> (policy_error, trusted_service) result)
     \<Rightarrow> (peering \<Rightarrow> (policy_error, peering) result)
     \<Rightarrow> string \<Rightarrow> (policy_error, policy) result" where
  "new_from_policy_bytes decode from_der service_try_from ts_try_from peering_try_from bytes =
     (case decode bytes of
        None \<Rightarrow> Inl (Err Capnp)
      | Some m \<Rightarrow>
          bind (load_bootstrap_keys from_der m) (\<lambda>keys.
          bind (load_join_policies m) (\<lambda>jps.
          bind (load_services service_try_from m) (\<lambda>svcs.
          bind (load_trusted_services ts_try_from m) (\<lambda>tss.
          bind (load_peerings peering_try_from m) (\<lambda>peerings.
          Inr \<lparr>policy_rdr = Some m, vinst = 0, bootstrap_keys = keys, join_policies = jps,
               services = svcs, trusted_services = tss,
               identity_attr_keys = resolve_identity_attr_keys tss,
               cpol_sources = load_cpol_sources m, serialized = bytes,
               peer_table = (case peerings of None \<Rightarrow> None | Some ps \<Rightarrow> load_peer_table ps),
               link_attrs = map_option load_link_attrs peerings\<rparr>))))))"

subsection \<open>Questions\<close>

definition set_vinst :: "u64 \<Rightarrow> policy \<Rightarrow> policy" where
  "set_vinst v p = p\<lparr>vinst := v\<rparr>"

fun match_join_loop :: "time \<Rightarrow> jpolicy list \<Rightarrow> attribute list \<Rightarrow> jpolicy list \<Rightarrow> jpolicy list" where
  "match_join_loop now [] ats acc = acc"
| "match_join_loop now (jp # jps) ats acc =
     match_join_loop now jps ats (if jp_matches now jp ats then acc @ [jp] else acc)"

definition match_join_policies :: "time \<Rightarrow> policy \<Rightarrow> attribute list \<Rightarrow> jpolicy list" where
  "match_join_policies now p ats = match_join_loop now (join_policies p) ats []"

definition services_of :: "jpolicy list \<Rightarrow> string set" where
  "services_of jps = set (concat (List.map_filter jp_services jps))"

definition join_services :: "time \<Rightarrow> policy \<Rightarrow> attribute list \<Rightarrow> string set" where
  "join_services now p ats = services_of (match_join_policies now p ats)"

definition join_services_for_role :: "time \<Rightarrow> policy \<Rightarrow> attribute list \<Rightarrow> bool \<Rightarrow> string set" where
  "join_services_for_role now p ats node =
     (let matching = match_join_policies now p ats;
          is_node_policy = (\<lambda>jp. IsNode \<in> jp_flags jp)
      in if node \<and> \<not> list_ex is_node_policy matching then {}
         else services_of (filter (\<lambda>jp. node \<or> \<not> is_node_policy jp) matching))"

definition get_bootstrap_key_by_cn :: "policy \<Rightarrow> string \<Rightarrow> string option" where
  "get_bootstrap_key_by_cn p cn = hm_get (bootstrap_keys p) cn"

definition list_services_by_kind :: "policy \<Rightarrow> string \<Rightarrow> service list" where
  "list_services_by_kind p kind = filter (\<lambda>s. svc_kind s = kind) (hm_values (services p))"

definition service_by_id :: "policy \<Rightarrow> string \<Rightarrow> service option" where
  "service_by_id p i = hm_get (services p) i"

definition trusted_service_by_id :: "policy \<Rightarrow> string \<Rightarrow> trusted_service option" where
  "trusted_service_by_id p i = hm_get (trusted_services p) i"

definition lookup_identity_keys :: "policy \<Rightarrow> string list" where
  "lookup_identity_keys p = CN # filter (\<lambda>k. k \<noteq> CN) (identity_attr_keys p)"

definition get_cpol_source :: "policy \<Rightarrow> nat \<Rightarrow> string option" where
  "get_cpol_source p i = get_at (cpol_sources p) i"

definition get_condition_keys_for_com_policy ::
  "policy \<Rightarrow> nat \<Rightarrow> string list option \<times> string list option" where
  "get_condition_keys_for_com_policy p idx =
     (case policy_rdr p of
        None \<Rightarrow> (None, None)
      | Some m \<Rightarrow>
          let coms = (case pm_com_policies m of None \<Rightarrow> [] | Some cps \<Rightarrow> cps);
              conds_of = (\<lambda>c. case c of None \<Rightarrow> [] | Some cs \<Rightarrow> map ae_key cs)
          in if idx \<ge> length coms then (None, None)
             else (Some (conds_of (cp_client_conds (coms ! idx))),
                   Some (conds_of (cp_service_conds (coms ! idx)))))"

definition get_peers_for_node :: "policy \<Rightarrow> ip_addr \<Rightarrow> peer list option" where
  "get_peers_for_node p a =
     (case peer_table p of None \<Rightarrow> None | Some t \<Rightarrow> hm_get t a)"

definition all_peered_nodes :: "policy \<Rightarrow> ip_addr list" where
  "all_peered_nodes p = (case peer_table p of None \<Rightarrow> [] | Some t \<Rightarrow> hm_keys t)"

definition get_link_attrs :: "policy \<Rightarrow> string \<Rightarrow> attr_exp list option" where
  "get_link_attrs p l = (case link_attrs p of None \<Rightarrow> None | Some t \<Rightarrow> hm_get t l)"

definition get_attributes_for_link :: "time \<Rightarrow> policy \<Rightarrow> string \<Rightarrow> attribute list" where
  "get_attributes_for_link now p l =
     (case get_link_attrs p l of
        None \<Rightarrow> []
      | Some es \<Rightarrow> map (\<lambda>e. build_values (ax_value e) (builder now (ax_key e))) es)"

definition DEFAULT_LINK_COST :: u32 where "DEFAULT_LINK_COST = 1"

text \<open>\<^verbatim>\<open>str::parse::<i32>\<close>: an optional sign, at least one digit, within range.\<close>

definition parse_i32 :: "string \<Rightarrow> int option" where
  "parse_i32 s =
     (let (neg, ds) = (case s of
            c # cs \<Rightarrow> if c = CHR ''-'' then (True, cs) else if c = CHR ''+'' then (False, cs) else (False, s)
          | [] \<Rightarrow> (False, []))
      in case read_digits 10 ds of (vs, rest) \<Rightarrow>
           let n = foldl (\<lambda>acc d. acc * 10 + d) 0 vs; v = (if neg then - n else n)
           in if vs = [] \<or> rest \<noteq> [] \<or> v < - (2 ^ 31) \<or> v \<ge> 2 ^ 31 then None else Some v)"

fun get_link_cost :: "attribute list \<Rightarrow> u32 \<Rightarrow> u32" where
  "get_link_cost [] default_cost = default_cost"
| "get_link_cost (at # ats) default_cost =
     (if at_key at = LINK_COST then
        let v = (case get_single_value at of
                   Inl _ \<Rightarrow> sint default_cost
                 | Inr s \<Rightarrow> (case parse_i32 s of None \<Rightarrow> sint default_cost | Some i \<Rightarrow> i))
        in if v > 0 then of_int v else default_cost
      else get_link_cost ats default_cost)"

definition link_description_for :: "time \<Rightarrow> policy \<Rightarrow> string \<Rightarrow> link_description" where
  "link_description_for now p l =
     (let ats = get_attributes_for_link now p l;
          cost = (if ats \<noteq> [] then get_link_cost ats DEFAULT_LINK_COST else DEFAULT_LINK_COST)
      in \<lparr>ld_link_id = l, ld_attrs = ats, ld_cost = cost\<rparr>)"

fun find_peer_link :: "time \<Rightarrow> policy \<Rightarrow> peer list \<Rightarrow> ip_addr \<Rightarrow> link_description option" where
  "find_peer_link now p [] b = None"
| "find_peer_link now p (pr # prs) b =
     (if remote_zpr_addr pr = b then Some (link_description_for now p (link_id pr))
      else find_peer_link now p prs b)"

definition describe_link ::
  "time \<Rightarrow> policy \<Rightarrow> ip_addr \<Rightarrow> ip_addr \<Rightarrow> (policy_error, link_description) result" where
  "describe_link now p a b =
     (case (case get_peers_for_node p a of None \<Rightarrow> None | Some prs \<Rightarrow> find_peer_link now p prs b) of
        Some d \<Rightarrow> Inr d
      | None \<Rightarrow> Inl (Err (LinkNotFound a b)))"

subsection \<open>Lemmas\<close>

lemma match_join_loop_eq:
  "match_join_loop now jps ats acc = acc @ filter (\<lambda>jp. jp_matches now jp ats) jps"
  by (induction jps arbitrary: acc) auto

lemma match_join_policies_eq [eval_simps]:
  "match_join_policies now p ats = filter (\<lambda>jp. jp_matches now jp ats) (join_policies p)"
  by (simp add: match_join_policies_def match_join_loop_eq)

lemma match_join_policies_cong:
  "set ats = set ats' \<Longrightarrow> match_join_policies now p ats = match_join_policies now p ats'"
  unfolding match_join_policies_eq by (intro filter_cong refl jp_matches_cong)

lemma services_of_iff:
  "s \<in> services_of jps \<longleftrightarrow> (\<exists>jp \<in> set jps. \<exists>ss. jp_services jp = Some ss \<and> s \<in> set ss)"
  by (auto simp: services_of_def set_map_filter)

lemma services_of_mono: "set jps \<subseteq> set jps' \<Longrightarrow> services_of jps \<subseteq> services_of jps'"
  by (meson services_of_iff subset_iff)

lemma finite_services_of [simp]: "finite (services_of jps)"
  by (simp add: services_of_def)

lemma finite_join_services [simp]: "finite (join_services now p ats)"
  by (simp add: join_services_def)

lemma insert_unique_wf:
  "insert_unique c ident dup xs m = Inr m' \<Longrightarrow> hm_wf m \<Longrightarrow> hm_wf m'"
  by (induction c ident dup xs m rule: insert_unique.induct)
    (auto simp: bind_Inr_iff hm_wf_insert split: option.splits)

lemma load_trusted_services_wf: "load_trusted_services tt m = Inr tss \<Longrightarrow> hm_wf tss"
  unfolding load_trusted_services_def
  by (cases "pm_trusted_services m") (auto intro: insert_unique_wf)

lemma resolve_entries_distinct: "distinct keys \<Longrightarrow> distinct (resolve_entries rs es keys)"
  by (induction rs es keys rule: resolve_entries.induct) (auto split: option.splits)

lemma resolve_services_distinct: "distinct keys \<Longrightarrow> distinct (resolve_services tss sids keys)"
  by (induction tss sids keys rule: resolve_services.induct)
    (auto simp: resolve_entries_distinct split: option.splits)

lemma resolve_identity_attr_keys_distinct: "distinct (resolve_identity_attr_keys tss)"
  by (simp add: resolve_identity_attr_keys_def resolve_services_distinct)

lemma resolve_services_cong:
  "(\<And>k. hm_get tss k = hm_get tss' k) \<Longrightarrow> resolve_services tss sids keys = resolve_services tss' sids keys"
  by (induction sids arbitrary: keys) auto

text \<open>The entries the peer table holds for a node, in peering order.\<close>

definition peers_of :: "peering list \<Rightarrow> ip_addr \<Rightarrow> peer list" where
  "peers_of ps a = concat (map (\<lambda>p.
     (if pr_node_a p = a then [peer_a_to_b p] else []) @
     (if pr_node_b p = a then [peer_b_to_a p] else [])) ps)"

lemma hm_get_push_peer:
  "hm_get (push_peer k p m) a =
     (if a = k then Some ((case hm_get m k of None \<Rightarrow> [] | Some ps \<Rightarrow> ps) @ [p]) else hm_get m a)"
  by (simp add: push_peer_def)

lemma peer_entries_get:
  "hm_get (peer_entries ps m) a =
     (if peers_of ps a = [] then hm_get m a
      else Some ((case hm_get m a of None \<Rightarrow> [] | Some l \<Rightarrow> l) @ peers_of ps a))"
  by (induction ps arbitrary: m) (auto simp: peers_of_def hm_get_push_peer)

lemma find_peer_link_eq:
  "find_peer_link now p prs b =
     map_option (link_description_for now p)
       (map_option link_id (find (\<lambda>pr. remote_zpr_addr pr = b) prs))"
  by (induction prs) auto

definition joins :: "ip_addr \<Rightarrow> ip_addr \<Rightarrow> peering \<Rightarrow> bool" where
  "joins a b p \<longleftrightarrow> (pr_node_a p = a \<and> pr_node_b p = b) \<or> (pr_node_a p = b \<and> pr_node_b p = a)"

lemma find_peers_of:
  "map_option link_id (find (\<lambda>pr. remote_zpr_addr pr = b) (peers_of ps a)) =
     map_option pr_link_id (find (joins a b) ps)"
  by (induction ps) (auto simp: peers_of_def joins_def peer_a_to_b_def peer_b_to_a_def)

lemma find_peer_link_peers_of:
  "find_peer_link now p (peers_of ps a) b = find_peer_link now p (peers_of ps b) a"
proof -
  have "joins a b = joins b a" by (auto simp: joins_def fun_eq_iff)
  then show ?thesis by (simp add: find_peer_link_eq find_peers_of)
qed

lemma parse_i32_bounds: "parse_i32 s = Some v \<Longrightarrow> v < 2 ^ 31"
  by (auto simp: parse_i32_def Let_def split: prod.splits if_splits)

lemma unat_of_int_pos:
  assumes "0 < v" "v < 2 ^ 31"
  shows "unat (of_int v :: u32) = nat v"
  using assms by (simp add: unat_eq_nat_uint uint_word_of_int take_bit_eq_mod)

lemma get_link_cost_bounds:
  "0 < unat d \<Longrightarrow> unat d < 2 ^ 31 \<Longrightarrow>
     0 < unat (get_link_cost ats d) \<and> unat (get_link_cost ats d) < 2 ^ 31"
proof (induction ats d rule: get_link_cost.induct)
  case (1 d)
  then show ?case by simp
next
  case (2 at ats d)
  define v where "v = (case get_single_value at of
                   Inl _ \<Rightarrow> sint d
                 | Inr s \<Rightarrow> (case parse_i32 s of None \<Rightarrow> sint d | Some i \<Rightarrow> i))"
  have "sint d < 2 ^ 31" using sint_lt [of d] by simp
  then have "v < 2 ^ 31"
    by (auto simp: v_def dest: parse_i32_bounds split: sum.splits option.splits)
  then have "0 < v \<Longrightarrow> 0 < unat (of_int v :: u32) \<and> unat (of_int v :: u32) < 2 ^ 31"
    using unat_of_int_pos [of v] by (simp add: nat_less_iff)
  then show ?case
    using 2 by (simp add: Let_def v_def [symmetric])
qed

lemma link_description_cost:
  "0 < unat (ld_cost (link_description_for now p l)) \<and> unat (ld_cost (link_description_for now p l)) < 2 ^ 31"
  using get_link_cost_bounds [of DEFAULT_LINK_COST]
  by (simp add: link_description_for_def DEFAULT_LINK_COST_def Let_def)

lemma new_from_policy_bytes_peers:
  assumes "new_from_policy_bytes dec der st tt pt bytes = Inr p"
  obtains "peer_table p = None" | ps where "peer_table p = Some (peer_entries ps [])"
  using assms that
  by (auto simp: new_from_policy_bytes_def bind_Inr_iff load_peer_table_def split: option.splits)

lemma new_from_policy_bytes_identity_keys:
  assumes "new_from_policy_bytes dec der st tt pt bytes = Inr p"
  shows "distinct (identity_attr_keys p)"
  using assms
  by (auto simp: new_from_policy_bytes_def bind_Inr_iff resolve_identity_attr_keys_distinct
      split: option.splits)

subsection \<open>Properties\<close>

lemma join_services_for_role_subset: "join_services_for_role now p ats r \<subseteq> join_services now p ats"
  by (simp add: join_services_for_role_def join_services_def Let_def services_of_mono)

lemma join_services_for_role_agrees:
  assumes "r \<longleftrightarrow> (\<exists>jp \<in> set (match_join_policies now p ats). IsNode \<in> jp_flags jp)"
  shows "join_services_for_role now p ats r = join_services now p ats"
proof (cases r)
  case True
  with assms show ?thesis
    by (auto simp: join_services_for_role_def join_services_def Let_def list_ex_iff)
next
  case False
  with assms have "filter (\<lambda>jp. IsNode \<notin> jp_flags jp) (match_join_policies now p ats) = match_join_policies now p ats"
    by (intro filter_True) auto
  with False show ?thesis by (simp add: join_services_for_role_def join_services_def)
qed

text \<open>Restamping services agrees with connecting. The services of an already connected actor are a
  subset of what connecting with the same attributes grants, and equal to it when the role is the one
  connecting would assign; a node that matches no node policy any more gets none, and an adapter gets a
  service only from a policy that does not make a node.\<close>

theorem restamped_services_follow_role:
  "join_services_for_role now p ats r \<subseteq> join_services now p ats
   \<and> (r = (\<exists>jp \<in> set (match_join_policies now p ats). IsNode \<in> jp_flags jp) \<longrightarrow>
        join_services_for_role now p ats r = join_services now p ats)
   \<and> ((\<forall>jp \<in> set (match_join_policies now p ats). IsNode \<notin> jp_flags jp) \<longrightarrow>
        join_services_for_role now p ats True = {})
   \<and> (\<forall>s \<in> join_services_for_role now p ats False.
        \<exists>jp \<in> set (match_join_policies now p ats). IsNode \<notin> jp_flags jp \<and>
          (\<exists>ss. jp_services jp = Some ss \<and> s \<in> set ss))"
proof (intro conjI impI ballI)
  show "join_services_for_role now p ats r \<subseteq> join_services now p ats"
    by (rule join_services_for_role_subset)
  show "join_services_for_role now p ats r = join_services now p ats"
    if "r = (\<exists>jp \<in> set (match_join_policies now p ats). IsNode \<in> jp_flags jp)"
    using that by (rule join_services_for_role_agrees)
  show "join_services_for_role now p ats True = {}"
    if "\<forall>jp \<in> set (match_join_policies now p ats). IsNode \<notin> jp_flags jp"
    using that by (auto simp: join_services_for_role_def list_ex_iff)
  show "\<exists>jp \<in> set (match_join_policies now p ats). IsNode \<notin> jp_flags jp \<and>
          (\<exists>ss. jp_services jp = Some ss \<and> s \<in> set ss)"
    if "s \<in> join_services_for_role now p ats False" for s
    using that by (auto simp: join_services_for_role_def Let_def services_of_iff)
qed

definition cn_only_policy :: policy where
  "cn_only_policy = new_empty\<lparr>join_policies := [cn_policy]\<rparr>"

theorem restamped_services_follow_role_witness:
  "join_services_for_role 50 cn_only_policy [cn_claim] False = {''database''}"
proof -
  have m: "match_join_policies 50 cn_only_policy [cn_claim] = [cn_policy]" by code_simp
  have js: "join_services 50 cn_only_policy [cn_claim] = {''database''}"
    unfolding join_services_def m by (simp add: services_of_def cn_policy_def map_filter_def)
  have role: "False = (\<exists>jp \<in> set (match_join_policies 50 cn_only_policy [cn_claim]). IsNode \<in> jp_flags jp)"
    unfolding m by (simp add: cn_policy_def)
  show ?thesis
    using restamped_services_follow_role [THEN conjunct2, THEN conjunct1, THEN mp, OF role]
    by (simp only: js)
qed

text \<open>In a loaded policy a link looks the same from both ends: describing the link from one node to
  another gives the link id, attributes and cost that describing it the other way gives, and the cost is
  between 1 and the largest 32-bit signed integer.\<close>

theorem describe_link_symmetric:
  assumes "new_from_policy_bytes decode from_der st tt pt bytes = Inr p"
    and "describe_link now p a b = Inr d"
  shows "describe_link now p b a = Inr d \<and> 1 \<le> unat (ld_cost d) \<and> unat (ld_cost d) < 2 ^ 31"
proof -
  have look: "get_peers_for_node p x = (if peers_of ps x = [] then None else Some (peers_of ps x))"
    if "peer_table p = Some (peer_entries ps [])" for ps x
    using that by (simp add: get_peers_for_node_def peer_entries_get)
  from assms(1) obtain ps where ps: "peer_table p = Some (peer_entries ps [])"
    using assms(2) by (cases rule: new_from_policy_bytes_peers)
      (auto simp: describe_link_def get_peers_for_node_def)
  have desc: "(case get_peers_for_node p x of None \<Rightarrow> None | Some prs \<Rightarrow> find_peer_link now p prs y) =
      find_peer_link now p (peers_of ps x) y" for x y
    by (simp add: look [OF ps])
  from assms(2) have d: "find_peer_link now p (peers_of ps a) b = Some d"
    by (simp add: describe_link_def desc split: option.splits)
  then have "find_peer_link now p (peers_of ps b) a = Some d"
    by (simp add: find_peer_link_peers_of)
  then have "describe_link now p b a = Inr d" by (simp add: describe_link_def desc)
  moreover from d obtain l where "d = link_description_for now p l"
    by (auto simp: find_peer_link_eq)
  ultimately show ?thesis using link_description_cost [of now p l] by simp
qed

definition one_link_msg :: policy_msg where
  "one_link_msg = \<lparr>pm_com_policies = None, pm_join_policies = None, pm_keys = None,
     pm_trusted_services = None,
     pm_topology = Some [\<lparr>pr_link_id = ''L1'', pr_node_a = V4 1, pr_node_b = V4 2,
       pr_substrate_a = (''h1'', 5000), pr_substrate_b = (''h2'', 5001),
       pr_attributes = [\<lparr>ax_key = LINK_COST, ax_op = Eq, ax_value = [''7'']\<rparr>]\<rparr>]\<rparr>"

definition one_link_policy :: policy where
  "one_link_policy = new_empty\<lparr>policy_rdr := Some one_link_msg,
     peer_table := load_peer_table (the (pm_topology one_link_msg)),
     link_attrs := Some (load_link_attrs (the (pm_topology one_link_msg)))\<rparr>"

lemma one_link_policy_loads:
  "new_from_policy_bytes (\<lambda>_. Some one_link_msg) Some Inr Inr Inr [] = Inr one_link_policy"
  by code_simp

theorem describe_link_symmetric_witness:
  "\<exists>d. describe_link 0 one_link_policy (V4 1) (V4 2) = Inr d
     \<and> describe_link 0 one_link_policy (V4 2) (V4 1) = Inr d"
proof -
  have "\<exists>d. describe_link 0 one_link_policy (V4 1) (V4 2) = Inr d"
    by (simp add: describe_link_def get_peers_for_node_def one_link_policy_def one_link_msg_def
        load_peer_table_def push_peer_def peer_a_to_b_def peer_b_to_a_def new_empty_def)
  then show ?thesis using describe_link_symmetric [OF one_link_policy_loads] by blast
qed

text \<open>The identity keys a loaded policy looks up start with the adapter CN and name each key once.
  The keys resolved from the trusted services do not depend on the order of the service table.\<close>

theorem identity_keys_are_stable:
  assumes "new_from_policy_bytes decode from_der st tt pt bytes = Inr p"
  shows "hd (lookup_identity_keys p) = CN \<and> distinct (lookup_identity_keys p)
    \<and> identity_attr_keys p = resolve_identity_attr_keys (trusted_services p)
    \<and> (\<forall>tss. mset tss = mset (trusted_services p) \<longrightarrow>
         resolve_identity_attr_keys tss = identity_attr_keys p)"
proof -
  have wf: "hm_wf (trusted_services p)" and
    ids: "identity_attr_keys p = resolve_identity_attr_keys (trusted_services p)"
    using assms
    by (auto simp: new_from_policy_bytes_def bind_Inr_iff load_trusted_services_wf split: option.splits)
  have stable: "resolve_identity_attr_keys tss = identity_attr_keys p" if eq: "mset tss = mset (trusted_services p)" for tss
  proof -
    have "mset (hm_keys tss) = mset (hm_keys (trusted_services p))" using eq by (metis mset_map)
    then have "sort (hm_keys tss) = sort (hm_keys (trusted_services p))"
      by (intro properties_for_sort) simp_all
    moreover have "map_of tss = map_of (trusted_services p)"
      using mset_eq_setD [OF eq] wf mset_eq_imp_distinct_iff [OF \<open>mset (hm_keys tss) = _\<close>]
      by (subst map_of_inject_set) simp_all
    ultimately show ?thesis
      using ids resolve_services_cong [of tss "trusted_services p"]
      by (simp add: resolve_identity_attr_keys_def)
  qed
  have "distinct (lookup_identity_keys p)"
    using new_from_policy_bytes_identity_keys [OF assms] by (simp add: lookup_identity_keys_def)
  moreover have "hd (lookup_identity_keys p) = CN" by (simp add: lookup_identity_keys_def)
  ultimately show ?thesis using ids stable by blast
qed

theorem identity_keys_are_stable_witness:
  "hd (lookup_identity_keys one_link_policy) = CN \<and> distinct (lookup_identity_keys one_link_policy)"
  using identity_keys_are_stable [OF one_link_policy_loads] by simp

end
