(* ===== verification/Routes.thy ===== *)
theory Routes
  imports Prelude
begin

text \<open>
  \<^verbatim>\<open>libeval/src/route.rs\<close>: the route data that policy evaluation and the router share. \<^verbatim>\<open>AttrMatch\<close> is an
  empty struct in the source, hence a single value here.
\<close>

datatype attr_match = AttrMatch

datatype route_predicate =
    PTrue
  | DirectOnly
  | RequireLinkedPath
  | AnyLinkHas attr_match
  | NoLinkHas attr_match
  | AllLinksHave attr_match
  | PAnd "route_predicate list"
  | POr "route_predicate list"

datatype node_id = NodeId (node_ip: ip_addr)

text \<open>\<^verbatim>\<open>NodeId\<close> derives its order from the address.\<close>

instantiation node_id :: linorder
begin

definition less_eq_node_id :: "node_id \<Rightarrow> node_id \<Rightarrow> bool" where
  "less_eq_node_id m n \<longleftrightarrow> node_ip m \<le> node_ip n"

definition less_node_id :: "node_id \<Rightarrow> node_id \<Rightarrow> bool" where
  "less_node_id m n \<longleftrightarrow> node_ip m < node_ip n"

instance
  by standard (auto simp: less_eq_node_id_def less_node_id_def intro: node_id.expand)

end

datatype link_id = LinkId (link_name: string)

datatype route_kind = DirectSameNode node_id | Multihop

record route =
  rt_kind :: route_kind
  rt_links :: "link_id list"
  rt_cost :: u32

text \<open>\<^verbatim>\<open>eval_route.rs\<close>: the hint that policy evaluation may give the router.\<close>

record route_hint =
  direct_only :: bool
  require_linked_path :: bool
  any_link_has :: "attr_match list"
  no_link_has :: "attr_match list"
  all_links_have :: "attr_match list"

definition is_direct :: "route \<Rightarrow> bool" where
  "is_direct r = (case rt_kind r of DirectSameNode _ \<Rightarrow> True | Multihop \<Rightarrow> False)"

definition hop_count :: "route \<Rightarrow> nat" where
  "hop_count r = length (rt_links r)"

definition new_direct :: "node_id \<Rightarrow> route" where
  "new_direct n = \<lparr>rt_kind = DirectSameNode n, rt_links = [], rt_cost = 0\<rparr>"

end
