(* ===== verification/Evaluation.thy ===== *)
theory Evaluation
  imports Policies Routes
begin

text \<open>
  \<^verbatim>\<open>libeval/src/eval.rs\<close>, with \<^verbatim>\<open>eval_result.rs\<close>, \<^verbatim>\<open>eval_route.rs\<close> and \<^verbatim>\<open>visa.rs\<close>: deciding whether policy permits
  two actors to communicate (\<open>eval_request\<close>), the visa a permission gives (\<open>visa_info_for_hit\<close>), and which
  actor a set of claims becomes (\<open>approve_connection\<close>, \<open>approve_connected\<close>). An evaluation context is the
  policy it wraps. The IP protocol numbers are the IANA ones the packet description uses.
\<close>

subsection \<open>Data\<close>

record packet_desc =
  source_addr :: ip_addr
  dest_addr :: ip_addr
  protocol :: u8
  source_port :: u16
  dest_port :: u16

definition TCP :: u8 where "TCP = 6"
definition UDP :: u8 where "UDP = 17"
definition IPV6_ICMP :: u8 where "IPV6_ICMP = 58"

datatype eval_error =
    EvalCapnp
  | UnsupportedProtocol u8
  | InvalidRequest string
  | InternalError string
  | EmptyPolicy
  | AttributeMissing string
  | EvalNoMatch
  | InvalidClaim string
  | ClaimMissing string

datatype direction = Forward | Reverse

datatype scope_match_type = MatchForward | MatchReverse

record hit =
  match_idx :: nat
  hit_direction :: direction
  hit_signal :: "signal option"
  hit_route_predicate :: "route_predicate option"
  hit_route :: "route option"

datatype final_deny = NoMatch string | DenyHits "hit list"

record residual =
  res_src_actor :: actor
  res_dst_actor :: actor
  res_packet_desc :: packet_desc
  candidate_allow_hits :: "hit list"
  candidate_deny_hits :: "hit list"
  res_hint :: "route_hint option"

datatype partial_eval_result =
    Deny final_deny
  | AllowWithoutRoute "hit list"
  | NeedsRoute residual

datatype final_eval_result = FinalAllow "hit list" | FinalNoMatch string | FinalDenied "hit list"

datatype constraint = ExpiresAtUnixSeconds u64

datatype comm_opt = ReversePinhole

record visa_props =
  vp_source_addr :: ip_addr
  vp_dest_addr :: ip_addr
  vp_protocol :: u8
  vp_source_port :: u16
  vp_dest_port :: u16
  vp_constraints :: "constraint list option"
  vp_comm_opts :: "comm_opt list option"
  vp_zpl :: string

definition deny_no_match :: "string \<Rightarrow> partial_eval_result" where
  "deny_no_match msg = Deny (NoMatch msg)"

definition deny_hits :: "hit list \<Rightarrow> partial_eval_result" where
  "deny_hits hs = Deny (DenyHits hs)"

definition allow_hits :: "hit list \<Rightarrow> partial_eval_result" where
  "allow_hits hs = AllowWithoutRoute hs"

definition new_no_signal :: "nat \<Rightarrow> direction \<Rightarrow> hit" where
  "new_no_signal i d = \<lparr>match_idx = i, hit_direction = d, hit_signal = None,
     hit_route_predicate = None, hit_route = None\<rparr>"

definition new_with_signal :: "nat \<Rightarrow> direction \<Rightarrow> signal \<Rightarrow> hit" where
  "new_with_signal i d s = \<lparr>match_idx = i, hit_direction = d, hit_signal = Some s,
     hit_route_predicate = None, hit_route = None\<rparr>"

definition eval_route ::
  "residual \<Rightarrow> route \<Rightarrow> (link_id \<Rightarrow> attr_match \<Rightarrow> bool) \<Rightarrow> (eval_error, final_eval_result) result" where
  "eval_route r rt link_has_attr = Inl (Err (InternalError ''route evaluation not implemented''))"

subsection \<open>Scopes and conditions\<close>

definition scope_matches :: "packet_desc \<Rightarrow> scope \<Rightarrow> scope_match_type \<Rightarrow> bool" where
  "scope_matches req sc want =
     (if sc_protocol sc \<noteq> protocol req then False
      else
        let is_icmp = (protocol req = IPV6_ICMP);
            port_matches =
              (case sc_port sc of
                 Port allowed \<Rightarrow>
                   (case (is_icmp, want) of
                      (True, MatchForward) \<Rightarrow> source_port req = allowed
                    | (True, MatchReverse) \<Rightarrow> False
                    | (False, MatchForward) \<Rightarrow> dest_port req = allowed
                    | (False, MatchReverse) \<Rightarrow> source_port req = allowed)
               | PortRange low high \<Rightarrow>
                   (case (is_icmp, want) of
                      (True, MatchForward) \<Rightarrow> source_port req = low
                    | (True, MatchReverse) \<Rightarrow> source_port req = high
                    | (False, MatchForward) \<Rightarrow> low \<le> dest_port req \<and> dest_port req \<le> high
                    | (False, MatchReverse) \<Rightarrow> low \<le> source_port req \<and> source_port req \<le> high)
               | PortNotInSchema _ \<Rightarrow> False)
        in if \<not> port_matches then False
           else \<not> (protocol req = UDP \<and> want = MatchReverse \<and> sc_flag sc = Some UdpOneWay))"

definition policy_scope_matches :: "packet_desc \<Rightarrow> com_policy \<Rightarrow> scope_match_type \<Rightarrow> bool" where
  "policy_scope_matches req cp want \<longleftrightarrow> list_ex (\<lambda>sc. scope_matches req sc want) (cp_scope cp)"

datatype pattr_value = Atom string | ValueSet "string list"

fun pattr_is_empty :: "pattr_value \<Rightarrow> bool" where
  "pattr_is_empty (Atom s) = (s = [])"
| "pattr_is_empty (ValueSet vs) = (vs = [])"

fun as_slice :: "pattr_value \<Rightarrow> string list" where
  "as_slice (Atom s) = [s]"
| "as_slice (ValueSet vs) = vs"

definition cond_value :: "attr_expr \<Rightarrow> pattr_value option" where
  "cond_value c =
     (case ae_value c of
        None \<Rightarrow> None
      | Some [] \<Rightarrow> None
      | Some [v] \<Rightarrow> Some (Atom v)
      | Some vs \<Rightarrow> Some (ValueSet vs))"

text \<open>The arms of the \<^verbatim>\<open>match cond.get_op()\<close> of \<^verbatim>\<open>match_condition_to_actor\<close>.\<close>

definition condition_holds :: "attr_op \<Rightarrow> attr_expr \<Rightarrow> actor \<Rightarrow> bool \<Rightarrow> bool" where
  "condition_holds op c a for_allow =
     (let v = cond_value c; k = ae_key c
      in case op of
           Eq \<Rightarrow> (case v of
                    None \<Rightarrow> \<not> for_allow
                  | Some (ValueSet _) \<Rightarrow> \<not> for_allow
                  | Some (Atom s) \<Rightarrow> has_attribute_value a k s)
         | Ne \<Rightarrow> (case v of
                    None \<Rightarrow> \<not> for_allow
                  | Some (ValueSet _) \<Rightarrow> \<not> for_allow
                  | Some (Atom s) \<Rightarrow> \<not> has_attribute_value a k s)
         | Has \<Rightarrow> (case v of
                     None \<Rightarrow> has_attribute_named a k
                   | Some pv \<Rightarrow> if pattr_is_empty pv then has_attribute_named a k
                                else has_attribute_values a k (as_slice pv))
         | Excludes \<Rightarrow> (case v of
                          None \<Rightarrow> \<not> for_allow
                        | Some pv \<Rightarrow> \<not> has_any_attribute_values a k (as_slice pv)))"

text \<open>\<^verbatim>\<open>cond.get_op().unwrap()\<close> panics on an operator outside the schema, but only once it is reached.\<close>

definition match_condition_to_actor ::
  "time \<Rightarrow> attr_expr \<Rightarrow> actor \<Rightarrow> bool \<Rightarrow> (eval_error, bool) result" where
  "match_condition_to_actor now c a for_allow =
     (if for_allow \<and> (case get_attribute a (ae_key c) of None \<Rightarrow> False | Some at \<Rightarrow> is_expired now at)
      then Inr False
      else (case ae_op c of
              None \<Rightarrow> Inl Panic
            | Some op \<Rightarrow> Inr (condition_holds op c a for_allow)))"

fun all_conditions :: "time \<Rightarrow> attr_expr list \<Rightarrow> actor \<Rightarrow> bool \<Rightarrow> (eval_error, bool) result" where
  "all_conditions now [] a for_allow = Inr True"
| "all_conditions now (c # cs) a for_allow =
     bind (match_condition_to_actor now c a for_allow) (\<lambda>met.
       if \<not> met then Inr False else all_conditions now cs a for_allow)"

definition match_policy_conditions ::
  "time \<Rightarrow> actor \<Rightarrow> actor \<Rightarrow> com_policy \<Rightarrow> bool \<Rightarrow> (eval_error, bool) result" where
  "match_policy_conditions now client server cp for_allow =
     bind (case cp_client_conds cp of None \<Rightarrow> Inr True | Some cs \<Rightarrow> all_conditions now cs client for_allow) (\<lambda>met.
       if \<not> met then Inr False
       else (case cp_service_conds cp of None \<Rightarrow> Inr True | Some cs \<Rightarrow> all_conditions now cs server for_allow))"

subsection \<open>Evaluating a request\<close>

definition policy_direction ::
  "time \<Rightarrow> bool \<Rightarrow> actor \<Rightarrow> actor \<Rightarrow> packet_desc \<Rightarrow> com_policy \<Rightarrow> (eval_error, direction option) result" where
  "policy_direction now allows src dst req cp =
     (if policy_scope_matches req cp MatchForward \<and> provides dst (cp_service_id cp) then
        bind (match_policy_conditions now src dst cp allows) (\<lambda>met. Inr (if met then Some Forward else None))
      else if policy_scope_matches req cp MatchReverse \<and> provides src (cp_service_id cp) then
        bind (match_policy_conditions now dst src cp allows) (\<lambda>met. Inr (if met then Some Reverse else None))
      else Inr None)"

definition hit_for :: "nat \<Rightarrow> direction \<Rightarrow> com_policy \<Rightarrow> hit" where
  "hit_for i d cp =
     (case cp_signal cp of Some s \<Rightarrow> new_with_signal i d s | None \<Rightarrow> new_no_signal i d)"

fun match_policies_from ::
  "time \<Rightarrow> bool \<Rightarrow> actor \<Rightarrow> actor \<Rightarrow> packet_desc \<Rightarrow> nat \<Rightarrow> com_policy list \<Rightarrow> hit list
     \<Rightarrow> (eval_error, hit list) result" where
  "match_policies_from now allows src dst req i [] hits = Inr hits"
| "match_policies_from now allows src dst req i (cp # cps) hits =
     (if allows \<noteq> cp_allow cp then match_policies_from now allows src dst req (Suc i) cps hits
      else bind (policy_direction now allows src dst req cp) (\<lambda>direction.
             case direction of
               None \<Rightarrow> match_policies_from now allows src dst req (Suc i) cps hits
             | Some d \<Rightarrow> match_policies_from now allows src dst req (Suc i) cps (hits @ [hit_for i d cp])))"

definition match_policies ::
  "time \<Rightarrow> bool \<Rightarrow> actor \<Rightarrow> actor \<Rightarrow> packet_desc \<Rightarrow> com_policy list \<Rightarrow> (eval_error, hit list) result" where
  "match_policies now allows src dst req cps = match_policies_from now allows src dst req 0 cps []"

definition eval_request ::
  "time \<Rightarrow> policy \<Rightarrow> actor \<Rightarrow> actor \<Rightarrow> packet_desc \<Rightarrow> (eval_error, partial_eval_result) result" where
  "eval_request now p src dst req =
     (if \<not> (protocol req = TCP \<or> protocol req = UDP \<or> protocol req = IPV6_ICMP)
      then Inr (Deny (NoMatch ''only TCP/UDP/ICMPv6 protocols supported''))
      else (case policy_rdr p of
              None \<Rightarrow> Inr (deny_no_match ''no policy available'')
            | Some m \<Rightarrow>
                (case pm_com_policies m of
                   None \<Rightarrow> Inr (deny_no_match ''no communication policies defined'')
                 | Some cps \<Rightarrow>
                     bind (match_policies now False src dst req cps) (\<lambda>denies.
                       if denies \<noteq> [] then Inr (deny_hits denies)
                       else bind (match_policies now True src dst req cps) (\<lambda>allows.
                              if allows \<noteq> [] then Inr (allow_hits allows)
                              else Inr (deny_no_match ''no matching policy''))))))"

definition match_ports :: "hit \<Rightarrow> packet_desc \<Rightarrow> (u16 \<times> u16) option" where
  "match_ports h req =
     (if protocol req = TCP \<or> protocol req = UDP then
        (case hit_direction h of
           Forward \<Rightarrow> Some (if source_port req > 1023 then 0 else source_port req, dest_port req)
         | Reverse \<Rightarrow> Some (source_port req, if dest_port req > 1023 then 0 else dest_port req))
      else if protocol req = IPV6_ICMP then Some (source_port req, dest_port req)
      else None)"

definition visa_info_for_hit ::
  "policy \<Rightarrow> hit \<Rightarrow> packet_desc \<Rightarrow> (eval_error, visa_props) result" where
  "visa_info_for_hit p h req =
     (case policy_rdr p of
        None \<Rightarrow> Inl (Err EmptyPolicy)
      | Some m \<Rightarrow>
          (case get_at (case pm_com_policies m of None \<Rightarrow> [] | Some cps \<Rightarrow> cps) (match_idx h mod 2 ^ 32) of
             None \<Rightarrow> Inl Panic
           | Some cp \<Rightarrow>
               if \<not> cp_allow cp then Inl (Err (InvalidRequest ''visa_info_for_hit called on a deny''))
               else (case match_ports h req of
                       None \<Rightarrow> Inl (Err (UnsupportedProtocol (protocol req)))
                     | Some (sport, dport) \<Rightarrow>
                         Inr \<lparr>vp_source_addr = source_addr req, vp_dest_addr = dest_addr req,
                              vp_protocol = protocol req, vp_source_port = sport, vp_dest_port = dport,
                              vp_constraints = None, vp_comm_opts = None, vp_zpl = cp_zpl cp\<rparr>)))"

subsection \<open>Approving connections\<close>

definition pins_zpr_addr :: "attr_exp \<Rightarrow> bool" where
  "pins_zpr_addr e \<longleftrightarrow>
     ax_key e = ZPR_ADDR \<and> ax_op e = Eq \<and> ax_value e \<noteq> [] \<and> list_all (\<lambda>v. v \<noteq> []) (ax_value e)"

text \<open>\<^verbatim>\<open>if let Err(e) = actor.add_attribute(..) { warn!(..) }\<close>: an invalid claim is dropped.\<close>

fun commit_claims :: "attribute list \<Rightarrow> actor \<Rightarrow> actor" where
  "commit_claims [] a = a"
| "commit_claims (at # ats) a =
     (case add_attribute at a of Inl _ \<Rightarrow> commit_claims ats a | Inr a' \<Rightarrow> commit_claims ats a')"

definition requested_addrs :: "attribute list option \<Rightarrow> attribute list" where
  "requested_addrs un = (case un of None \<Rightarrow> [] | Some uc \<Rightarrow> filter (\<lambda>at. at_key at = ZPR_ADDR) uc)"

fun add_identity_keys :: "string list \<Rightarrow> actor \<Rightarrow> (eval_error, actor) result" where
  "add_identity_keys [] a = Inr a"
| "add_identity_keys (k # ks) a =
     (if has_attribute_named a k
      then bind (unwrap (add_identity_key USIZE_MAX k a)) (add_identity_keys ks)
      else add_identity_keys ks a)"

definition last_resort_identity :: "time \<Rightarrow> (actor \<Rightarrow> u64) \<Rightarrow> actor \<Rightarrow> (eval_error, actor) result" where
  "last_resort_identity now hasher a =
     (if identity_keys a \<noteq> [] then Inr a
      else if has_attribute_named a ZPR_ADDR then unwrap (add_identity_key USIZE_MAX ZPR_ADDR a)
      else bind (unwrap (add_attribute
                   (build_value (''hash:'' @ u64_to_hex (hasher a)) (builder now ACTOR_HASH)) a))
             (\<lambda>a'. unwrap (add_identity_key USIZE_MAX ACTOR_HASH a')))"

definition role_attribute :: "time \<Rightarrow> jflag set \<Rightarrow> attribute" where
  "role_attribute now flags =
     build_value (if IsNode \<in> flags then ROLE_NODE else ROLE_ADAPTER)
       (expires_in now NEVER_EXPIRES (builder now ROLE))"

definition vinst_attribute :: "time \<Rightarrow> policy \<Rightarrow> attribute" where
  "vinst_attribute now p =
     build_value (u64_to_string (vinst p)) (expires_in now NEVER_EXPIRES (builder now VINST))"

definition flags_of :: "jpolicy list \<Rightarrow> jflag set" where
  "flags_of jps = foldl (\<lambda>fs jp. fs \<union> jp_flags jp) {} jps"

definition matched_addr_pin :: "jpolicy list \<Rightarrow> bool" where
  "matched_addr_pin jps \<longleftrightarrow> list_ex (\<lambda>jp. list_ex pins_zpr_addr (jp_exps jp)) jps"

text \<open>\<open>hasher\<close> stands for \<^verbatim>\<open>DefaultHasher\<close>, whose algorithm the standard library leaves open.\<close>

definition approve_connection ::
  "time \<Rightarrow> (actor \<Rightarrow> u64) \<Rightarrow> policy \<Rightarrow> attribute list option \<Rightarrow> attribute list option
     \<Rightarrow> (eval_error, actor) result" where
  "approve_connection now hasher p authenticated unauthenticated =
     (case authenticated of
        None \<Rightarrow> Inl (Err (AttributeMissing ''no authenticated claims provided''))
      | Some auth \<Rightarrow>
          let query_claims = auth @ requested_addrs unauthenticated;
              matching = match_join_policies now p query_claims;
              final_claims = (if matched_addr_pin matching then query_claims else auth);
              a0 = commit_claims final_claims actor_new
          in bind (unwrap (add_attribute (role_attribute now (flags_of matching)) a0)) (\<lambda>a1.
             let a2 = set_services now (join_services now p query_claims) a1
             in bind (unwrap (add_attribute (vinst_attribute now p) a2)) (\<lambda>a3.
                bind (add_identity_keys (lookup_identity_keys p) a3)
                  (last_resort_identity now hasher))))"

definition approve_connected :: "time \<Rightarrow> policy \<Rightarrow> actor \<Rightarrow> (eval_error, bool) result" where
  "approve_connected now p a =
     (let matching = match_join_policies now p (attrs_iter a)
      in if matching = [] then Inr (\<not> is_node a)
         else if (IsNode \<in> flags_of matching) \<noteq> is_node a then Inr False
         else if \<not> list_all (\<lambda>s. s \<in> services_of matching) (services_iter a) then Inr False
         else Inr True)"

subsection \<open>Lemmas: matching requests\<close>

lemma all_conditions_met [eval_simps]:
  "all_conditions now cs a fa = Inr True \<longleftrightarrow> (\<forall>c \<in> set cs. match_condition_to_actor now c a fa = Inr True)"
  by (induction cs) (auto simp: bind_Inr_iff split: if_splits)

lemma condition_holds_allow_deny: "condition_holds op c a True \<Longrightarrow> condition_holds op c a False"
  by (cases op)
    (simp_all add: condition_holds_def Let_def split: option.splits pattr_value.splits)

lemma match_condition_allow_deny:
  "match_condition_to_actor now c a True = Inr True \<Longrightarrow> match_condition_to_actor now' c a False = Inr True"
  by (auto simp: match_condition_to_actor_def condition_holds_allow_deny split: if_splits option.splits)

lemma match_condition_antimono:
  "match_condition_to_actor now' c a fa = Inr True \<Longrightarrow> now \<le> now' \<Longrightarrow> match_condition_to_actor now c a fa = Inr True"
  by (auto simp: match_condition_to_actor_def dest: is_expired_mono split: option.splits if_splits)

lemma match_condition_deny_time:
  "match_condition_to_actor now c a False = match_condition_to_actor now' c a False"
  by (simp add: match_condition_to_actor_def)

lemma all_conditions_deny_time: "all_conditions now cs a False = all_conditions now' cs a False"
  by (induction cs) (simp_all add: match_condition_deny_time [of now _ _ now'] cong: if_cong)

lemma match_policy_conditions_met [eval_simps]:
  "match_policy_conditions now cl sv cp fa = Inr True \<longleftrightarrow>
     (\<forall>cs c. cp_client_conds cp = Some cs \<longrightarrow> c \<in> set cs \<longrightarrow> match_condition_to_actor now c cl fa = Inr True) \<and>
     (\<forall>cs c. cp_service_conds cp = Some cs \<longrightarrow> c \<in> set cs \<longrightarrow> match_condition_to_actor now c sv fa = Inr True)"
  by (auto simp: match_policy_conditions_def bind_Inr_iff eval_simps split: option.splits if_splits)

lemma match_policy_conditions_antimono:
  "match_policy_conditions now' cl sv cp fa = Inr True \<Longrightarrow> now \<le> now' \<Longrightarrow>
     match_policy_conditions now cl sv cp fa = Inr True"
  unfolding match_policy_conditions_met using match_condition_antimono by blast

lemma match_policy_conditions_allow_deny:
  "match_policy_conditions now cl sv cp True = Inr True \<Longrightarrow> match_policy_conditions now' cl sv cp False = Inr True"
  unfolding match_policy_conditions_met using match_condition_allow_deny by blast

lemma match_policy_conditions_deny_time:
  "match_policy_conditions now cl sv cp False = match_policy_conditions now' cl sv cp False"
  by (simp add: match_policy_conditions_def all_conditions_deny_time [of now _ _ now'] cong: if_cong option.case_cong)

lemma policy_direction_hit:
  "policy_direction now fa src dst req cp = Inr (Some d) \<longleftrightarrow>
     (if policy_scope_matches req cp MatchForward \<and> provides dst (cp_service_id cp)
      then d = Forward \<and> match_policy_conditions now src dst cp fa = Inr True
      else policy_scope_matches req cp MatchReverse \<and> provides src (cp_service_id cp) \<and> d = Reverse
        \<and> match_policy_conditions now dst src cp fa = Inr True)"
  by (auto simp: policy_direction_def bind_Inr_iff split: if_splits)

lemma policy_direction_antimono:
  "policy_direction now' fa src dst req cp = Inr (Some d) \<Longrightarrow> now \<le> now' \<Longrightarrow>
     policy_direction now fa src dst req cp = Inr (Some d)"
  by (auto simp: policy_direction_hit split: if_splits intro: match_policy_conditions_antimono)

lemma policy_direction_allow_deny:
  "policy_direction now True src dst req cp = Inr (Some d) \<Longrightarrow>
     policy_direction now' False src dst req cp = Inr (Some d)"
  by (auto simp: policy_direction_hit split: if_splits intro: match_policy_conditions_allow_deny)

lemma policy_direction_deny_time:
  "policy_direction now False src dst req cp = policy_direction now' False src dst req cp"
  by (simp add: policy_direction_def match_policy_conditions_deny_time [of now _ _ _ now'])

lemma match_policies_from_Inr:
  "match_policies_from now fa src dst req i cps hits = Inr hs \<longleftrightarrow>
     (\<forall>cp \<in> set cps. cp_allow cp = fa \<longrightarrow> (\<exists>d. policy_direction now fa src dst req cp = Inr d)) \<and>
     hs = hits @ List.map_filter (\<lambda>(j, cp).
        if cp_allow cp = fa
        then map_option (\<lambda>d. hit_for j d cp) (case policy_direction now fa src dst req cp of Inl _ \<Rightarrow> None | Inr d \<Rightarrow> d)
        else None)
       (List.enumerate i cps)"
proof (induction cps arbitrary: i hits)
  case (Cons cp cps)
  show ?case
  proof (cases "cp_allow cp = fa")
    case False
    then show ?thesis by (simp add: Cons.IH map_filter_simps)
  next
    case True
    show ?thesis
    proof (cases "policy_direction now fa src dst req cp")
      case (Inl f)
      with True show ?thesis by simp
    next
      case (Inr d)
      with True show ?thesis by (cases d) (simp_all add: Cons.IH map_filter_simps)
    qed
  qed
qed (simp add: map_filter_simps eq_commute)

lemma if_option_Some: "(if b then map_option f x else None) = Some y \<longleftrightarrow> b \<and> (\<exists>z. x = Some z \<and> y = f z)"
  by auto

lemma case_sum_Some: "(case r of Inl _ \<Rightarrow> None | Inr d \<Rightarrow> d) = Some z \<longleftrightarrow> r = Inr (Some z)"
  by (auto split: sum.splits)

lemma match_policies_in:
  assumes "match_policies now fa src dst req cps = Inr hs"
  shows "h \<in> set hs \<longleftrightarrow>
     (\<exists>i d. i < length cps \<and> cp_allow (cps ! i) = fa
        \<and> policy_direction now fa src dst req (cps ! i) = Inr (Some d) \<and> h = hit_for i d (cps ! i))"
proof -
  have "h \<in> set hs \<longleftrightarrow>
      (\<exists>i cp. (i, cp) \<in> set (List.enumerate 0 cps) \<and> cp_allow cp = fa \<and>
         (\<exists>d. policy_direction now fa src dst req cp = Inr (Some d) \<and> h = hit_for i d cp))"
    using assms
    by (simp add: match_policies_def match_policies_from_Inr set_map_filter Bex_def if_option_Some case_sum_Some)
  then show ?thesis by (simp add: in_set_enumerate_eq)
qed

lemma match_policies_decided:
  "(\<exists>hs. match_policies now fa src dst req cps = Inr hs) \<longleftrightarrow>
     (\<forall>cp \<in> set cps. cp_allow cp = fa \<longrightarrow> (\<exists>d. policy_direction now fa src dst req cp = Inr d))"
  by (simp add: match_policies_def match_policies_from_Inr)

lemma match_policies_Nil_iff:
  "match_policies now fa src dst req cps = Inr [] \<longleftrightarrow>
     (\<forall>cp \<in> set cps. cp_allow cp = fa \<longrightarrow> policy_direction now fa src dst req cp = Inr None)"
  (is "?l \<longleftrightarrow> ?r")
proof
  assume l: ?l
  show ?r
  proof (intro ballI impI)
    fix cp assume cp: "cp \<in> set cps" "cp_allow cp = fa"
    then obtain d where d: "policy_direction now fa src dst req cp = Inr d"
      using l match_policies_decided [of now fa src dst req cps] by blast
    from cp(1) obtain i where "i < length cps" "cps ! i = cp" by (auto simp: in_set_conv_nth)
    with match_policies_in [OF l] cp(2) d show "policy_direction now fa src dst req cp = Inr None"
      by (cases d) auto
  qed
next
  assume r: ?r
  then obtain hs where hs: "match_policies now fa src dst req cps = Inr hs"
    using match_policies_decided by blast
  have "h \<notin> set hs" for h
    using match_policies_in [OF hs, of h] r by (auto dest: nth_mem)
  with hs show ?l by (cases hs) auto
qed

text \<open>The only way for matching to fail is an operator outside the schema.\<close>

definition line_in_schema :: "com_policy \<Rightarrow> bool" where
  "line_in_schema cp \<longleftrightarrow>
     (\<forall>cs c. cp_client_conds cp = Some cs \<or> cp_service_conds cp = Some cs \<longrightarrow> c \<in> set cs \<longrightarrow> ae_op c \<noteq> None)"

lemma all_conditions_fault:
  "all_conditions now cs a fa = Inl f \<Longrightarrow> f = Panic \<and> (\<exists>c \<in> set cs. ae_op c = None)"
  by (induction cs) (auto simp: bind_def match_condition_to_actor_def split: sum.splits if_splits option.splits)

lemma match_policy_conditions_fault:
  "match_policy_conditions now cl sv cp fa = Inl f \<Longrightarrow> f = Panic \<and> \<not> line_in_schema cp"
  by (auto simp: match_policy_conditions_def line_in_schema_def bind_def dest!: all_conditions_fault
      split: sum.splits option.splits if_splits)

lemma policy_direction_fault:
  "policy_direction now fa src dst req cp = Inl f \<Longrightarrow> f = Panic \<and> \<not> line_in_schema cp"
  by (auto simp: policy_direction_def bind_def dest!: match_policy_conditions_fault split: if_splits sum.splits)

lemma match_policies_from_fault:
  "match_policies_from now fa src dst req i cps hits = Inl f \<Longrightarrow> f = Panic \<and>
     (\<exists>cp \<in> set cps. cp_allow cp = fa \<and> policy_direction now fa src dst req cp = Inl Panic)"
  by (induction cps arbitrary: i hits)
    (auto simp: bind_def dest: policy_direction_fault split: if_splits sum.splits option.splits)

lemma match_policies_fault:
  "match_policies now fa src dst req cps = Inl f \<Longrightarrow> f = Panic \<and>
     (\<exists>cp \<in> set cps. cp_allow cp = fa \<and> policy_direction now fa src dst req cp = Inl Panic)"
  unfolding match_policies_def by (rule match_policies_from_fault)

lemma hit_for_simps [simp]:
  "match_idx (hit_for i d cp) = i"
  "hit_direction (hit_for i d cp) = d"
  by (auto simp: hit_for_def new_with_signal_def new_no_signal_def split: option.splits)

definition supported :: "packet_desc \<Rightarrow> bool" where
  "supported req \<longleftrightarrow> protocol req = TCP \<or> protocol req = UDP \<or> protocol req = IPV6_ICMP"

definition com_policies :: "policy \<Rightarrow> com_policy list" where
  "com_policies p =
     (case policy_rdr p of
        None \<Rightarrow> []
      | Some m \<Rightarrow> (case pm_com_policies m of None \<Rightarrow> [] | Some cps \<Rightarrow> cps))"

definition in_schema :: "policy \<Rightarrow> bool" where
  "in_schema p \<longleftrightarrow> (\<forall>cp \<in> set (com_policies p). line_in_schema cp)"

lemma match_policies_total:
  "in_schema p \<Longrightarrow> \<exists>hs. match_policies now fa src dst req (com_policies p) = Inr hs"
  using policy_direction_fault unfolding match_policies_decided in_schema_def by (metis sum.exhaust)

lemma match_policies_empty [simp]: "match_policies now fa src dst req [] = Inr []"
  by (simp add: match_policies_def)

lemma eval_request_unfold:
  assumes "supported req"
  shows "\<exists>m. eval_request now p src dst req =
     bind (match_policies now False src dst req (com_policies p)) (\<lambda>denies.
       if denies \<noteq> [] then Inr (Deny (DenyHits denies))
       else bind (match_policies now True src dst req (com_policies p)) (\<lambda>allows.
              if allows \<noteq> [] then Inr (AllowWithoutRoute allows) else Inr (Deny (NoMatch m))))"
proof (cases "policy_rdr p")
  case None
  with assms show ?thesis
    by (simp add: eval_request_def supported_def com_policies_def deny_no_match_def)
next
  case (Some q)
  show ?thesis
  proof (cases "pm_com_policies q")
    case None
    with Some assms show ?thesis
      by (simp add: eval_request_def supported_def com_policies_def deny_no_match_def)
  next
    case (Some cps)
    with \<open>policy_rdr p = Some q\<close> assms show ?thesis
      by (intro exI [of _ "''no matching policy''"])
        (simp add: eval_request_def supported_def com_policies_def deny_no_match_def allow_hits_def deny_hits_def
          cong: if_cong)
  qed
qed

lemma eval_request_Allow_iff:
  "eval_request now p src dst req = Inr (AllowWithoutRoute hits) \<longleftrightarrow>
     supported req \<and> match_policies now False src dst req (com_policies p) = Inr []
     \<and> match_policies now True src dst req (com_policies p) = Inr hits \<and> hits \<noteq> []"
proof (cases "supported req")
  case True
  from eval_request_unfold [OF this] obtain m where "eval_request now p src dst req =
     bind (match_policies now False src dst req (com_policies p)) (\<lambda>denies.
       if denies \<noteq> [] then Inr (Deny (DenyHits denies))
       else bind (match_policies now True src dst req (com_policies p)) (\<lambda>allows.
              if allows \<noteq> [] then Inr (AllowWithoutRoute allows) else Inr (Deny (NoMatch m))))"
    by blast
  with True show ?thesis by (auto simp: bind_Inr_iff split: if_splits)
qed (simp add: eval_request_def supported_def)

lemma eval_request_DenyHits_iff:
  "eval_request now p src dst req = Inr (Deny (DenyHits hits)) \<longleftrightarrow>
     supported req \<and> match_policies now False src dst req (com_policies p) = Inr hits \<and> hits \<noteq> []"
proof (cases "supported req")
  case True
  from eval_request_unfold [OF this] obtain m where "eval_request now p src dst req =
     bind (match_policies now False src dst req (com_policies p)) (\<lambda>denies.
       if denies \<noteq> [] then Inr (Deny (DenyHits denies))
       else bind (match_policies now True src dst req (com_policies p)) (\<lambda>allows.
              if allows \<noteq> [] then Inr (AllowWithoutRoute allows) else Inr (Deny (NoMatch m))))"
    by blast
  with True show ?thesis by (auto simp: bind_Inr_iff split: if_splits)
qed (simp add: eval_request_def supported_def)

lemma port_bits [simp]: "TCP \<noteq> UDP" "UDP \<noteq> TCP" "TCP \<noteq> IPV6_ICMP" "IPV6_ICMP \<noteq> TCP" "UDP \<noteq> IPV6_ICMP" "IPV6_ICMP \<noteq> UDP"
  by (simp_all add: TCP_def UDP_def IPV6_ICMP_def)

subsection \<open>Lemmas: approving connections\<close>

definition claim_ok :: "attribute \<Rightarrow> bool" where
  "claim_ok at \<longleftrightarrow>
     (at_key at = ZPR_ADDR \<longrightarrow> parse_ip (first_value at) \<noteq> None) \<and> (at_key at = ROLE \<longrightarrow> role_ok at)"

lemma add_attribute_ok_iff: "(\<exists>a'. add_attribute at a = Inr a') \<longleftrightarrow> claim_ok at"
  by (auto simp: add_attribute_def claim_ok_def role_ok_def split: option.splits)

lemma add_attribute_other:
  "at_key at \<noteq> ZPR_ADDR \<Longrightarrow> (at_key at = ROLE \<Longrightarrow> role_ok at) \<Longrightarrow>
     add_attribute at a = Inr (a\<lparr>attrs := hm_insert (at_key at) at (attrs a)\<rparr>)"
  by (auto simp: add_attribute_def role_ok_def)

lemma commit_claims_wf [wf_intros]: "actor_wf a \<Longrightarrow> actor_wf (commit_claims ats a)"
  by (induction ats arbitrary: a) (auto intro: actor_wf_add_attribute split: sum.splits)

lemma commit_claims_identity [simp]: "identity_keys (commit_claims ats a) = identity_keys a"
  by (induction ats arbitrary: a) (auto simp: add_attribute_identity split: sum.splits)

lemma commit_claims_get:
  "hm_get (attrs (commit_claims ats a)) k =
     (case filter (\<lambda>at. at_key at = k \<and> claim_ok at) ats of
        [] \<Rightarrow> hm_get (attrs a) k | xs \<Rightarrow> Some (last xs))"
proof (induction ats arbitrary: a)
  case (Cons at ats)
  show ?case
  proof (cases "claim_ok at")
    case True
    then obtain a' where a': "add_attribute at a = Inr a'" using add_attribute_ok_iff by blast
    then have "hm_get (attrs a') k = (if k = at_key at then Some at else hm_get (attrs a) k)"
      by (simp add: add_attribute_attrs)
    with Cons.IH [of a'] a' True show ?thesis by (auto split: list.splits)
  next
    case False
    then obtain e where "add_attribute at a = Inl e"
      by (metis add_attribute_ok_iff sum.exhaust)
    with Cons.IH [of a] False show ?thesis by simp
  qed
qed simp

lemma commit_claims_from_claims:
  assumes "hm_get (attrs (commit_claims ats actor_new)) k = Some at"
  shows "at \<in> set ats \<and> at_key at = k \<and> claim_ok at"
proof -
  have "filter (\<lambda>at. at_key at = k \<and> claim_ok at) ats \<noteq> [] \<and>
      at = last (filter (\<lambda>at. at_key at = k \<and> claim_ok at) ats)"
    using assms by (auto simp: commit_claims_get actor_new_def split: list.splits)
  then have "at \<in> set (filter (\<lambda>at. at_key at = k \<and> claim_ok at) ats)"
    by (metis last_in_set)
  then show ?thesis by simp
qed

lemma add_identity_keys_result:
  "\<exists>ks'. add_identity_keys ks a = Inr (a\<lparr>identity_keys := ks'\<rparr>) \<and>
     set ks' = set (identity_keys a) \<union> {k \<in> set ks. has_attribute_named a k}"
proof (induction ks arbitrary: a)
  case Nil
  show ?case by (intro exI [of _ "identity_keys a"]) simp
next
  case (Cons k ks)
  show ?case
  proof (cases "has_attribute_named a k")
    case True
    then obtain l where l: "add_identity_key USIZE_MAX k a = Inr (a\<lparr>identity_keys := l\<rparr>)"
      and set_l: "set l = insert k (set (identity_keys a))"
      using add_identity_key_result by blast
    have named: "has_attribute_named (a\<lparr>identity_keys := l\<rparr>) x = has_attribute_named a x" for x
      by (simp add: has_attribute_named_def)
    obtain ks' where "add_identity_keys ks (a\<lparr>identity_keys := l\<rparr>) = Inr (a\<lparr>identity_keys := ks'\<rparr>)"
      "set ks' = set l \<union> {k \<in> set ks. has_attribute_named a k}"
      using Cons.IH [of "a\<lparr>identity_keys := l\<rparr>"] by (auto simp: named)
    with True l set_l show ?thesis by (intro exI [of _ ks']) (auto simp: unwrap_def)
  next
    case False
    with Cons.IH [of a] show ?thesis by auto
  qed
qed

lemma last_resort_identity_result:
  assumes "actor_wf a"
  shows "\<exists>a'. last_resort_identity now h a = Inr a' \<and> identity_keys a' \<noteq> [] \<and> actor_wf a'
     \<and> (\<forall>k. k \<noteq> ACTOR_HASH \<longrightarrow> hm_get (attrs a') k = hm_get (attrs a) k) \<and> zpr_addr a' = zpr_addr a"
proof (cases "identity_keys a \<noteq> [] \<or> has_attribute_named a ZPR_ADDR")
  case True
  with assms show ?thesis
    by (auto simp: last_resort_identity_def add_identity_key_def unwrap_def has_attribute_named_def
        actor_wf_def)
next
  case False
  let ?at = "build_value (''hash:'' @ u64_to_hex (h a)) (builder now ACTOR_HASH)"
  let ?a1 = "a\<lparr>attrs := hm_insert ACTOR_HASH ?at (attrs a)\<rparr>"
  have a1: "add_attribute ?at a = Inr ?a1" using add_attribute_other [of ?at a] by simp
  then have "actor_wf ?a1" using assms by (rule actor_wf_add_attribute [rotated])
  moreover have a2: "add_identity_key USIZE_MAX ACTOR_HASH ?a1 = Inr (?a1\<lparr>identity_keys := [ACTOR_HASH]\<rparr>)"
    using False by (simp add: add_identity_key_def has_attribute_named_def)
  ultimately have "actor_wf (?a1\<lparr>identity_keys := [ACTOR_HASH]\<rparr>)" by (rule actor_wf_add_identity_key)
  with False a1 a2 show ?thesis by (simp add: last_resort_identity_def unwrap_def)
qed

lemma role_attribute_ok [simp]: "at_key (role_attribute now fs) = ROLE" "role_ok (role_attribute now fs)"
  by (simp_all add: role_attribute_def role_ok_def first_value_def)

lemma vinst_attribute_key [simp]: "at_key (vinst_attribute now p) = VINST"
  by (simp add: vinst_attribute_def)

definition final_claims :: "time \<Rightarrow> policy \<Rightarrow> attribute list \<Rightarrow> attribute list option \<Rightarrow> attribute list" where
  "final_claims now p auth un =
     (let query_claims = auth @ requested_addrs un
      in if matched_addr_pin (match_join_policies now p query_claims) then query_claims else auth)"

text \<open>What an approved actor is made of: the committed claims, with role, services and policy version
  stamped over them.\<close>

lemma approve_connection_result:
  fixes now h p auth un
  defines "q \<equiv> auth @ requested_addrs un"
  defines "base \<equiv> commit_claims (final_claims now p auth un) actor_new"
  shows "\<exists>a. approve_connection now h p (Some auth) un = Inr a \<and> actor_wf a \<and> identity_keys a \<noteq> []
     \<and> (\<forall>k. k \<notin> {ROLE, SERVICES, VINST, ACTOR_HASH} \<longrightarrow> hm_get (attrs a) k = hm_get (attrs base) k)
     \<and> hm_get (attrs a) ROLE = Some (role_attribute now (flags_of (match_join_policies now p q)))
     \<and> hm_get (attrs a) SERVICES = hm_get (attrs (set_services now (join_services now p q) actor_new)) SERVICES
     \<and> hm_get (attrs a) VINST = Some (vinst_attribute now p)"
proof -
  let ?role = "role_attribute now (flags_of (match_join_policies now p q))"
  define a1 where "a1 = base\<lparr>attrs := hm_insert ROLE ?role (attrs base)\<rparr>"
  define a2 where "a2 = set_services now (join_services now p q) a1"
  define a3 where "a3 = a2\<lparr>attrs := hm_insert VINST (vinst_attribute now p) (attrs a2)\<rparr>"
  have s1: "add_attribute ?role base = Inr a1" 
    using add_attribute_other [of ?role base] by (simp add: a1_def)
  have wf_base: "actor_wf base" unfolding base_def by (intro commit_claims_wf actor_wf_new)
  have wf1: "actor_wf a1" using wf_base s1 by (rule actor_wf_add_attribute)
  have "SERVICES \<notin> set (identity_keys a1)" by (simp add: a1_def base_def actor_new_def)
  then have wf2: "actor_wf a2" using wf1 by (simp add: a2_def actor_wf_set_services)
  have s3: "add_attribute (vinst_attribute now p) a2 = Inr a3" 
    using add_attribute_other [of "vinst_attribute now p" a2] by (simp add: a3_def)
  have wf3: "actor_wf a3" using wf2 s3 by (rule actor_wf_add_attribute)
  obtain ks where ks: "add_identity_keys (lookup_identity_keys p) a3 = Inr (a3\<lparr>identity_keys := ks\<rparr>)"
    "set ks = set (identity_keys a3) \<union> {k \<in> set (lookup_identity_keys p). has_attribute_named a3 k}"
    using add_identity_keys_result by blast
  have "actor_wf (a3\<lparr>identity_keys := ks\<rparr>)"
    using wf3 ks(2) by (auto simp: actor_wf_def has_attribute_named_def)
  from last_resort_identity_result [OF this, of now h] obtain a where a:
    "last_resort_identity now h (a3\<lparr>identity_keys := ks\<rparr>) = Inr a" "identity_keys a \<noteq> []" "actor_wf a"
    "\<forall>k. k \<noteq> ACTOR_HASH \<longrightarrow> hm_get (attrs a) k = hm_get (attrs a3) k"
    by auto
  have "approve_connection now h p (Some auth) un = Inr a"
    using s1 s3 ks(1) a(1)
    by (simp add: approve_connection_def Let_def unwrap_def base_def q_def final_claims_def a2_def)
  with a show ?thesis
    by (simp add: a3_def a2_def a1_def set_services_get)
qed

lemma approve_connectionE:
  assumes "approve_connection now h p auth un = Inr a"
  obtains au where "auth = Some au" "actor_wf a" "identity_keys a \<noteq> []"
    "\<And>k. k \<notin> {ROLE, SERVICES, VINST, ACTOR_HASH} \<Longrightarrow>
       hm_get (attrs a) k = hm_get (attrs (commit_claims (final_claims now p au un) actor_new)) k"
    "hm_get (attrs a) ROLE =
       Some (role_attribute now (flags_of (match_join_policies now p (au @ requested_addrs un))))"
    "hm_get (attrs a) SERVICES =
       hm_get (attrs (set_services now (join_services now p (au @ requested_addrs un)) actor_new)) SERVICES"
    "hm_get (attrs a) VINST = Some (vinst_attribute now p)"
proof -
  obtain au where au: "auth = Some au"
    using assms by (cases auth) (auto simp: approve_connection_def)
  from approve_connection_result [of now h p au un] assms au show thesis
    by (intro that [OF au]) auto
qed

lemma flags_of_iff: "f \<in> flags_of jps \<longleftrightarrow> (\<exists>jp \<in> set jps. f \<in> jp_flags jp)"
proof -
  have "f \<in> foldl (\<lambda>fs jp. fs \<union> jp_flags jp) S jps \<longleftrightarrow> f \<in> S \<or> (\<exists>jp \<in> set jps. f \<in> jp_flags jp)" for S
    by (induction jps arbitrary: S) auto
  then show ?thesis by (simp add: flags_of_def)
qed

lemma is_node_role:
  assumes "hm_get (attrs a) ROLE = Some (role_attribute now fs)"
  shows "is_node a \<longleftrightarrow> IsNode \<in> fs" and "get_role a = (if IsNode \<in> fs then Node else Adapter)"
  using assms by (simp_all add: is_node_def get_role_def single_def role_attribute_def)

lemma requested_addrs_key: "at \<in> set (requested_addrs un) \<Longrightarrow> at_key at = ZPR_ADDR"
  by (auto simp: requested_addrs_def split: option.splits)

subsection \<open>Properties: evaluating requests\<close>

definition demo_line :: com_policy where
  "demo_line = \<lparr>cp_allow = True, cp_service_id = ''database'',
     cp_scope = [\<lparr>sc_protocol = TCP, sc_port = Port 80, sc_flag = None\<rparr>],
     cp_client_conds = Some [\<lparr>ae_key = ''user.color'', ae_op = Some Eq, ae_value = Some [''red'']\<rparr>],
     cp_service_conds = None, cp_signal = None, cp_zpl = ''allow red users to access databases''\<rparr>"

definition demo_policy :: policy where
  "demo_policy = new_empty\<lparr>policy_rdr := Some
     \<lparr>pm_com_policies = Some [demo_line], pm_join_policies = None, pm_keys = None,
      pm_trusted_services = None, pm_topology = None\<rparr>\<rparr>"

definition demo_client :: actor where
  "demo_client = actor_new\<lparr>attrs := [(''user.color'', attribute_new ''user.color'' [''red''] 100 SOURCE_ZPR)]\<rparr>"

definition demo_server :: actor where
  "demo_server = actor_new\<lparr>attrs := [(SERVICES, attribute_new SERVICES [''database''] 100 SOURCE_ZPR)]\<rparr>"

definition demo_request :: packet_desc where
  "demo_request = \<lparr>source_addr = V4 1, dest_addr = V4 2, protocol = TCP, source_port = 12345, dest_port = 80\<rparr>"

definition swap_packet :: "packet_desc \<Rightarrow> packet_desc" where
  "swap_packet r = \<lparr>source_addr = dest_addr r, dest_addr = source_addr r, protocol = protocol r,
     source_port = dest_port r, dest_port = source_port r\<rparr>"

lemmas demo_defs = demo_line_def demo_policy_def demo_client_def demo_server_def demo_request_def
  new_empty_def actor_new_def

lemma demo_direction: "policy_direction 50 True demo_client demo_server demo_request demo_line = Inr (Some Forward)"
  by (simp add: policy_direction_def demo_defs policy_scope_matches_def scope_matches_def Let_def
      provides_def value_has_def match_policy_conditions_def match_condition_to_actor_def
      condition_holds_def cond_value_def get_attribute_def is_expired_def has_attribute_value_def
      is_single_value_def TCP_def IPV6_ICMP_def UDP_def)

lemma demo_in_schema: "in_schema demo_policy"
  by (auto simp: in_schema_def com_policies_def line_in_schema_def demo_policy_def demo_line_def)

lemma demo_allowed:
  "eval_request 50 demo_policy demo_client demo_server demo_request =
     Inr (AllowWithoutRoute [new_no_signal 0 Forward])"
proof -
  have cps: "com_policies demo_policy = [demo_line]" by (simp add: com_policies_def demo_policy_def)
  have line: "cp_allow demo_line" "cp_signal demo_line = None" by (simp_all add: demo_line_def)
  have "match_policies 50 False demo_client demo_server demo_request [demo_line] = Inr []"
    using line by (simp add: match_policies_def)
  moreover have "match_policies 50 True demo_client demo_server demo_request [demo_line] =
      Inr [new_no_signal 0 Forward]"
    using line demo_direction by (simp add: match_policies_def hit_for_def)
  ultimately show ?thesis
    unfolding eval_request_Allow_iff cps by (simp add: supported_def demo_request_def)
qed

text \<open>C2. Evaluating a request gives a decision or panics, and it panics only where a line of the policy has a condition
  whose operator is outside the schema and matching reaches it. A decision is an allow exactly of the allow lines that
  apply, and then no deny line applies; it is a deny with hits exactly of the deny lines that apply; it
  is a no-match only where the protocol is unsupported or no line applies. It never asks for a route.\<close>

theorem eval_request_decides:
  "case eval_request now p src dst req of
     Inl f \<Rightarrow> f = Panic \<and> supported req
       \<and> (\<exists>cp \<in> set (com_policies p). policy_direction now (cp_allow cp) src dst req cp = Inl Panic \<and> \<not> line_in_schema cp)
   | Inr (AllowWithoutRoute hits) \<Rightarrow>
       supported req \<and> hits \<noteq> []
       \<and> (\<forall>cp \<in> set (com_policies p). \<not> cp_allow cp \<longrightarrow> policy_direction now False src dst req cp = Inr None)
       \<and> (\<forall>h. h \<in> set hits \<longleftrightarrow> (\<exists>i d. i < length (com_policies p) \<and> cp_allow (com_policies p ! i)
            \<and> policy_direction now True src dst req (com_policies p ! i) = Inr (Some d)
            \<and> h = hit_for i d (com_policies p ! i)))
   | Inr (Deny (DenyHits hits)) \<Rightarrow>
       supported req \<and> hits \<noteq> []
       \<and> (\<forall>h. h \<in> set hits \<longleftrightarrow> (\<exists>i d. i < length (com_policies p) \<and> \<not> cp_allow (com_policies p ! i)
            \<and> policy_direction now False src dst req (com_policies p ! i) = Inr (Some d)
            \<and> h = hit_for i d (com_policies p ! i)))
   | Inr (Deny (NoMatch _)) \<Rightarrow>
       \<not> supported req \<or>
       (\<forall>cp \<in> set (com_policies p). policy_direction now (cp_allow cp) src dst req cp = Inr None)
   | Inr (NeedsRoute _) \<Rightarrow> False"
proof (cases "supported req")
  case True
  let ?d = "match_policies now False src dst req (com_policies p)"
  let ?a = "match_policies now True src dst req (com_policies p)"
  from eval_request_unfold [OF True] obtain m where eval: "eval_request now p src dst req =
     bind ?d (\<lambda>denies. if denies \<noteq> [] then Inr (Deny (DenyHits denies))
       else bind ?a (\<lambda>allows. if allows \<noteq> [] then Inr (AllowWithoutRoute allows) else Inr (Deny (NoMatch m))))"
    by blast
  consider (faultd) f where "?d = Inl f" | (deny) hs where "?d = Inr hs" "hs \<noteq> []"
    | (faulta) f where "?d = Inr []" "?a = Inl f" | (allow) hs where "?d = Inr []" "?a = Inr hs" "hs \<noteq> []"
    | (none) "?d = Inr []" "?a = Inr []"
    by (cases ?d; cases ?a) auto
  then show ?thesis
  proof cases
    case faultd
    with match_policies_fault [OF faultd] True policy_direction_fault show ?thesis
      unfolding eval by simp (metis (full_types))
  next
    case deny
    with True match_policies_in [OF deny(1)] show ?thesis by (simp add: eval)
  next
    case faulta
    with match_policies_fault [OF faulta(2)] True policy_direction_fault show ?thesis
      unfolding eval by simp (metis (full_types))
  next
    case allow
    with True match_policies_in [OF allow(2)] match_policies_Nil_iff [THEN iffD1, OF allow(1)] show ?thesis
      by (simp add: eval)
  next
    case none
    have "policy_direction now (cp_allow cp) src dst req cp = Inr None" if "cp \<in> set (com_policies p)" for cp
      using none that by (cases "cp_allow cp") (auto simp: match_policies_Nil_iff)
    with none show ?thesis by (simp add: eval)
  qed
qed (simp add: eval_request_def supported_def)

theorem eval_request_decides_witness:
  "\<exists>hits. eval_request 50 demo_policy demo_client demo_server demo_request = Inr (AllowWithoutRoute hits)
     \<and> hits \<noteq> [] \<and> supported demo_request"
  using eval_request_decides [where now = 50 and p = demo_policy and src = demo_client and dst = demo_server
    and req = demo_request] demo_allowed by simp

text \<open>C3. A deny overrides every allow: if one deny line of the policy applies to a supported request, the
  request is never allowed, and where the operators of the policy are in the schema the
  decision is a deny that names the line, whatever else the policy says.\<close>

theorem deny_overrides_allow:
  assumes "supported req" "i < length (com_policies p)" "\<not> cp_allow (com_policies p ! i)"
    and "policy_direction now False src dst req (com_policies p ! i) = Inr (Some d)"
  shows "(\<forall>hits. eval_request now p src dst req \<noteq> Inr (AllowWithoutRoute hits)) \<and>
    (in_schema p \<longrightarrow> (\<exists>hits. eval_request now p src dst req = Inr (Deny (DenyHits hits))
       \<and> hit_for i d (com_policies p ! i) \<in> set hits))"
proof (intro conjI allI impI)
  fix hits
  show "eval_request now p src dst req \<noteq> Inr (AllowWithoutRoute hits)"
    using assms by (auto simp: eval_request_Allow_iff match_policies_Nil_iff dest: nth_mem)
next
  assume "in_schema p"
  then obtain hs where hs: "match_policies now False src dst req (com_policies p) = Inr hs"
    using match_policies_total by blast
  have "hit_for i d (com_policies p ! i) \<in> set hs"
    using assms match_policies_in [OF hs] by auto
  with hs assms(1) show "\<exists>hits. eval_request now p src dst req = Inr (Deny (DenyHits hits))
       \<and> hit_for i d (com_policies p ! i) \<in> set hits"
    by (cases hs) (auto simp: eval_request_DenyHits_iff)
qed

definition demo_deny_policy :: policy where
  "demo_deny_policy = new_empty\<lparr>policy_rdr := Some
     \<lparr>pm_com_policies = Some [demo_line, demo_line\<lparr>cp_allow := False\<rparr>], pm_join_policies = None,
      pm_keys = None, pm_trusted_services = None, pm_topology = None\<rparr>\<rparr>"

text \<open>C9. Time never grants: a request that is allowed at some time was allowed at every earlier time, on
  at least the same hits, or its evaluation panicked there on an operator outside the schema. Deny lines do
  not depend on time at all.\<close>

theorem expiry_never_grants_access:
  assumes "eval_request now' p src dst req = Inr (AllowWithoutRoute hits)" "now \<le> now'"
  shows "(\<exists>hits'. eval_request now p src dst req = Inr (AllowWithoutRoute hits') \<and> set hits \<subseteq> set hits') \<or>
    (eval_request now p src dst req = Inl Panic \<and> \<not> in_schema p)"
proof -
  let ?a = "match_policies now True src dst req (com_policies p)"
  from assms(1) have h: "supported req" "match_policies now' False src dst req (com_policies p) = Inr []"
    "match_policies now' True src dst req (com_policies p) = Inr hits" "hits \<noteq> []"
    by (auto simp: eval_request_Allow_iff)
  have denies: "match_policies now False src dst req (com_policies p) = Inr []"
    using h(2) unfolding match_policies_Nil_iff by (simp add: policy_direction_deny_time [of now' _ _ _ _ now])
  show ?thesis
  proof (cases ?a)
    case (Inl f)
    with match_policies_fault [OF Inl] match_policies_total [of p now True src dst req] denies
      eval_request_unfold [OF h(1), of now p src dst]
    show ?thesis by auto
  next
    case (Inr hs)
    have sub: "set hits \<subseteq> set hs"
      using policy_direction_antimono [OF _ assms(2)] match_policies_in [OF h(3)] match_policies_in [OF Inr]
      by blast
    with h(4) have "hs \<noteq> []" by (cases hs) auto
    with h(1) denies Inr sub show ?thesis by (auto simp: eval_request_Allow_iff)
  qed
qed

theorem expiry_never_grants_access_witness:
  "\<exists>hits'. eval_request 20 demo_policy demo_client demo_server demo_request = Inr (AllowWithoutRoute hits')"
  using expiry_never_grants_access [OF demo_allowed, of 20] by (auto simp: demo_in_schema)

text \<open>C16. Conditions fail closed: a line that applies to a request as an allow applies to it as a deny as
  well, in the same direction and at any time. An unsupported or valueless condition, or an expired
  attribute, can only make an allow line lose, never a deny line.\<close>

theorem conditions_fail_closed:
  assumes "policy_direction now True src dst req cp = Inr (Some d)"
  shows "policy_direction now' False src dst req cp = Inr (Some d)"
  using assms by (rule policy_direction_allow_deny)

theorem conditions_fail_closed_witness:
  "policy_direction 500 False demo_client demo_server demo_request demo_line = Inr (Some Forward)"
  by (rule conditions_fail_closed [OF demo_direction])

lemma demo_deny_direction:
  "policy_direction 500 False demo_client demo_server demo_request (demo_line\<lparr>cp_allow := False\<rparr>) = Inr (Some Forward)"
proof -
  have "policy_direction now fa a b r (cp\<lparr>cp_allow := x\<rparr>) = policy_direction now fa a b r cp" for now fa a b r cp x
    by (simp add: policy_direction_def policy_scope_matches_def match_policy_conditions_def cong: if_cong)
  then show ?thesis by (simp add: policy_direction_allow_deny [OF demo_direction])
qed

lemma demo_deny_in_schema: "in_schema demo_deny_policy"
  by (auto simp: in_schema_def com_policies_def line_in_schema_def demo_deny_policy_def demo_line_def)

theorem deny_overrides_allow_witness:
  "\<exists>hits. eval_request 500 demo_deny_policy demo_client demo_server demo_request = Inr (Deny (DenyHits hits))"
proof -
  have cps: "com_policies demo_deny_policy = [demo_line, demo_line\<lparr>cp_allow := False\<rparr>]"
    by (simp add: com_policies_def demo_deny_policy_def)
  have "supported demo_request" by (simp add: supported_def demo_request_def)
  then show ?thesis
    using deny_overrides_allow [of demo_request 1 demo_deny_policy 500 demo_client demo_server Forward]
    by (auto simp: cps demo_deny_direction demo_deny_in_schema)
qed

lemma scope_matches_swap:
  assumes "protocol req = TCP" "scope_matches req sc MatchForward"
  shows "scope_matches (swap_packet req) sc MatchReverse"
  using assms by (auto simp: scope_matches_def swap_packet_def Let_def split: scope_port.splits if_splits)

text \<open>C18. Replies follow requests: where a line lets a TCP request through in the forward direction and the
  client does not itself provide the service, the same line applies to the reply (the packet with its
  ends swapped) in the reverse direction, with the same conditions.\<close>

theorem tcp_reply_matches_in_reverse:
  assumes "protocol req = TCP" "policy_direction now allows client server req cp = Inr (Some Forward)"
    and "\<not> provides client (cp_service_id cp)"
  shows "policy_direction now allows server client (swap_packet req) cp = Inr (Some Reverse)"
proof -
  from assms(2) have f: "policy_scope_matches req cp MatchForward" "provides server (cp_service_id cp)"
    "match_policy_conditions now client server cp allows = Inr True"
    by (auto simp: policy_direction_hit split: if_splits)
  then have "policy_scope_matches (swap_packet req) cp MatchReverse"
    using scope_matches_swap [OF assms(1)] by (auto simp: policy_scope_matches_def list_ex_iff)
  with f assms(3) show ?thesis by (simp add: policy_direction_hit)
qed

theorem tcp_reply_matches_in_reverse_witness:
  "policy_direction 50 True demo_server demo_client (swap_packet demo_request) demo_line = Inr (Some Reverse)"
  by (rule tcp_reply_matches_in_reverse [OF _ demo_direction])
    (simp_all add: demo_defs provides_def SERVICES_def)

text \<open>A one-way UDP service never answers: where every scope of a line is flagged one-way, the line
  gives no reverse hit for a UDP packet.\<close>

theorem udp_one_way_never_reverses:
  assumes "protocol req = UDP" "\<forall>sc \<in> set (cp_scope cp). sc_flag sc = Some UdpOneWay"
  shows "policy_direction now allows src dst req cp \<noteq> Inr (Some Reverse)"
proof -
  have "\<not> scope_matches req sc MatchReverse" if "sc \<in> set (cp_scope cp)" for sc
    using assms that by (simp add: scope_matches_def Let_def)
  then have "\<not> policy_scope_matches req cp MatchReverse"
    by (auto simp: policy_scope_matches_def list_ex_iff)
  then show ?thesis by (simp add: policy_direction_hit)
qed

theorem udp_one_way_never_reverses_witness:
  "policy_direction 0 True demo_server demo_client (demo_request\<lparr>protocol := UDP\<rparr>)
     (demo_line\<lparr>cp_scope := [\<lparr>sc_protocol = UDP, sc_port = Port 80, sc_flag = Some UdpOneWay\<rparr>]\<rparr>) \<noteq> Inr (Some Reverse)"
  by (rule udp_one_way_never_reverses) simp_all

text \<open>C17. Every hit of an allow gives a visa: for a request that was allowed (by a policy whose number
  of lines fits 32 bits) the visa properties of each hit exist. They carry the addresses and the protocol of the
  request; the port of the service end is the request's, and the port of the client end is the request's
  or, for a port above 1023, the wildcard 0.\<close>

theorem allowed_hit_gives_visa:
  assumes "eval_request now p src dst req = Inr (AllowWithoutRoute hits)" "h \<in> set hits"
    and "length (com_policies p) < 2 ^ 32"
  shows "\<exists>v. visa_info_for_hit p h req = Inr v
    \<and> vp_source_addr v = source_addr req \<and> vp_dest_addr v = dest_addr req \<and> vp_protocol v = protocol req
    \<and> vp_zpl v = cp_zpl (com_policies p ! match_idx h)
    \<and> (protocol req = IPV6_ICMP \<longrightarrow> vp_source_port v = source_port req \<and> vp_dest_port v = dest_port req)
    \<and> (protocol req \<noteq> IPV6_ICMP \<longrightarrow> hit_direction h = Forward \<longrightarrow> vp_dest_port v = dest_port req
         \<and> vp_source_port v = (if source_port req > 1023 then 0 else source_port req))
    \<and> (protocol req \<noteq> IPV6_ICMP \<longrightarrow> hit_direction h = Reverse \<longrightarrow> vp_source_port v = source_port req
         \<and> vp_dest_port v = (if dest_port req > 1023 then 0 else dest_port req))"
proof -
  from assms(1,2) obtain i d where i: "i < length (com_policies p)" "cp_allow (com_policies p ! i)"
    "h = hit_for i d (com_policies p ! i)" and sup: "supported req"
    by (auto simp: eval_request_Allow_iff dest: match_policies_in [THEN iffD1])
  then obtain m where m: "policy_rdr p = Some m"
    "com_policies p = (case pm_com_policies m of None \<Rightarrow> [] | Some cps \<Rightarrow> cps)"
    by (cases "policy_rdr p") (auto simp: com_policies_def)
  have "get_at (com_policies p) (match_idx h mod 2 ^ 32) = Some (com_policies p ! i)"
    using i assms(3) by (simp add: get_at_def)
  moreover from sup obtain sp dp where "match_ports h req = Some (sp, dp)"
    by (cases "hit_direction h") (auto simp: match_ports_def supported_def)
  ultimately show ?thesis
    using i m sup
    by (cases "hit_direction h") (auto simp: visa_info_for_hit_def match_ports_def supported_def split: if_splits)
qed

theorem allowed_hit_gives_visa_witness:
  "\<exists>v. visa_info_for_hit demo_policy (new_no_signal 0 Forward) demo_request = Inr v
     \<and> vp_source_port v = 0 \<and> vp_dest_port v = 80"
  using allowed_hit_gives_visa [OF demo_allowed, of "new_no_signal 0 Forward"]
  by (auto simp: com_policies_def demo_policy_def demo_request_def new_no_signal_def TCP_def IPV6_ICMP_def)

subsection \<open>Properties: approving connections\<close>

text \<open>C11. Approval is total: authenticated claims always give an actor (none of the \<^verbatim>\<open>unwrap\<close> calls can
  panic, whatever the claims and the policy), and without authenticated claims the answer is an error.
  The actor satisfies the actor invariant, has the role Node exactly when a matched join policy makes it
  a node and Adapter otherwise, provides exactly the services of the matched join policies, and has at
  least one identity key, so its authentication expiration is never missing.\<close>

theorem approve_connection_total:
  "approve_connection now h p None un = Inl (Err (AttributeMissing ''no authenticated claims provided''))
   \<and> (\<exists>a. approve_connection now h p (Some auth) un = Inr a \<and> actor_wf a
        \<and> get_role a = (if \<exists>jp \<in> set (match_join_policies now p (auth @ requested_addrs un)). IsNode \<in> jp_flags jp
                        then Node else Adapter)
        \<and> set (services_iter a) = join_services now p (auth @ requested_addrs un)
        \<and> identity_keys a \<noteq> [] \<and> (\<exists>t. get_authentication_expiration a = Some t))"
proof -
  from approve_connection_result [of now h p auth un] obtain a where
    a: "approve_connection now h p (Some auth) un = Inr a" "actor_wf a" "identity_keys a \<noteq> []"
    and role: "hm_get (attrs a) ROLE =
      Some (role_attribute now (flags_of (match_join_policies now p (auth @ requested_addrs un))))"
    and svc: "hm_get (attrs a) SERVICES =
      hm_get (attrs (set_services now (join_services now p (auth @ requested_addrs un)) actor_new)) SERVICES"
    by blast
  have "services_iter a =
      services_iter (set_services now (join_services now p (auth @ requested_addrs un)) actor_new)"
    by (simp add: services_iter_def svc)
  then have "set (services_iter a) = join_services now p (auth @ requested_addrs un)" by simp
  moreover have "get_role a = (if \<exists>jp \<in> set (match_join_policies now p (auth @ requested_addrs un)). IsNode \<in> jp_flags jp
      then Node else Adapter)"
    using is_node_role(2) [OF role] by (simp add: flags_of_iff)
  ultimately show ?thesis
    using a get_identity_present [OF a(2,3)] by (simp add: approve_connection_def)
qed

lemma pinned_value:
  assumes "e \<in> set (jp_exps jp)" "pins_zpr_addr e" "jp_matches now jp ats"
    and "at \<in> set ats" "at_key at = ZPR_ADDR" "parse_ip (first_value at) = Some ip"
  shows "\<exists>v \<in> set (ax_value e). parse_ip v = Some ip"
proof -
  from assms have "op_holds e at" by (auto simp: jp_matches_spec exp_satisfied_def pins_zpr_addr_def)
  with assms(2) have eq: "mset (at_value at) = mset (ax_value e)"
    by (simp add: op_holds_def pins_zpr_addr_def contains_exactly_iff)
  with assms(2) have "at_value at \<noteq> []" by (auto simp: pins_zpr_addr_def)
  then have "first_value at \<in> set (at_value at)" by (cases "at_value at") (auto simp: first_value_def)
  with mset_eq_setD [OF eq] assms(6) show ?thesis by auto
qed

text \<open>C10. A requested ZPR address is a check, never a grant: the address of an approved actor is one an
  authenticated claim carries, or one of the values that a matched join policy pins with an exact
  \<open>zpr.addr\<close> expression. An address the peer merely asks for never reaches the actor.\<close>

theorem requested_address_is_never_a_grant:
  assumes "approve_connection now h p (Some auth) un = Inr a" "zpr_addr a = Some ip"
  shows "(\<exists>at \<in> set auth. at_key at = ZPR_ADDR \<and> parse_ip (first_value at) = Some ip)
    \<or> (\<exists>jp \<in> set (match_join_policies now p (auth @ requested_addrs un)). \<exists>e \<in> set (jp_exps jp).
         pins_zpr_addr e \<and> (\<exists>v \<in> set (ax_value e). parse_ip v = Some ip))"
proof -
  let ?q = "auth @ requested_addrs un"
  from assms(1) have wf: "actor_wf a" and
    get: "hm_get (attrs a) ZPR_ADDR = hm_get (attrs (commit_claims (final_claims now p auth un) actor_new)) ZPR_ADDR"
    by (auto elim!: approve_connectionE)
  from wf assms(2) obtain at where at: "hm_get (attrs a) ZPR_ADDR = Some at" "parse_ip (first_value at) = Some ip"
    by (auto simp: actor_wf_def split: option.splits)
  then have fin: "at \<in> set (final_claims now p auth un)" "at_key at = ZPR_ADDR"
    using commit_claims_from_claims get by auto
  show ?thesis
  proof (cases "at \<in> set auth")
    case True
    with fin at show ?thesis by blast
  next
    case False
    with fin have "matched_addr_pin (match_join_policies now p ?q)" and q: "at \<in> set ?q"
      by (auto simp: final_claims_def Let_def split: if_splits)
    then obtain jp e where "jp \<in> set (match_join_policies now p ?q)" "e \<in> set (jp_exps jp)" "pins_zpr_addr e"
      by (auto simp: matched_addr_pin_def list_ex_iff)
    moreover from this q fin(2) at(2) have "\<exists>v \<in> set (ax_value e). parse_ip v = Some ip"
      by (intro pinned_value) (auto simp: match_join_policies_eq)
    ultimately show ?thesis by blast
  qed
qed

definition addr_claim :: attribute where
  "addr_claim = attribute_new ZPR_ADDR [''::7''] 100 SOURCE_ZPR"

definition pin_policy :: policy where
  "pin_policy = new_empty\<lparr>join_policies := [\<lparr>jp_exps = [\<lparr>ax_key = CN, ax_op = Eq, ax_value = [''db1'']\<rparr>,
     \<lparr>ax_key = ZPR_ADDR, ax_op = Eq, ax_value = [''::7'']\<rparr>], jp_flags = {}, jp_services = None\<rparr>]\<rparr>"

lemma pin_policy_approves:
  "\<exists>a. approve_connection 50 (\<lambda>_. 0) pin_policy (Some [cn_claim]) (Some [addr_claim]) = Inr a
     \<and> zpr_addr a = Some (V6 7)"
proof -
  have "case approve_connection 50 (\<lambda>_. 0) pin_policy (Some [cn_claim]) (Some [addr_claim]) of
      Inr a \<Rightarrow> zpr_addr a = Some (V6 7) | Inl _ \<Rightarrow> False"
    by code_simp
  then show ?thesis by (auto split: sum.splits)
qed

theorem requested_address_is_never_a_grant_witness:
  "\<exists>jp \<in> set (join_policies pin_policy). \<exists>e \<in> set (jp_exps jp). pins_zpr_addr e"
proof -
  obtain a where "approve_connection 50 (\<lambda>_. 0) pin_policy (Some [cn_claim]) (Some [addr_claim]) = Inr a"
    "zpr_addr a = Some (V6 7)"
    using pin_policy_approves by blast
  from requested_address_is_never_a_grant [OF this] show ?thesis
    by (auto simp: match_join_policies_eq cn_claim_def)
qed

text \<open>C12. Nothing unauthenticated becomes an attribute: apart from the role, the services, the policy
  version and the last-resort hash that approval stamps itself, every attribute of an approved actor is an
  authenticated claim, or the requested \<open>zpr.addr\<close> claim where a matched join policy pins the address.\<close>

theorem approved_attributes_are_authenticated:
  assumes "approve_connection now h p (Some auth) un = Inr a" "get_attribute a k = Some at"
    and "k \<notin> {ROLE, SERVICES, VINST, ACTOR_HASH}"
  shows "at \<in> set auth
    \<or> (k = ZPR_ADDR \<and> at \<in> set (requested_addrs un)
        \<and> matched_addr_pin (match_join_policies now p (auth @ requested_addrs un)))"
proof -
  from assms have "hm_get (attrs (commit_claims (final_claims now p auth un) actor_new)) k = Some at"
    by (auto elim!: approve_connectionE simp: get_attribute_def)
  then have "at \<in> set (final_claims now p auth un)" "at_key at = k"
    using commit_claims_from_claims by auto
  then show ?thesis
    by (auto simp: final_claims_def Let_def requested_addrs_key split: if_splits)
qed

theorem approved_attributes_are_authenticated_witness:
  "\<exists>a at. approve_connection 50 (\<lambda>_. 0) cn_only_policy (Some [cn_claim]) (Some [addr_claim]) = Inr a
     \<and> get_attribute a CN = Some at \<and> at \<in> set [cn_claim]"
proof -
  have "case approve_connection 50 (\<lambda>_. 0) cn_only_policy (Some [cn_claim]) (Some [addr_claim]) of
      Inr a \<Rightarrow> get_attribute a CN = Some cn_claim | Inl _ \<Rightarrow> False"
    by code_simp
  then obtain a where a: "approve_connection 50 (\<lambda>_. 0) cn_only_policy (Some [cn_claim]) (Some [addr_claim]) = Inr a"
    "get_attribute a CN = Some cn_claim" by (auto split: sum.splits)
  with approved_attributes_are_authenticated [OF a] show ?thesis by auto
qed

lemma attrs_iter_with_key:
  assumes "actor_wf a"
  shows "{at \<in> set (attrs_iter a). at_key at = k} = set_option (hm_get (attrs a) k)"
proof -
  have "at \<in> set (attrs_iter a) \<longleftrightarrow> (\<exists>k. hm_get (attrs a) k = Some at)" for at
    using assms by (force simp: attrs_iter_def actor_wf_def simp flip: hm_entry_iff)
  moreover have "at_key at = k" if "hm_get (attrs a) k = Some at" for k at
    using assms that by (auto simp: actor_wf_def)
  ultimately show ?thesis by (auto simp: set_eq_iff)
qed

lemma exp_satisfied_by_key:
  assumes "{at \<in> A. at_key at = ax_key e} = {at \<in> B. at_key at = ax_key e}"
  shows "exp_satisfied now e A = exp_satisfied now e B"
proof -
  have "exp_satisfied now e S \<longleftrightarrow>
      (\<forall>at \<in> {at \<in> S. at_key at = ax_key e}. \<not> is_expired now at \<and> op_holds e at)
      \<and> ({at \<in> S. at_key at = ax_key e} \<noteq> {} \<or> (ax_op e = Excludes \<and> is_empty_value e))" for S
    by (auto simp: exp_satisfied_def)
  then show ?thesis by (simp only: assms)
qed

lemma filter_key_distinct:
  assumes "distinct (map at_key ats)" "\<forall>at \<in> set ats. claim_ok at"
  shows "set_option (hm_get (attrs (commit_claims ats actor_new)) k) = {at \<in> set ats. at_key at = k}"
proof -
  let ?f = "filter (\<lambda>at. at_key at = k \<and> claim_ok at) ats"
  have inj: "inj_on at_key (set ats)" and d: "distinct ats" using assms(1) by (simp_all add: distinct_map)
  have set_f: "set ?f = {at \<in> set ats. at_key at = k}" using assms(2) by auto
  show ?thesis
  proof (cases ?f)
    case Nil
    then show ?thesis using set_f by (simp add: commit_claims_get actor_new_def)
  next
    case (Cons x xs)
    have "set ?f \<subseteq> {x}" using Cons inj set_f by (auto dest: inj_onD)
    moreover have "distinct ?f" using d by simp
    ultimately have "xs = []" using Cons by (cases xs) auto
    with Cons set_f show ?thesis by (auto simp: commit_claims_get)
  qed
qed

text \<open>C13. What connecting grants, revalidating accepts: an actor approved on authenticated claims alone
  (one valid claim per key, no requested address) under a policy whose join expressions do not mention
  the keys that approval stamps, is accepted by \<^verbatim>\<open>approve_connected\<close> under that policy at that time.\<close>

theorem fresh_connection_stays_approved:
  assumes "approve_connection now h p (Some auth) un = Inr a" "requested_addrs un = []"
    and "distinct (map at_key auth)" "\<forall>at \<in> set auth. claim_ok at"
    and "\<forall>jp \<in> set (join_policies p). \<forall>e \<in> set (jp_exps jp). ax_key e \<notin> {ROLE, SERVICES, VINST, ACTOR_HASH}"
  shows "approve_connected now p a = Inr True"
proof -
  from assms(1,2) have wf: "actor_wf a" and
    get: "\<And>k. k \<notin> {ROLE, SERVICES, VINST, ACTOR_HASH} \<Longrightarrow>
      hm_get (attrs a) k = hm_get (attrs (commit_claims auth actor_new)) k" and
    role: "hm_get (attrs a) ROLE = Some (role_attribute now (flags_of (match_join_policies now p auth)))" and
    svc: "hm_get (attrs a) SERVICES =
      hm_get (attrs (set_services now (join_services now p auth) actor_new)) SERVICES"
    by (auto elim!: approve_connectionE simp: final_claims_def)
  have "jp_matches now jp (attrs_iter a) = jp_matches now jp auth" if "jp \<in> set (join_policies p)" for jp
  proof -
    have "exp_satisfied now e (set (attrs_iter a)) = exp_satisfied now e (set auth)" if "e \<in> set (jp_exps jp)" for e
    proof (rule exp_satisfied_by_key)
      have "ax_key e \<notin> {ROLE, SERVICES, VINST, ACTOR_HASH}"
        using assms(5) that \<open>jp \<in> set (join_policies p)\<close> by blast
      then show "{at \<in> set (attrs_iter a). at_key at = ax_key e} = {at \<in> set auth. at_key at = ax_key e}"
        using attrs_iter_with_key [OF wf] get filter_key_distinct [OF assms(3,4)] by simp
    qed
    then show ?thesis by (simp add: jp_matches_spec)
  qed
  then have same: "match_join_policies now p (attrs_iter a) = match_join_policies now p auth"
    unfolding match_join_policies_eq by (intro filter_cong refl)
  have "services_iter a = services_iter (set_services now (join_services now p auth) actor_new)"
    by (simp add: services_iter_def svc)
  then have "set (services_iter a) = services_of (match_join_policies now p auth)"
    by (simp add: join_services_def)
  then show ?thesis
    using is_node_role(1) [OF role]
    by (auto simp: approve_connected_def same Let_def list_all_iff flags_of_def)
qed

theorem fresh_connection_stays_approved_witness:
  "\<exists>a. approve_connection 50 (\<lambda>_. 0) cn_only_policy (Some [cn_claim]) None = Inr a
     \<and> approve_connected 50 cn_only_policy a = Inr True"
proof -
  obtain a where a: "approve_connection 50 (\<lambda>_. 0) cn_only_policy (Some [cn_claim]) None = Inr a"
    using approve_connection_result by blast
  have "approve_connected 50 cn_only_policy a = Inr True"
    by (rule fresh_connection_stays_approved [OF a])
      (auto simp: requested_addrs_def cn_claim_def claim_ok_def cn_only_policy_def cn_policy_def)
  with a show ?thesis by blast
qed

text \<open>The restriction on the stamped keys is needed: \<^verbatim>\<open>approve_connected\<close> matches against all attributes of the
  actor, the stamped ones included, so a policy that tests one of them can reject a node it has just
  admitted.\<close>

definition role_excluding_policy :: policy where
  "role_excluding_policy = new_empty\<lparr>join_policies := [\<lparr>jp_exps = [\<lparr>ax_key = CN, ax_op = Eq, ax_value = [''db1'']\<rparr>,
     \<lparr>ax_key = ROLE, ax_op = Excludes, ax_value = []\<rparr>], jp_flags = {IsNode}, jp_services = None\<rparr>]\<rparr>"

lemma stamped_keys_feed_back:
  "case approve_connection 50 (\<lambda>_. 0) role_excluding_policy (Some [cn_claim]) None of
     Inr a \<Rightarrow> is_node a \<and> approve_connected 50 role_excluding_policy a = Inr False
   | Inl _ \<Rightarrow> False"
  by code_simp

end
