(* ===== verification/Visa_Store.thy ===== *)
theory Visa_Store
  imports Database Evaluation
begin

text \<open>
  The visa store, \<^verbatim>\<open>vs/src/db/visa.rs\<close>: an in-memory image that answers every read, with the database behind it. A
  write goes to the database first and to the image second, both under one lock; only the purge of expired visas
  works on the image alone and can run between the two halves of a write. Each write is modelled in those two
  halves: \<open>..._io\<close> reads the image, talks to the database and yields the update of the image that is left to do,
  \<open>apply_update\<close> does it, and \<open>write_through\<close> composes them.

  The wire format of a visa (Cap'n Proto and Base64), JSON and the printing of timestamps are outside the sources:
  they are the parameter \<open>codec\<close>. The service reads two clocks, the wall clock and a monotonic one.
\<close>

subsection \<open>Errors\<close>

datatype store_error =
    StRedis redis_error
  | StMissingRequired string
  | StInvalidData string
  | StTls
  | StNotFound string
  | StAddressOccupied string
  | StSerialization
  | StAttribute actor_error
  | StCapnp
  | StVsapiType
  | StCrypto

definition from_redis :: "(redis_error, 'a) result \<Rightarrow> (store_error, 'a) result" where
  "from_redis r = (case r of Inl (Err e) \<Rightarrow> Inl (Err (StRedis e)) | Inl Panic \<Rightarrow> Inl Panic | Inr a \<Rightarrow> Inr a)"

subsection \<open>Visas\<close>

text \<open>The visa type of the VSAPI, with the fields the service fills in. Its constraints field is always empty and is
  left out.\<close>

datatype endpoint_t = EpClient | EpServer

record tcp_udp_pep =
  tp_source_port :: u16
  tp_dest_port :: u16
  tp_endpoint :: endpoint_t

datatype dock_pep_type = PepTCP tcp_udp_pep | PepUDP tcp_udp_pep | PepICMP u8 u8

record dock_pep =
  dp_pep :: dock_pep_type
  dp_source_addr :: ip_addr
  dp_dest_addr :: ip_addr
  dp_ingress_key :: string
  dp_egress_key :: string

datatype fwd_pep_style = OneWay

record fwd_pep =
  fp_next_hop :: ip_addr
  fp_style :: fwd_pep_style

datatype visa_type = FullVisa | ForwardOnly

record visa =
  issuer_id :: u64
  v_config :: u64
  v_expires :: time
  v_type :: visa_type
  v_dock_pep :: "dock_pep option"
  v_fwd_pep :: "fwd_pep option"

subsection \<open>The image and the stored records\<close>

datatype node_visa_state = PendingInstall | Installed | PendingRevoke | Revoked

record visa_metadata =
  vm_requesting_node :: ip_addr
  vm_ctime :: time
  vm_policy_version :: u64
  vm_created_vinst :: u64
  vm_checked_vinst :: u64
  vm_zpl :: string
  vm_signal_msgs :: "string list"
  vm_direction :: direction
  vm_path :: "ip_addr list option"
  vm_five_tuple :: packet_desc

record stored_node_state =
  sn_state :: node_visa_state
  sn_utime :: string
  sn_revoke_vinst :: "u64 option"

record visa_record =
  vr_blob :: string
  vr_metadata :: visa_metadata
  vr_node_states :: "(string, stored_node_state) hashmap"

record node_state =
  ns_state :: node_visa_state
  ns_revoke_vinst :: "u64 option"

type_synonym node_states = "(ip_addr, node_state) hashmap"

record visa_entry =
  ve_visa :: visa
  ve_metadata :: visa_metadata
  ve_deadline :: time
  ve_node_states :: node_states

record visa_store =
  vs_visas :: "(u64, visa_entry) hashmap"
  vs_by_node :: "(ip_addr, u64 list) hashmap"
  vs_by_actor :: "(ip_addr, u64 list) hashmap"

record 'db visa_repo =
  rp_db :: 'db
  rp_store :: visa_store
  rp_last_purge :: "time option"

record clock =
  ck_wall :: time
  ck_mono :: time

record codec =
  cd_visa_to_bytes :: "visa \<Rightarrow> (store_error, string) result"
  cd_visa_from_bytes :: "string \<Rightarrow> (store_error, visa) result"
  cd_to_json :: "visa_record \<Rightarrow> string option"
  cd_from_json :: "string \<Rightarrow> visa_record option"
  cd_timestamp :: "time \<Rightarrow> string"

definition KEY_VISA :: string where "KEY_VISA = ''visa''"
definition KEY_NEXT_VISA_ID :: string where "KEY_NEXT_VISA_ID = ''visa:next_visa_id''"

definition PURGE_MIN_INTERVAL :: time where
  "PURGE_MIN_INTERVAL = 800 * 1000000"

definition metadata_new ::
  "clock \<Rightarrow> ip_addr \<Rightarrow> u64 \<Rightarrow> u64 \<Rightarrow> string \<Rightarrow> direction \<Rightarrow> ip_addr list option \<Rightarrow> packet_desc \<Rightarrow> visa_metadata" where
  "metadata_new ck node pver vi zpl dir path pd =
     \<lparr>vm_requesting_node = node, vm_ctime = ck_wall ck, vm_policy_version = pver, vm_created_vinst = vi,
      vm_checked_vinst = vi, vm_zpl = zpl, vm_signal_msgs = [], vm_direction = dir, vm_path = path,
      vm_five_tuple = pd\<rparr>"

definition visa_key_for_visa :: "u64 \<Rightarrow> string" where
  "visa_key_for_visa i = KEY_VISA @ '':'' @ u64_to_string i"

text \<open>Whole seconds until an instant, zero when it has passed. A \<^verbatim>\<open>Duration\<close> holds no more seconds than a \<^verbatim>\<open>u64\<close>.\<close>

definition secs_between :: "time \<Rightarrow> time \<Rightarrow> u64" where
  "secs_between now t = of_int (min (2 ^ 64 - 1) (max 0 (t - now) div 1000000000))"

definition seconds_until :: "clock \<Rightarrow> time \<Rightarrow> u64" where
  "seconds_until ck t = secs_between (ck_wall ck) t"

definition remaining_secs :: "clock \<Rightarrow> time \<Rightarrow> u64" where
  "remaining_secs ck deadline = secs_between (ck_mono ck) deadline"

definition is_live :: "clock \<Rightarrow> visa_entry \<Rightarrow> bool" where
  "is_live ck e \<longleftrightarrow> remaining_secs ck (ve_deadline e) > 0"

definition live_entry :: "clock \<Rightarrow> visa_store \<Rightarrow> u64 \<Rightarrow> visa_entry option" where
  "live_entry ck st i =
     (case hm_get (vs_visas st) i of None \<Rightarrow> None | Some e \<Rightarrow> if is_live ck e then Some e else None)"

subsection \<open>Records\<close>

definition stored_of :: "codec \<Rightarrow> clock \<Rightarrow> ip_addr \<times> node_state \<Rightarrow> string \<times> stored_node_state" where
  "stored_of cd ck = (\<lambda>(a, ns). (zaddr a,
     \<lparr>sn_state = ns_state ns, sn_utime = cd_timestamp cd (ck_wall ck), sn_revoke_vinst = ns_revoke_vinst ns\<rparr>))"

definition build_record ::
  "codec \<Rightarrow> clock \<Rightarrow> visa \<Rightarrow> visa_metadata \<Rightarrow> node_states \<Rightarrow> (store_error, visa_record) result" where
  "build_record cd ck v md states =
     bind (cd_visa_to_bytes cd v) (\<lambda>blob.
       Inr \<lparr>vr_blob = blob, vr_metadata = md, vr_node_states = map (stored_of cd ck) states\<rparr>)"

fun decode_states :: "(string, stored_node_state) hashmap \<Rightarrow> node_states \<Rightarrow> (store_error, node_states) result" where
  "decode_states [] acc = Inr acc"
| "decode_states ((z, sns) # rest) acc =
     (case addr_of_zaddr z of
        None \<Rightarrow> Inl (Err (StInvalidData (''bad zaddr '' @ z)))
      | Some a \<Rightarrow>
          decode_states rest (hm_insert a \<lparr>ns_state = sn_state sns, ns_revoke_vinst = sn_revoke_vinst sns\<rparr> acc))"

definition decode_record :: "codec \<Rightarrow> clock \<Rightarrow> string \<Rightarrow> (store_error, visa_entry) result" where
  "decode_record cd ck raw =
     (case cd_from_json cd raw of
        None \<Rightarrow> Inl (Err StSerialization)
      | Some record \<Rightarrow>
          bind (cd_visa_from_bytes cd (vr_blob record)) (\<lambda>v.
          bind (decode_states (vr_node_states record) []) (\<lambda>states.
            Inr \<lparr>ve_visa = v, ve_metadata = vr_metadata record,
              ve_deadline = ck_mono ck + secs (seconds_until ck (v_expires v)), ve_node_states = states\<rparr>)))"

subsection \<open>The indexes\<close>

definition index_id :: "ip_addr \<Rightarrow> u64 \<Rightarrow> (ip_addr, u64 list) hashmap \<Rightarrow> (ip_addr, u64 list) hashmap" where
  "index_id k i ix = hm_insert k (List.insert i (case hm_get ix k of None \<Rightarrow> [] | Some xs \<Rightarrow> xs)) ix"

definition unindex_id :: "ip_addr \<Rightarrow> u64 \<Rightarrow> (ip_addr, u64 list) hashmap \<Rightarrow> (ip_addr, u64 list) hashmap" where
  "unindex_id k i ix =
     (case hm_get ix k of
        None \<Rightarrow> ix
      | Some xs \<Rightarrow> let xs' = removeAll i xs in if xs' = [] then hm_remove k ix else hm_insert k xs' ix)"

definition endpoints :: "visa_entry \<Rightarrow> ip_addr list" where
  "endpoints e = [source_addr (vm_five_tuple (ve_metadata e)), dest_addr (vm_five_tuple (ve_metadata e))]"

definition insert_entry :: "u64 \<Rightarrow> visa_entry \<Rightarrow> visa_store \<Rightarrow> visa_store" where
  "insert_entry i e st = st\<lparr>vs_visas := hm_insert i e (vs_visas st),
     vs_by_node := fold (\<lambda>n. index_id n i) (hm_keys (ve_node_states e)) (vs_by_node st),
     vs_by_actor := fold (\<lambda>a. index_id a i) (endpoints e) (vs_by_actor st)\<rparr>"

definition remove_entry :: "u64 \<Rightarrow> visa_store \<Rightarrow> visa_store" where
  "remove_entry i st =
     (case hm_get (vs_visas st) i of
        None \<Rightarrow> st
      | Some e \<Rightarrow> st\<lparr>vs_visas := hm_remove i (vs_visas st),
          vs_by_actor := fold (\<lambda>a. unindex_id a i) (endpoints e) (vs_by_actor st),
          vs_by_node := fold (\<lambda>n. unindex_id n i) (hm_keys (ve_node_states e)) (vs_by_node st)\<rparr>)"

definition unindex_node :: "ip_addr \<Rightarrow> u64 \<Rightarrow> visa_store \<Rightarrow> visa_store" where
  "unindex_node n i st = st\<lparr>vs_by_node := unindex_id n i (vs_by_node st)\<rparr>"

definition node_visas_in_state :: "clock \<Rightarrow> visa_store \<Rightarrow> ip_addr \<Rightarrow> node_visa_state \<Rightarrow> (u64 \<times> visa_entry) list" where
  "node_visas_in_state ck st n s =
     (case hm_get (vs_by_node st) n of
        None \<Rightarrow> []
      | Some ids \<Rightarrow> List.map_filter (\<lambda>i.
          case live_entry ck st i of
            None \<Rightarrow> None
          | Some e \<Rightarrow>
              (case hm_get (ve_node_states e) n of
                 None \<Rightarrow> None
               | Some ns \<Rightarrow> if ns_state ns = s then Some (i, e) else None)) ids)"

subsection \<open>Writes\<close>

text \<open>What is left to do to the image once the database has answered.\<close>

datatype visa_update =
    Insert u64 visa_entry
  | SetStates u64 "visa_metadata option" node_states
  | DropNode u64 ip_addr node_states
  | ClearNode ip_addr "u64 list"
  | Remove u64

definition modify_entry :: "u64 \<Rightarrow> (visa_entry \<Rightarrow> visa_entry) \<Rightarrow> visa_store \<Rightarrow> visa_store" where
  "modify_entry i f st =
     (case hm_get (vs_visas st) i of None \<Rightarrow> st | Some e \<Rightarrow> st\<lparr>vs_visas := hm_insert i (f e) (vs_visas st)\<rparr>)"

fun apply_update :: "visa_update \<Rightarrow> visa_store \<Rightarrow> visa_store" where
  "apply_update (Insert i e) st = insert_entry i e st"
| "apply_update (SetStates i md states) st =
     modify_entry i (\<lambda>e. e\<lparr>ve_metadata := (case md of None \<Rightarrow> ve_metadata e | Some m \<Rightarrow> m), ve_node_states := states\<rparr>) st"
| "apply_update (DropNode i n states) st =
     unindex_node n i (modify_entry i (\<lambda>e. e\<lparr>ve_node_states := states\<rparr>) st)"
| "apply_update (ClearNode n ids) st =
     fold (\<lambda>i st. unindex_node n i
       (modify_entry i (\<lambda>e. e\<lparr>ve_node_states := hm_remove n (ve_node_states e)\<rparr>) st)) ids st"
| "apply_update (Remove i) st = remove_entry i st"

type_synonym 'db visa_io = "'db \<Rightarrow> visa_store \<Rightarrow> 'db \<times> (store_error, visa_update option) result"

definition write_through :: "'db visa_io \<Rightarrow> 'db visa_repo \<Rightarrow> 'db visa_repo \<times> (store_error, bool) result" where
  "write_through io r =
     (case io (rp_db r) (rp_store r) of
        (db', Inl e) \<Rightarrow> (r\<lparr>rp_db := db'\<rparr>, Inl e)
      | (db', Inr None) \<Rightarrow> (r\<lparr>rp_db := db'\<rparr>, Inr False)
      | (db', Inr (Some u)) \<Rightarrow> (r\<lparr>rp_db := db', rp_store := apply_update u (rp_store r)\<rparr>, Inr True))"

definition record_json ::
  "codec \<Rightarrow> clock \<Rightarrow> visa \<Rightarrow> visa_metadata \<Rightarrow> node_states \<Rightarrow> (store_error, string) result" where
  "record_json cd ck v md states =
     bind (build_record cd ck v md states) (\<lambda>rec.
       case cd_to_json cd rec of None \<Rightarrow> Inl (Err StSerialization) | Some json \<Rightarrow> Inr json)"

text \<open>A rewrite of the stored record of an entry, with the time the entry has left as its time to live.\<close>

definition rewrite_record ::
  "codec \<Rightarrow> 'db db_connection \<Rightarrow> clock \<Rightarrow> u64 \<Rightarrow> visa_entry \<Rightarrow> visa_metadata \<Rightarrow> node_states \<Rightarrow> visa_update
    \<Rightarrow> 'db \<Rightarrow> 'db \<times> (store_error, visa_update option) result" where
  "rewrite_record cd conn ck i e md states u db =
     (case record_json cd ck (ve_visa e) md states of
        Inl err \<Rightarrow> (db, Inl err)
      | Inr json \<Rightarrow>
          (case db_set_ex conn (visa_key_for_visa i) json (remaining_secs ck (ve_deadline e)) (ck_mono ck) db of
             (db', Inl err) \<Rightarrow> (db', from_redis (Inl err))
           | (db', Inr _) \<Rightarrow> (db', Inr (Some u))))"

definition remove_visa_io :: "'db db_connection \<Rightarrow> clock \<Rightarrow> u64 \<Rightarrow> 'db visa_io" where
  "remove_visa_io conn ck i db st =
     (case db_del conn (visa_key_for_visa i) (ck_mono ck) db of
        (db', Inl err) \<Rightarrow> (db', from_redis (Inl err))
      | (db', Inr _) \<Rightarrow> (db', Inr (Some (Remove i))))"

text \<open>The rewrites \<^verbatim>\<open>clear_node_state\<close> has to make: for each visa indexed under the node that has a state for it, its
  id and, unless it is about to expire, its new record and time to live.\<close>

fun clear_writes ::
  "codec \<Rightarrow> clock \<Rightarrow> visa_store \<Rightarrow> ip_addr \<Rightarrow> u64 list \<Rightarrow> (store_error, (u64 \<times> (string \<times> u64) option) list) result" where
  "clear_writes cd ck st n [] = Inr []"
| "clear_writes cd ck st n (i # ids) =
     (case hm_get (vs_visas st) i of
        None \<Rightarrow> clear_writes cd ck st n ids
      | Some e \<Rightarrow>
          if hm_get (ve_node_states e) n = None then clear_writes cd ck st n ids
          else
            let ttl = remaining_secs ck (ve_deadline e)
            in bind (if ttl > 0
                     then bind (record_json cd ck (ve_visa e) (ve_metadata e) (hm_remove n (ve_node_states e)))
                       (\<lambda>json. Inr (Some (json, ttl)))
                     else Inr None) (\<lambda>w.
               bind (clear_writes cd ck st n ids) (\<lambda>ws. Inr ((i, w) # ws))))"

definition clear_ops :: "u64 \<times> (string \<times> u64) option \<Rightarrow> db_op list" where
  "clear_ops = (\<lambda>(i, w). case w of
     None \<Rightarrow> []
   | Some (json, ttl) \<Rightarrow> [SetBin (visa_key_for_visa i) json, Expire (visa_key_for_visa i) (sint ttl)])"

definition clear_node_state_io :: "codec \<Rightarrow> 'db db_connection \<Rightarrow> clock \<Rightarrow> ip_addr \<Rightarrow> 'db visa_io" where
  "clear_node_state_io cd conn ck n db st =
     (case clear_writes cd ck st n (case hm_get (vs_by_node st) n of None \<Rightarrow> [] | Some ids \<Rightarrow> ids) of
        Inl err \<Rightarrow> (db, Inl err)
      | Inr writes \<Rightarrow>
          let ops = concat (map clear_ops writes); u = ClearNode n (map fst writes)
          in if ops = [] then (db, Inr (Some u))
             else (case db_atomic_pipeline conn ops (ck_mono ck) db of
                     (db', Inl err) \<Rightarrow> (db', from_redis (Inl err))
                   | (db', Inr _) \<Rightarrow> (db', Inr (Some u))))"

definition initial_states :: "visa_metadata \<Rightarrow> node_visa_state \<Rightarrow> node_states" where
  "initial_states md nstate =
     (let node = vm_requesting_node md;
          states = [(node, \<lparr>ns_state = nstate, ns_revoke_vinst = None\<rparr>)]
      in case vm_path md of
           None \<Rightarrow> states
         | Some path \<Rightarrow> fold (\<lambda>n sts. if n = node then sts
             else hm_insert n \<lparr>ns_state = PendingInstall, ns_revoke_vinst = None\<rparr> sts) path states)"

definition store_visa_io ::
  "codec \<Rightarrow> 'db db_connection \<Rightarrow> clock \<Rightarrow> visa \<Rightarrow> visa_metadata \<Rightarrow> node_visa_state \<Rightarrow> 'db visa_io" where
  "store_visa_io cd conn ck v md nstate db st =
     (let ttl = seconds_until ck (v_expires v); states = initial_states md nstate; key = visa_key_for_visa (issuer_id v)
      in if ttl = 0 then (db, Inr None)
         else (case record_json cd ck v md states of
                 Inl err \<Rightarrow> (db, Inl err)
               | Inr json \<Rightarrow>
                   (case db_set_ex conn key json ttl (ck_mono ck) db of
                      (db', Inl err) \<Rightarrow> (fst (db_del conn key (ck_mono ck) db'), from_redis (Inl err))
                    | (db', Inr _) \<Rightarrow> (db', Inr (Some (Insert (issuer_id v)
                        \<lparr>ve_visa = v, ve_metadata = md, ve_deadline = ck_mono ck + secs ttl, ve_node_states = states\<rparr>))))))"

text \<open>\<^verbatim>\<open>for ns in new_states.values_mut()\<close>.\<close>

definition map_states :: "(node_state \<Rightarrow> node_state) \<Rightarrow> node_states \<Rightarrow> node_states" where
  "map_states f states = map (\<lambda>(a, ns). (a, f ns)) states"

definition cancel_revoke :: "u64 \<Rightarrow> node_state \<Rightarrow> node_state" where
  "cancel_revoke vi ns =
     (if ns_state ns = PendingRevoke \<and> (case ns_revoke_vinst ns of None \<Rightarrow> False | Some rv \<Rightarrow> rv < vi)
      then \<lparr>ns_state = PendingInstall, ns_revoke_vinst = None\<rparr> else ns)"

definition stamp_revoke :: "u64 \<Rightarrow> node_state \<Rightarrow> node_state" where
  "stamp_revoke vi ns = \<lparr>ns_state = PendingRevoke,
     ns_revoke_vinst = (case ns_revoke_vinst ns of
        None \<Rightarrow> Some vi | Some rv \<Rightarrow> if vi > rv then Some vi else Some rv)\<rparr>"

definition record_allow_verdict_io :: "codec \<Rightarrow> 'db db_connection \<Rightarrow> clock \<Rightarrow> u64 \<Rightarrow> u64 \<Rightarrow> 'db visa_io" where
  "record_allow_verdict_io cd conn ck i vi db st =
     (case live_entry ck st i of
        None \<Rightarrow> (db, Inr None)
      | Some e \<Rightarrow>
          if vi \<le> vm_checked_vinst (ve_metadata e) then (db, Inr None)
          else let md = (ve_metadata e)\<lparr>vm_checked_vinst := vi\<rparr>; states = map_states (cancel_revoke vi) (ve_node_states e)
               in rewrite_record cd conn ck i e md states (SetStates i (Some md) states) db)"

definition record_deny_verdict_io :: "codec \<Rightarrow> 'db db_connection \<Rightarrow> clock \<Rightarrow> u64 \<Rightarrow> u64 \<Rightarrow> 'db visa_io" where
  "record_deny_verdict_io cd conn ck i vi db st =
     (case live_entry ck st i of
        None \<Rightarrow> (db, Inr None)
      | Some e \<Rightarrow>
          if vi \<le> vm_checked_vinst (ve_metadata e) then (db, Inr None)
          else let states = map_states (stamp_revoke vi) (ve_node_states e)
               in rewrite_record cd conn ck i e (ve_metadata e) states (SetStates i None states) db)"

definition mark_visa_revoked_io :: "codec \<Rightarrow> 'db db_connection \<Rightarrow> clock \<Rightarrow> u64 \<Rightarrow> 'db visa_io" where
  "mark_visa_revoked_io cd conn ck i db st =
     (case live_entry ck st i of
        None \<Rightarrow> (db, Inr None)
      | Some e \<Rightarrow>
          let states = map_states (\<lambda>ns. ns\<lparr>ns_state := PendingRevoke\<rparr>) (ve_node_states e)
          in rewrite_record cd conn ck i e (ve_metadata e) states (SetStates i None states) db)"

definition transition_node_visa_state_io ::
  "codec \<Rightarrow> 'db db_connection \<Rightarrow> clock \<Rightarrow> ip_addr \<Rightarrow> u64 \<Rightarrow> node_visa_state \<Rightarrow> node_visa_state \<Rightarrow> 'db visa_io" where
  "transition_node_visa_state_io cd conn ck n i expected new db st =
     (case live_entry ck st i of
        None \<Rightarrow> (db, Inr None)
      | Some e \<Rightarrow>
          (case hm_get (ve_node_states e) n of
             None \<Rightarrow> (db, Inr None)
           | Some ns \<Rightarrow>
               if ns_state ns \<noteq> expected then (db, Inr None)
               else let states = hm_insert n (ns\<lparr>ns_state := new\<rparr>) (ve_node_states e)
                    in rewrite_record cd conn ck i e (ve_metadata e) states (SetStates i None states) db))"

definition remove_node_if_pending_revoke_io ::
  "codec \<Rightarrow> 'db db_connection \<Rightarrow> clock \<Rightarrow> ip_addr \<Rightarrow> u64 \<Rightarrow> 'db visa_io" where
  "remove_node_if_pending_revoke_io cd conn ck n i db st =
     (case live_entry ck st i of
        None \<Rightarrow> (db, Inr None)
      | Some e \<Rightarrow>
          (case hm_get (ve_node_states e) n of
             None \<Rightarrow> (db, Inr None)
           | Some ns \<Rightarrow>
               if ns_state ns \<noteq> PendingRevoke then (db, Inr None)
               else let states = hm_remove n (ve_node_states e)
                    in rewrite_record cd conn ck i e (ve_metadata e) states (DropNode i n states) db))"

text \<open>All writes, as one type.\<close>

datatype visa_op =
    StoreVisa visa visa_metadata node_visa_state
  | RemoveVisa u64
  | ClearNodeState ip_addr
  | RecordAllowVerdict u64 u64
  | RecordDenyVerdict u64 u64
  | MarkVisaRevoked u64
  | TransitionNodeVisaState ip_addr u64 node_visa_state node_visa_state
  | RemoveNodeIfPendingRevoke ip_addr u64

fun op_io :: "codec \<Rightarrow> 'db db_connection \<Rightarrow> clock \<Rightarrow> visa_op \<Rightarrow> 'db visa_io" where
  "op_io cd conn ck (StoreVisa v md s) = store_visa_io cd conn ck v md s"
| "op_io cd conn ck (RemoveVisa i) = remove_visa_io conn ck i"
| "op_io cd conn ck (ClearNodeState n) = clear_node_state_io cd conn ck n"
| "op_io cd conn ck (RecordAllowVerdict i vi) = record_allow_verdict_io cd conn ck i vi"
| "op_io cd conn ck (RecordDenyVerdict i vi) = record_deny_verdict_io cd conn ck i vi"
| "op_io cd conn ck (MarkVisaRevoked i) = mark_visa_revoked_io cd conn ck i"
| "op_io cd conn ck (TransitionNodeVisaState n i s t) = transition_node_visa_state_io cd conn ck n i s t"
| "op_io cd conn ck (RemoveNodeIfPendingRevoke n i) = remove_node_if_pending_revoke_io cd conn ck n i"

definition visa_write ::
  "codec \<Rightarrow> 'db db_connection \<Rightarrow> clock \<Rightarrow> visa_op \<Rightarrow> 'db visa_repo \<Rightarrow> 'db visa_repo \<times> (store_error, bool) result" where
  "visa_write cd conn ck opn = write_through (op_io cd conn ck opn)"

definition drop_expired :: "clock \<Rightarrow> visa_store \<Rightarrow> visa_store" where
  "drop_expired ck st = fold remove_entry (map fst (filter (\<lambda>(i, e). \<not> is_live ck e) (vs_visas st))) st"

definition purge_expired :: "clock \<Rightarrow> 'db visa_repo \<Rightarrow> 'db visa_repo" where
  "purge_expired ck r =
     (if (case rp_last_purge r of None \<Rightarrow> False | Some t \<Rightarrow> max 0 (ck_mono ck - t) < PURGE_MIN_INTERVAL) then r
      else r\<lparr>rp_last_purge := Some (ck_mono ck), rp_store := drop_expired ck (rp_store r)\<rparr>)"

subsection \<open>Reads\<close>

definition get_next_visa_id :: "'db db_connection \<Rightarrow> clock \<Rightarrow> 'db visa_repo \<Rightarrow> 'db visa_repo \<times> (store_error, u64) result" where
  "get_next_visa_id conn ck r =
     (case db_incr conn KEY_NEXT_VISA_ID 1 (ck_mono ck) (rp_db r) of
        (db', res) \<Rightarrow> (r\<lparr>rp_db := db'\<rparr>, from_redis res))"

definition list_visa_metadata :: "clock \<Rightarrow> visa_store \<Rightarrow> (u64 \<times> visa_metadata) list" where
  "list_visa_metadata ck st =
     map (\<lambda>(i, e). (i, ve_metadata e)) (filter (\<lambda>(i, e). remaining_secs ck (ve_deadline e) > 0) (vs_visas st))"

definition visa_has_node_refs :: "clock \<Rightarrow> visa_store \<Rightarrow> u64 \<Rightarrow> bool" where
  "visa_has_node_refs ck st i = (case live_entry ck st i of None \<Rightarrow> False | Some e \<Rightarrow> ve_node_states e \<noteq> [])"

definition get_visas_for_node_by_state :: "clock \<Rightarrow> visa_store \<Rightarrow> ip_addr \<Rightarrow> node_visa_state \<Rightarrow> visa list" where
  "get_visas_for_node_by_state ck st n s = map (\<lambda>(i, e). ve_visa e) (node_visas_in_state ck st n s)"

definition get_node_visa_state :: "clock \<Rightarrow> visa_store \<Rightarrow> u64 \<Rightarrow> ip_addr \<Rightarrow> node_visa_state option" where
  "get_node_visa_state ck st i n =
     (case live_entry ck st i of None \<Rightarrow> None | Some e \<Rightarrow> map_option ns_state (hm_get (ve_node_states e) n))"

definition get_visa_ids_for_node_by_state :: "clock \<Rightarrow> visa_store \<Rightarrow> ip_addr \<Rightarrow> node_visa_state \<Rightarrow> u64 list" where
  "get_visa_ids_for_node_by_state ck st n s = map fst (node_visas_in_state ck st n s)"

definition indexed_live :: "clock \<Rightarrow> visa_store \<Rightarrow> (ip_addr, u64 list) hashmap \<Rightarrow> ip_addr \<Rightarrow> u64 list" where
  "indexed_live ck st ix a =
     (case hm_get ix a of None \<Rightarrow> [] | Some ids \<Rightarrow> filter (\<lambda>i. live_entry ck st i \<noteq> None) ids)"

definition get_visa_ids_for_actors :: "clock \<Rightarrow> visa_store \<Rightarrow> ip_addr list \<Rightarrow> u64 list" where
  "get_visa_ids_for_actors ck st addrs =
     fold (\<lambda>a ids. fold List.insert (indexed_live ck st (vs_by_actor st) a) ids) addrs []"

definition get_all_visa_ids_for_node :: "clock \<Rightarrow> visa_store \<Rightarrow> ip_addr \<Rightarrow> u64 list" where
  "get_all_visa_ids_for_node ck st n = indexed_live ck st (vs_by_node st) n"

definition get_count_visas_for_node_by_state :: "clock \<Rightarrow> visa_store \<Rightarrow> ip_addr \<Rightarrow> node_visa_state \<Rightarrow> u32" where
  "get_count_visas_for_node_by_state ck st n s = of_nat (length (node_visas_in_state ck st n s))"

definition get_visa_by_id :: "clock \<Rightarrow> visa_store \<Rightarrow> u64 \<Rightarrow> (store_error, visa) result" where
  "get_visa_by_id ck st i =
     (case live_entry ck st i of
        None \<Rightarrow> Inl (Err (StNotFound (''visa not found for ID '' @ u64_to_string i)))
      | Some e \<Rightarrow> Inr (ve_visa e))"

definition get_visa_metadata_by_id :: "clock \<Rightarrow> visa_store \<Rightarrow> u64 \<Rightarrow> (store_error, visa_metadata) result" where
  "get_visa_metadata_by_id ck st i =
     (case live_entry ck st i of
        None \<Rightarrow> Inl (Err (StNotFound (''visa metadata not found for ID '' @ u64_to_string i)))
      | Some e \<Rightarrow> Inr (ve_metadata e))"

definition list_visa_ids :: "clock \<Rightarrow> visa_store \<Rightarrow> u64 list" where
  "list_visa_ids ck st = map fst (filter (\<lambda>(i, e). is_live ck e) (vs_visas st))"

subsection \<open>Start-up\<close>

definition store_default :: visa_store where
  "store_default = \<lparr>vs_visas = [], vs_by_node = [], vs_by_actor = []\<rparr>"

text \<open>\<^verbatim>\<open>str::rsplit_once\<close> for one character.\<close>

definition rsplit_once :: "char \<Rightarrow> string \<Rightarrow> (string \<times> string) option" where
  "rsplit_once c s =
     (if c \<in> set s
      then Some (rev (tl (dropWhile (\<lambda>x. x \<noteq> c) (rev s))), rev (takeWhile (\<lambda>x. x \<noteq> c) (rev s)))
      else None)"

definition visa_id_of_key :: "string \<Rightarrow> u64 option" where
  "visa_id_of_key key = (case rsplit_once (CHR '':'') key of None \<Rightarrow> None | Some (_, i) \<Rightarrow> parse_u64 i)"

definition delete_key ::
  "'db db_connection \<Rightarrow> clock \<Rightarrow> string \<Rightarrow> 'db \<Rightarrow> 'db \<times> (store_error, unit) result" where
  "delete_key conn ck key db = (case db_del conn key (ck_mono ck) db of (db', r) \<Rightarrow> (db', from_redis r))"

definition restore_key ::
  "codec \<Rightarrow> 'db db_connection \<Rightarrow> clock \<Rightarrow> string \<Rightarrow> 'db \<Rightarrow> visa_store \<Rightarrow> 'db \<times> (store_error, visa_store) result" where
  "restore_key cd conn ck key db st =
     (case db_get conn key (ck_mono ck) db of
        (db1, Inl e) \<Rightarrow> (db1, from_redis (Inl e))
      | (db1, Inr None) \<Rightarrow> (db1, Inr st)
      | (db1, Inr (Some raw)) \<Rightarrow>
          (let drop_key = (case delete_key conn ck key db1 of (db2, r) \<Rightarrow> (db2, bind r (\<lambda>_. Inr st)))
           in case visa_id_of_key key of
                None \<Rightarrow> drop_key
              | Some i \<Rightarrow>
                  (case decode_record cd ck raw of
                     Inr e \<Rightarrow> if is_live ck e then (db1, Inr (insert_entry i e st)) else drop_key
                   | Inl Panic \<Rightarrow> (db1, Inl Panic)
                   | Inl (Err _) \<Rightarrow> drop_key)))"

fun restore_keys ::
  "codec \<Rightarrow> 'db db_connection \<Rightarrow> clock \<Rightarrow> string list \<Rightarrow> 'db \<Rightarrow> visa_store \<Rightarrow> 'db \<times> (store_error, visa_store) result" where
  "restore_keys cd conn ck [] db st = (db, Inr st)"
| "restore_keys cd conn ck (key # keys) db st =
     (case restore_key cd conn ck key db st of
        (db', Inl e) \<Rightarrow> (db', Inl e)
      | (db', Inr st') \<Rightarrow> restore_keys cd conn ck keys db' st')"

definition VISA_PATTERN :: string where
  "VISA_PATTERN = KEY_VISA @ '':[0-9]*''"

definition restore_from_state ::
  "codec \<Rightarrow> 'db db_connection \<Rightarrow> clock \<Rightarrow> 'db \<Rightarrow> 'db \<times> (store_error, visa_store) result" where
  "restore_from_state cd conn ck db =
     (case db_scan_match_all conn VISA_PATTERN (ck_mono ck) db of
        (db1, Inl e) \<Rightarrow> (db1, from_redis (Inl e))
      | (db1, Inr keys) \<Rightarrow> restore_keys cd conn ck keys db1 store_default)"

definition visa_repo_new ::
  "codec \<Rightarrow> 'db db_connection \<Rightarrow> clock \<Rightarrow> u64 \<Rightarrow> 'db \<Rightarrow> 'db \<times> (store_error, 'db visa_repo) result" where
  "visa_repo_new cd conn ck initial_visa_id db =
     (case db_exists conn KEY_NEXT_VISA_ID (ck_mono ck) db of
        (db1, Inl e) \<Rightarrow> (db1, from_redis (Inl e))
      | (db1, Inr present) \<Rightarrow>
          (case (if present then (db1, Inr ())
                 else db_set conn KEY_NEXT_VISA_ID (u64_to_string initial_visa_id) (ck_mono ck) db1) of
             (db2, Inl e) \<Rightarrow> (db2, from_redis (Inl e))
           | (db2, Inr _) \<Rightarrow>
               (case restore_from_state cd conn ck db2 of
                  (db3, Inl e) \<Rightarrow> (db3, Inl e)
                | (db3, Inr st) \<Rightarrow> (db3, Inr \<lparr>rp_db = db3, rp_store = st, rp_last_purge = None\<rparr>))))"

subsection \<open>The indexes agree with the visas\<close>

definition row :: "(ip_addr, u64 list) hashmap \<Rightarrow> ip_addr \<Rightarrow> u64 set" where
  "row ix a = (case hm_get ix a of None \<Rightarrow> {} | Some ids \<Rightarrow> set ids)"

definition no_empty_row :: "(ip_addr, u64 list) hashmap \<Rightarrow> bool" where
  "no_empty_row ix \<longleftrightarrow> (\<forall>a. hm_get ix a \<noteq> Some [])"

definition node_refs :: "visa_store \<Rightarrow> ip_addr \<Rightarrow> u64 set" where
  "node_refs st n = {i. \<exists>e. hm_get (vs_visas st) i = Some e \<and> hm_get (ve_node_states e) n \<noteq> None}"

definition actor_refs :: "visa_store \<Rightarrow> ip_addr \<Rightarrow> u64 set" where
  "actor_refs st a = {i. \<exists>e. hm_get (vs_visas st) i = Some e \<and> a \<in> set (endpoints e)}"

definition store_wf :: "visa_store \<Rightarrow> bool" where
  "store_wf st \<longleftrightarrow> row (vs_by_node st) = node_refs st \<and> no_empty_row (vs_by_node st) \<and>
     row (vs_by_actor st) = actor_refs st \<and> no_empty_row (vs_by_actor st)"

lemma row_index_id [simp]: "row (index_id k i ix) = (row ix)(k := insert i (row ix k))"
  by (auto simp: row_def index_id_def fun_eq_iff split: option.splits)

lemma row_unindex_id [simp]: "row (unindex_id k i ix) = (row ix)(k := row ix k - {i})"
proof (cases "hm_get ix k")
  case (Some xs)
  have "set xs - {i} = {}" if "removeAll i xs = []"
    using that by (metis set_empty set_removeAll)
  with Some show ?thesis by (auto simp: row_def unindex_id_def fun_eq_iff Let_def)
qed (auto simp: row_def unindex_id_def fun_eq_iff)

lemma no_empty_row_index [simp]: "no_empty_row ix \<Longrightarrow> no_empty_row (index_id k i ix)"
  by (auto simp: no_empty_row_def index_id_def List.insert_def split: option.splits)

lemma no_empty_row_unindex [simp]: "no_empty_row ix \<Longrightarrow> no_empty_row (unindex_id k i ix)"
  by (auto simp: no_empty_row_def unindex_id_def Let_def split: option.splits)

lemma row_fold_index: "row (fold (\<lambda>n. index_id n i) ns ix) = (\<lambda>a. if a \<in> set ns then insert i (row ix a) else row ix a)"
  by (induction ns arbitrary: ix) (auto simp: fun_eq_iff)

lemma row_fold_unindex: "row (fold (\<lambda>n. unindex_id n i) ns ix) = (\<lambda>a. if a \<in> set ns then row ix a - {i} else row ix a)"
  by (induction ns arbitrary: ix) (auto simp: fun_eq_iff)

lemma no_empty_row_fold [simp]:
  "no_empty_row ix \<Longrightarrow> no_empty_row (fold (\<lambda>n. index_id n i) ns ix)"
  "no_empty_row ix \<Longrightarrow> no_empty_row (fold (\<lambda>n. unindex_id n i) ns ix)"
  by (induction ns arbitrary: ix) auto

lemma store_wf_default: "store_wf store_default"
  by (auto simp: store_wf_def store_default_def row_def node_refs_def actor_refs_def no_empty_row_def)

text \<open>The references an entry has: the nodes it has a state for and the endpoints of its flow.\<close>

definition same_refs :: "visa_entry \<Rightarrow> visa_entry \<Rightarrow> bool" where
  "same_refs e e' \<longleftrightarrow> dom (map_of (ve_node_states e)) = dom (map_of (ve_node_states e')) \<and>
     set (endpoints e) = set (endpoints e')"

lemma node_refs_visas:
  "node_refs st n = {i. \<exists>e. hm_get (vs_visas st) i = Some e \<and> n \<in> dom (map_of (ve_node_states e))}"
  by (auto simp: node_refs_def)

lemma keys_dom: "fst ` set m = dom (map_of m)"
  by (simp add: dom_map_of_conv_image_fst)

lemma store_wf_insert:
  assumes "store_wf st" "\<And>e'. hm_get (vs_visas st) i = Some e' \<Longrightarrow> same_refs e e'"
  shows "store_wf (insert_entry i e st)"
proof -
  have "row (vs_by_node (insert_entry i e st)) n = node_refs (insert_entry i e st) n" for n
    using assms
    by (cases "hm_get (vs_visas st) i")
       (auto simp: store_wf_def insert_entry_def row_fold_index node_refs_visas same_refs_def keys_dom split: if_splits)
  moreover have "row (vs_by_actor (insert_entry i e st)) a = actor_refs (insert_entry i e st) a" for a
    using assms
    by (cases "hm_get (vs_visas st) i")
       (auto simp: store_wf_def insert_entry_def row_fold_index actor_refs_def same_refs_def
         simp del: fold_simps split: if_splits)
  ultimately show ?thesis
    using assms(1) by (auto simp: store_wf_def insert_entry_def simp del: fold_simps)
qed

lemma store_wf_remove:
  assumes "store_wf st"
  shows "store_wf (remove_entry i st)"
proof (cases "hm_get (vs_visas st) i")
  case (Some e)
  have "row (vs_by_node (remove_entry i st)) n = node_refs (remove_entry i st) n" for n
    using assms Some
    by (auto simp: store_wf_def remove_entry_def row_fold_unindex node_refs_visas keys_dom split: if_splits)
  moreover have "row (vs_by_actor (remove_entry i st)) a = actor_refs (remove_entry i st) a" for a
    using assms Some
    by (auto simp: store_wf_def remove_entry_def row_fold_unindex actor_refs_def simp del: fold_simps split: if_splits)
  ultimately show ?thesis
    using assms(1) Some by (auto simp: store_wf_def remove_entry_def simp del: fold_simps)
qed (use assms in \<open>simp add: remove_entry_def\<close>)

lemma store_wf_modify:
  assumes "store_wf st" "\<And>e. hm_get (vs_visas st) i = Some e \<Longrightarrow> same_refs (f e) e"
  shows "store_wf (modify_entry i f st)"
proof (cases "hm_get (vs_visas st) i")
  case (Some e)
  then have "node_refs (modify_entry i f st) = node_refs st" "actor_refs (modify_entry i f st) = actor_refs st"
    using assms(2) [OF Some] by (auto simp: modify_entry_def node_refs_visas actor_refs_def same_refs_def fun_eq_iff)
  with assms(1) Some show ?thesis by (simp add: store_wf_def modify_entry_def)
qed (use assms in \<open>simp add: modify_entry_def\<close>)

lemma store_wf_drop_node:
  assumes wf: "store_wf st"
    and f: "\<And>e. hm_get (vs_visas st) i = Some e \<Longrightarrow>
      dom (map_of (ve_node_states (f e))) = dom (map_of (ve_node_states e)) - {n} \<and> set (endpoints (f e)) = set (endpoints e)"
  shows "store_wf (unindex_node n i (modify_entry i f st))"
proof -
  let ?st = "unindex_node n i (modify_entry i f st)"
  have index: "vs_by_node ?st = unindex_id n i (vs_by_node st)" "vs_by_actor ?st = vs_by_actor st"
    by (simp_all add: unindex_node_def modify_entry_def split: option.split)
  have "row (vs_by_node ?st) m = node_refs ?st m" for m
  proof (cases "hm_get (vs_visas st) i")
    case None
    then have "i \<notin> row (vs_by_node st) n" using wf by (simp add: store_wf_def node_refs_visas)
    then have "row (vs_by_node ?st) m = row (vs_by_node st) m" unfolding index by simp
    moreover have "node_refs ?st m = node_refs st m"
      using None by (simp add: unindex_node_def modify_entry_def node_refs_visas)
    ultimately show ?thesis using wf by (simp add: store_wf_def)
  next
    case (Some e)
    have "row (vs_by_node st) m = node_refs st m" for m using wf by (simp add: store_wf_def)
    then show ?thesis
      unfolding index using f [OF Some] Some
      by (auto simp: unindex_node_def modify_entry_def node_refs_visas)
  qed
  moreover have "actor_refs ?st a = actor_refs st a" for a
  proof (cases "hm_get (vs_visas st) i")
    case (Some e)
    then show ?thesis using f [OF Some] by (auto simp: unindex_node_def modify_entry_def actor_refs_def)
  qed (simp add: unindex_node_def modify_entry_def actor_refs_def)
  ultimately have refs: "row (vs_by_node ?st) = node_refs ?st" "actor_refs ?st = actor_refs st" by (auto intro!: ext)
  show ?thesis
    unfolding store_wf_def
  proof (intro conjI)
    show "row (vs_by_node ?st) = node_refs ?st" by (rule refs(1))
  qed (use wf refs(2) in \<open>simp_all add: index store_wf_def\<close>)
qed

end
