(* ===== verification/Visa_Recovery.thy ===== *)
theory Visa_Recovery
  imports Visa_Store
begin

text \<open>
  The visa store survives a crash. Writes, purges of expired visas, the passing of time and restarts interleave in
  any order, a crash can fall between the two halves of a write, and any call to the database can fail with or
  without having done its work. The invariant says that the indexes of the image stay exact and that the database
  holds what the image holds, except for the visas whose last write reported an error.
\<close>

subsection \<open>What the encodings promise\<close>

abbreviation SEC :: time where
  "SEC \<equiv> 1000000000"

text \<open>JSON keeps a record up to the order of the states and the resolution of the creation time; the wire format keeps
  a visa up to the resolution of its expiry, which it may round down by less than a second. The instants of a visa
  are those of a \<^verbatim>\<open>SystemTime\<close>.\<close>

definition same_record :: "visa_record \<Rightarrow> visa_record \<Rightarrow> bool" where
  "same_record r r' \<longleftrightarrow> vr_blob r' = vr_blob r \<and> (\<exists>c. vr_metadata r' = (vr_metadata r)\<lparr>vm_ctime := c\<rparr>) \<and>
     map_of (vr_node_states r') = map_of (vr_node_states r) \<and> hm_wf (vr_node_states r')"

definition system_time :: "time \<Rightarrow> bool" where
  "system_time t \<longleftrightarrow> t < 2 ^ 63 * SEC"

definition codec_ok :: "codec \<Rightarrow> bool" where
  "codec_ok cd \<longleftrightarrow>
     (\<forall>v. cd_visa_to_bytes cd v \<noteq> Inl Panic) \<and> (\<forall>b. cd_visa_from_bytes cd b \<noteq> Inl Panic) \<and>
     (\<forall>v b. cd_visa_to_bytes cd v = Inr b \<longrightarrow>
        (\<exists>t. cd_visa_from_bytes cd b = Inr (v\<lparr>v_expires := t\<rparr>) \<and> v_expires v - SEC < t \<and> t \<le> v_expires v)) \<and>
     (\<forall>r s. cd_to_json cd r = Some s \<longrightarrow> hm_wf (vr_node_states r) \<longrightarrow>
        valid_utf8 s \<and> (\<exists>r'. cd_from_json cd s = Some r' \<and> same_record r r'))"

text \<open>What a restart makes of an entry.\<close>

definition same_visa :: "visa_entry \<Rightarrow> visa_entry \<Rightarrow> bool" where
  "same_visa e e' \<longleftrightarrow>
     (\<exists>t. ve_visa e' = (ve_visa e)\<lparr>v_expires := t\<rparr> \<and> v_expires (ve_visa e) - SEC < t \<and> t \<le> v_expires (ve_visa e)) \<and>
     (\<exists>c. ve_metadata e' = (ve_metadata e)\<lparr>vm_ctime := c\<rparr>) \<and>
     map_of (ve_node_states e') = map_of (ve_node_states e)"

definition restored :: "clock \<Rightarrow> visa_entry \<Rightarrow> visa_entry" where
  "restored ck e = e\<lparr>ve_deadline := ck_mono ck + secs (seconds_until ck (v_expires (ve_visa e)))\<rparr>"

definition text_of :: "codec \<Rightarrow> visa_entry \<Rightarrow> string \<Rightarrow> bool" where
  "text_of cd e raw \<longleftrightarrow> (\<exists>e'. same_visa e e' \<and> hm_wf (ve_node_states e') \<and>
     (\<forall>ck. decode_record cd ck raw = Inr (restored ck e')))"

definition ns_of :: "stored_node_state \<Rightarrow> node_state" where
  "ns_of sns = \<lparr>ns_state = sn_state sns, ns_revoke_vinst = sn_revoke_vinst sns\<rparr>"

lemma codec_ok_json:
  "codec_ok cd \<Longrightarrow> cd_to_json cd r = Some s \<Longrightarrow> hm_wf (vr_node_states r) \<Longrightarrow>
     valid_utf8 s \<and> (\<exists>r'. cd_from_json cd s = Some r' \<and> same_record r r')"
  unfolding codec_ok_def by blast

lemma codec_ok_bytes:
  "codec_ok cd \<Longrightarrow> cd_visa_to_bytes cd v = Inr b \<Longrightarrow>
     \<exists>t. cd_visa_from_bytes cd b = Inr (v\<lparr>v_expires := t\<rparr>) \<and> v_expires v - SEC < t \<and> t \<le> v_expires v"
  unfolding codec_ok_def by blast

lemma decode_states_spec:
  assumes "\<forall>z \<in> fst ` set l. \<exists>a. z = zaddr a" "hm_wf l" "hm_wf acc"
  shows "\<exists>sts. decode_states l acc = Inr sts \<and> hm_wf sts \<and>
    (\<forall>a. map_of sts a = (case map_of l (zaddr a) of None \<Rightarrow> map_of acc a | Some sns \<Rightarrow> Some (ns_of sns)))"
  using assms
proof (induction l arbitrary: acc)
  case (Cons x l)
  obtain z sns where x: "x = (z, sns)" by fastforce
  then obtain b where z: "z = zaddr b" using Cons.prems(1) by auto
  have fresh: "map_of l (zaddr b) = None" using Cons.prems(2) x z by (simp add: map_of_eq_None_iff)
  obtain sts where sts: "decode_states l (hm_insert b (ns_of sns) acc) = Inr sts" "hm_wf sts"
      "\<forall>a. map_of sts a = (case map_of l (zaddr a) of None \<Rightarrow> map_of (hm_insert b (ns_of sns) acc) a | Some s \<Rightarrow> Some (ns_of s))"
    using Cons.IH [of "hm_insert b (ns_of sns) acc"] Cons.prems by (auto simp: hm_wf_insert)
  have "map_of sts a = (case map_of (x # l) (zaddr a) of None \<Rightarrow> map_of acc a | Some s \<Rightarrow> Some (ns_of s))" for a
    using sts(3) fresh by (cases "a = b") (auto simp: x z split: option.splits)
  moreover have "decode_states (x # l) acc = Inr sts" using sts(1) by (simp add: x z ns_of_def)
  ultimately show ?case using sts(2) by blast
qed simp

lemma map_of_stored: "map_of (map (stored_of cd ck) states) (zaddr a) =
    map_option (\<lambda>ns. snd (stored_of cd ck (a, ns))) (map_of states a)"
  by (induction states) (auto simp: stored_of_def)

lemma record_json_text:
  assumes cd: "codec_ok cd" and wf: "hm_wf (ve_node_states e)"
    and json: "record_json cd ck (ve_visa e) (ve_metadata e) (ve_node_states e) = Inr raw"
  shows "text_of cd e raw \<and> valid_utf8 raw"
proof -
  let ?stored = "map (stored_of cd ck) (ve_node_states e)"
  obtain b where b: "cd_visa_to_bytes cd (ve_visa e) = Inr b"
      and js: "cd_to_json cd \<lparr>vr_blob = b, vr_metadata = ve_metadata e, vr_node_states = ?stored\<rparr> = Some raw"
    using json by (auto simp: record_json_def build_record_def bind_Inr_iff split: option.splits)
  have keys: "map fst ?stored = map zaddr (map fst (ve_node_states e))"
    by (simp add: stored_of_def split_def comp_def)
  have "hm_wf ?stored" unfolding keys using wf by (simp add: distinct_map inj_on_def)
  with codec_ok_json [OF cd js] obtain r' where utf8: "valid_utf8 raw" and r': "cd_from_json cd raw = Some r'"
      and same: "same_record \<lparr>vr_blob = b, vr_metadata = ve_metadata e, vr_node_states = ?stored\<rparr> r'"
    by auto
  have "\<forall>z \<in> fst ` set (vr_node_states r'). \<exists>a. z = zaddr a"
  proof
    fix z assume "z \<in> fst ` set (vr_node_states r')"
    then have "z \<in> dom (map_of ?stored)" using same by (simp add: same_record_def keys_dom)
    then show "\<exists>a. z = zaddr a" by (auto simp: stored_of_def dom_map_of_conv_image_fst)
  qed
  note keys_ok = this
  have eqm: "map_of (vr_node_states r') = map_of ?stored" "hm_wf (vr_node_states r')"
    using same by (simp_all add: same_record_def)
  obtain sts where sts: "decode_states (vr_node_states r') [] = Inr sts" "hm_wf sts"
      "\<forall>a. map_of sts a = (case map_of (vr_node_states r') (zaddr a) of None \<Rightarrow> map_of [] a | Some sns \<Rightarrow> Some (ns_of sns))"
    using decode_states_spec [OF keys_ok eqm(2), of "[]"] by auto
  have "map_of sts a = map_of (ve_node_states e) a" for a
    using sts(3) unfolding eqm(1) map_of_stored by (auto simp: stored_of_def ns_of_def split: option.splits)
  then have states: "map_of sts = map_of (ve_node_states e)" by (rule ext)
  obtain t where t: "cd_visa_from_bytes cd b = Inr ((ve_visa e)\<lparr>v_expires := t\<rparr>)"
      "v_expires (ve_visa e) - SEC < t" "t \<le> v_expires (ve_visa e)"
    using codec_ok_bytes [OF cd b] by blast
  define e' where "e' = \<lparr>ve_visa = (ve_visa e)\<lparr>v_expires := t\<rparr>, ve_metadata = vr_metadata r', ve_deadline = 0,
    ve_node_states = sts\<rparr>"
  have "same_visa e e'" using t states same by (auto simp: same_visa_def e'_def same_record_def)
  moreover have "decode_record cd ck raw = Inr (restored ck e')" for ck
    using r' t(1) sts(1) same by (simp add: decode_record_def same_record_def restored_def e'_def)
  ultimately show ?thesis using utf8 sts(2) by (auto simp: text_of_def e'_def)
qed

subsection \<open>The system\<close>

text \<open>The database, the image, the second half of a write that has begun and not yet ended, the clocks, and the visas
  whose last write reported an error.\<close>

record 'db visa_system =
  sy_db :: 'db
  sy_store :: visa_store
  sy_pending :: "visa_update option"
  sy_ck :: clock
  sy_failed :: "u64 set"

fun touched :: "visa_store \<Rightarrow> visa_op \<Rightarrow> u64 set" where
  "touched st (StoreVisa v md s) = {issuer_id v}"
| "touched st (RemoveVisa i) = {i}"
| "touched st (ClearNodeState n) = row (vs_by_node st) n"
| "touched st (RecordAllowVerdict i vi) = {i}"
| "touched st (RecordDenyVerdict i vi) = {i}"
| "touched st (MarkVisaRevoked i) = {i}"
| "touched st (TransitionNodeVisaState n i s t) = {i}"
| "touched st (RemoveNodeIfPendingRevoke n i) = {i}"

fun healed :: "visa_op \<Rightarrow> u64 set" where
  "healed (ClearNodeState n) = {}"
| "healed opn = touched store_default opn"

text \<open>A visa is stored under an id that was just drawn from the counter.\<close>

fun op_fresh :: "visa_store \<Rightarrow> visa_op \<Rightarrow> bool" where
  "op_fresh st (StoreVisa v md s) \<longleftrightarrow> hm_get (vs_visas st) (issuer_id v) = None \<and> system_time (v_expires v)"
| "op_fresh st _ \<longleftrightarrow> True"

definition advance :: "time \<Rightarrow> clock \<Rightarrow> clock" where
  "advance d ck = \<lparr>ck_wall = ck_wall ck + d, ck_mono = ck_mono ck + d\<rparr>"

inductive visa_step :: "codec \<Rightarrow> 'db db_connection \<Rightarrow> 'db visa_system \<Rightarrow> 'db visa_system \<Rightarrow> bool" for cd conn where
  no_op: "sy_pending s = None \<Longrightarrow> op_fresh (sy_store s) opn \<Longrightarrow>
    op_io cd conn (sy_ck s) opn (sy_db s) (sy_store s) = (db', Inr None) \<Longrightarrow>
    visa_step cd conn s (s\<lparr>sy_db := db'\<rparr>)"
| begin_write: "sy_pending s = None \<Longrightarrow> op_fresh (sy_store s) opn \<Longrightarrow>
    op_io cd conn (sy_ck s) opn (sy_db s) (sy_store s) = (db', Inr (Some u)) \<Longrightarrow>
    visa_step cd conn s (s\<lparr>sy_db := db', sy_pending := Some u, sy_failed := sy_failed s - healed opn\<rparr>)"
| fail: "sy_pending s = None \<Longrightarrow> op_fresh (sy_store s) opn \<Longrightarrow>
    op_io cd conn (sy_ck s) opn (sy_db s) (sy_store s) = (db', Inl e) \<Longrightarrow>
    visa_step cd conn s (s\<lparr>sy_db := db', sy_failed := sy_failed s \<union> touched (sy_store s) opn\<rparr>)"
| end_write: "sy_pending s = Some u \<Longrightarrow>
    visa_step cd conn s (s\<lparr>sy_store := apply_update u (sy_store s), sy_pending := None\<rparr>)"
| purge: "visa_step cd conn s (s\<lparr>sy_store := drop_expired (sy_ck s) (sy_store s)\<rparr>)"
| tick: "0 \<le> d \<Longrightarrow> visa_step cd conn s (s\<lparr>sy_ck := advance d (sy_ck s)\<rparr>)"
| restart: "restore_from_state cd conn (sy_ck s) (sy_db s) = (db', Inr st') \<Longrightarrow>
    visa_step cd conn s (s\<lparr>sy_db := db', sy_store := st', sy_pending := None, sy_failed := {}\<rparr>)"

text \<open>The image as it will be when the write in progress is done.\<close>

definition image :: "'db visa_system \<Rightarrow> visa_store" where
  "image s = (case sy_pending s of None \<Rightarrow> sy_store s | Some u \<Rightarrow> apply_update u (sy_store s))"

lemma image_db [simp]: "image (s\<lparr>sy_db := db'\<rparr>) = image s"
  by (simp add: image_def split: option.split)

definition maps_wf :: "visa_store \<Rightarrow> bool" where
  "maps_wf st \<longleftrightarrow> hm_wf (vs_visas st) \<and> (\<forall>i e. hm_get (vs_visas st) i = Some e \<longrightarrow> hm_wf (ve_node_states e))"

fun pending_ok :: "visa_store \<Rightarrow> visa_update \<Rightarrow> bool" where
  "pending_ok st (Insert i e) \<longleftrightarrow> hm_get (vs_visas st) i = None \<and> hm_wf (ve_node_states e)"
| "pending_ok st (SetStates i md states) \<longleftrightarrow> hm_wf states \<and>
     (\<forall>e. hm_get (vs_visas st) i = Some e \<longrightarrow> dom (map_of states) = dom (map_of (ve_node_states e)) \<and>
       (\<forall>m. md = Some m \<longrightarrow> vm_five_tuple m = vm_five_tuple (ve_metadata e)))"
| "pending_ok st (DropNode i n states) \<longleftrightarrow> hm_wf states \<and>
     (\<forall>e. hm_get (vs_visas st) i = Some e \<longrightarrow> dom (map_of states) = dom (map_of (ve_node_states e)) - {n})"
| "pending_ok st _ \<longleftrightarrow> True"

text \<open>The deadline of an entry is the expiry of its visa, to the second below, on the other clock.\<close>

definition timed :: "clock \<Rightarrow> visa_entry \<Rightarrow> bool" where
  "timed ck e \<longleftrightarrow>
     (let left = v_expires (ve_visa e) - ck_wall ck; left' = ve_deadline e - ck_mono ck
      in left - SEC < left' \<and> left' \<le> max 0 left \<and> system_time (v_expires (ve_visa e)))"

definition agrees :: "codec \<Rightarrow> clock \<Rightarrow> db_state \<Rightarrow> u64 \<Rightarrow> visa_entry option \<Rightarrow> bool" where
  "agrees cd ck m i eo \<longleftrightarrow>
     (\<forall>e. eo = Some e \<longrightarrow> ck_wall ck + 2 * SEC \<le> v_expires (ve_visa e) \<longrightarrow>
        (\<exists>raw x. m (visa_key_for_visa i) = Some (StrV raw, x) \<and> text_of cd e raw \<and>
           v_expires (ve_visa e) - ck_wall ck - 2 * SEC < x - ck_mono ck)) \<and>
     (\<forall>raw x. m (visa_key_for_visa i) = Some (StrV raw, x) \<longrightarrow>
        (\<exists>e. text_of cd e raw \<and> (eo = Some e \<or> v_expires (ve_visa e) < ck_wall ck + 2 * SEC)))"

definition readable :: "codec \<Rightarrow> clock \<Rightarrow> (string \<Rightarrow> string \<Rightarrow> bool) \<Rightarrow> db_state \<Rightarrow> bool" where
  "readable cd ck matches m \<longleftrightarrow>
     (\<forall>k. m k \<noteq> None \<longrightarrow> matches VISA_PATTERN k \<longrightarrow> (\<exists>i. k = visa_key_for_visa i)) \<and>
     (\<forall>i v. m (visa_key_for_visa i) = Some v \<longrightarrow>
        (\<exists>raw x e. v = (StrV raw, x) \<and> text_of cd e raw \<and> system_time (v_expires (ve_visa e)) \<and>
           v_expires (ve_visa e) - ck_wall ck - 2 * SEC < x - ck_mono ck))"

definition visa_inv ::
  "codec \<Rightarrow> ('db \<Rightarrow> db_state) \<Rightarrow> (string \<Rightarrow> string \<Rightarrow> bool) \<Rightarrow> 'db visa_system \<Rightarrow> bool" where
  "visa_inv cd contents matches s \<longleftrightarrow>
     (let ck = sy_ck s; m = alive (ck_mono ck) (contents (sy_db s))
      in 0 \<le> ck_wall ck \<and> store_wf (sy_store s) \<and> maps_wf (sy_store s) \<and>
         (\<forall>u. sy_pending s = Some u \<longrightarrow> pending_ok (sy_store s) u) \<and>
         (\<forall>i e. hm_get (vs_visas (image s)) i = Some e \<longrightarrow> timed ck e) \<and>
         readable cd ck matches m \<and>
         (\<forall>i. i \<notin> sy_failed s \<longrightarrow> agrees cd ck m i (hm_get (vs_visas (image s)) i)))"

subsection \<open>Clocks\<close>

lemma uint_secs_between: "uint (secs_between now t) = min (2 ^ 64 - 1) (max 0 (t - now) div SEC)"
proof -
  have "0 \<le> max 0 (t - now) div SEC" by simp
  then show ?thesis
    unfolding secs_between_def by (simp add: uint_word_of_int take_bit_eq_mod)
qed

lemma secs_between_pos: "secs_between now t > 0 \<longleftrightarrow> now + SEC \<le> t"
proof -
  have "secs_between now t > 0 \<longleftrightarrow> 0 < uint (secs_between now t)"
    by (simp add: word_less_def)
  also have "\<dots> \<longleftrightarrow> 0 < max 0 (t - now) div SEC" by (simp add: uint_secs_between)
  also have "\<dots> \<longleftrightarrow> now + SEC \<le> t" by (simp add: pos_imp_zdiv_pos_iff max_def algebra_simps)
  finally show ?thesis .
qed

lemma secs_between_bounds:
  assumes "t - now < 2 ^ 63 * SEC"
  shows "secs (secs_between now t) \<le> max 0 (t - now)" "t - now - SEC < secs (secs_between now t)"
    "uint (secs_between now t) < 2 ^ 63"
proof -
  define x where "x = max 0 (t - now)"
  have x: "x = SEC * (x div SEC) + x mod SEC" "0 \<le> x mod SEC" "x mod SEC < SEC" "0 \<le> x" "t - now \<le> x"
    by (simp_all add: x_def)
  have "x < 2 ^ 63 * SEC" using assms by (simp add: x_def)
  with x have small: "x div SEC < 2 ^ 63" by linarith
  then have "uint (secs_between now t) = x div SEC" by (simp add: uint_secs_between x_def)
  then have "secs (secs_between now t) = SEC * (x div SEC)" "uint (secs_between now t) < 2 ^ 63"
    using small by (simp_all add: secs_def)
  with x show "secs (secs_between now t) \<le> max 0 (t - now)" "t - now - SEC < secs (secs_between now t)"
    "uint (secs_between now t) < 2 ^ 63"
    unfolding x_def [symmetric] by linarith+
qed

lemma is_live_iff: "is_live ck e \<longleftrightarrow> ck_mono ck + SEC \<le> ve_deadline e"
  by (simp add: is_live_def remaining_secs_def secs_between_pos)

lemma timed_left:
  assumes "timed ck e" "0 \<le> ck_wall ck"
  shows "ve_deadline e - ck_mono ck < 2 ^ 63 * SEC"
  using assms by (simp add: timed_def Let_def system_time_def max_def split: if_splits)

lemma timed_advance: "timed ck e \<Longrightarrow> 0 \<le> d \<Longrightarrow> timed (advance d ck) e"
  by (auto simp: timed_def Let_def advance_def max_def split: if_splits)

lemma timed_cong: "ve_visa e' = ve_visa e \<Longrightarrow> ve_deadline e' = ve_deadline e \<Longrightarrow> timed ck e' = timed ck e"
  by (simp add: timed_def)

lemma dead_soon: "timed ck e \<Longrightarrow> \<not> is_live ck e \<Longrightarrow> v_expires (ve_visa e) < ck_wall ck + 2 * SEC"
  by (simp add: timed_def Let_def is_live_iff)

subsection \<open>The image stays well formed\<close>

lemma visas_modify [simp]: "map_of (vs_visas (modify_entry i f st)) =
    (case hm_get (vs_visas st) i of None \<Rightarrow> map_of (vs_visas st) | Some e \<Rightarrow> (map_of (vs_visas st))(i \<mapsto> f e))"
  by (auto simp: modify_entry_def fun_eq_iff split: option.splits)

lemma visas_unindex [simp]: "vs_visas (unindex_node n i st) = vs_visas st"
  by (simp add: unindex_node_def)

lemma visas_insert [simp]: "map_of (vs_visas (insert_entry i e st)) = (map_of (vs_visas st))(i \<mapsto> e)"
  by (simp add: insert_entry_def fun_eq_iff)

lemma visas_remove [simp]: "map_of (vs_visas (remove_entry i st)) = (map_of (vs_visas st))(i := None)"
  by (auto simp: remove_entry_def fun_eq_iff split: option.splits)

lemma maps_wf_insert: "maps_wf st \<Longrightarrow> hm_wf (ve_node_states e) \<Longrightarrow> maps_wf (insert_entry i e st)"
  by (auto simp: maps_wf_def insert_entry_def hm_wf_insert)

lemma maps_wf_remove: "maps_wf st \<Longrightarrow> maps_wf (remove_entry i st)"
  by (auto simp: maps_wf_def remove_entry_def hm_wf_remove split: option.splits if_splits)

lemma maps_wf_modify:
  "maps_wf st \<Longrightarrow> (\<And>e. hm_get (vs_visas st) i = Some e \<Longrightarrow> hm_wf (ve_node_states (f e))) \<Longrightarrow> maps_wf (modify_entry i f st)"
  by (auto simp: maps_wf_def modify_entry_def hm_wf_insert split: option.splits)

lemma maps_wf_unindex [simp]: "maps_wf (unindex_node n i st) = maps_wf st"
  by (simp add: maps_wf_def)

definition clear_one :: "ip_addr \<Rightarrow> u64 \<Rightarrow> visa_store \<Rightarrow> visa_store" where
  "clear_one n i st = unindex_node n i (modify_entry i (\<lambda>e. e\<lparr>ve_node_states := hm_remove n (ve_node_states e)\<rparr>) st)"

lemma endpoints_states [simp]: "endpoints (e\<lparr>ve_node_states := sts\<rparr>) = endpoints e"
  by (simp add: endpoints_def)

lemma map_of_hm_remove: "map_of (hm_remove k m) = (map_of m)(k := None)"
  by (auto simp: fun_eq_iff)

lemma clear_one_wf:
  assumes "store_wf st" "maps_wf st"
  shows "store_wf (clear_one n i st) \<and> maps_wf (clear_one n i st)"
proof
  show "store_wf (clear_one n i st)"
    unfolding clear_one_def by (rule store_wf_drop_node [OF assms(1)]) (simp add: map_of_hm_remove dom_fun_upd)
  have "hm_wf (ve_node_states e)" if "hm_get (vs_visas st) i = Some e" for e
    using assms(2) that by (simp add: maps_wf_def)
  then show "maps_wf (clear_one n i st)"
    unfolding clear_one_def maps_wf_unindex using assms(2) by (intro maps_wf_modify) (simp_all add: hm_wf_remove)
qed

lemma fold_clear_wf: "store_wf st \<Longrightarrow> maps_wf st \<Longrightarrow> store_wf (fold (clear_one n) ids st) \<and> maps_wf (fold (clear_one n) ids st)"
  by (induction ids arbitrary: st) (auto simp: clear_one_wf)

lemma apply_ClearNode: "apply_update (ClearNode n ids) st = fold (clear_one n) ids st"
  by (simp add: clear_one_def [abs_def])

lemma apply_update_wf:
  assumes "store_wf st" "maps_wf st" "pending_ok st u"
  shows "store_wf (apply_update u st) \<and> maps_wf (apply_update u st)"
proof (cases u)
  case (Insert i e)
  with assms show ?thesis by (auto intro!: store_wf_insert maps_wf_insert)
next
  case (SetStates i md states)
  let ?f = "\<lambda>e. e\<lparr>ve_metadata := (case md of None \<Rightarrow> ve_metadata e | Some m \<Rightarrow> m), ve_node_states := states\<rparr>"
  have "same_refs (?f e) e" if "hm_get (vs_visas st) i = Some e" for e
    using assms(3) SetStates that by (auto simp: same_refs_def endpoints_def split: option.splits)
  with SetStates assms show ?thesis by (auto intro!: store_wf_modify maps_wf_modify)
next
  case (DropNode i n states)
  have "store_wf (apply_update u st)"
    unfolding DropNode apply_update.simps
    by (rule store_wf_drop_node [OF assms(1)]) (use assms(3) DropNode in simp)
  moreover have "maps_wf (apply_update u st)"
    using assms DropNode by (auto intro!: maps_wf_modify)
  ultimately show ?thesis ..
next
  case (ClearNode n ids)
  then show ?thesis unfolding ClearNode apply_ClearNode using assms(1,2) by (rule_tac fold_clear_wf)
next
  case (Remove i)
  with assms show ?thesis by (auto intro: store_wf_remove maps_wf_remove)
qed

text \<open>An update works on each visa alone.\<close>

fun apply_point :: "visa_update \<Rightarrow> u64 \<Rightarrow> visa_entry option \<Rightarrow> visa_entry option" where
  "apply_point (Insert j e) i eo = (if i = j then Some e else eo)"
| "apply_point (SetStates j md states) i eo = (if i = j
     then map_option (\<lambda>e. e\<lparr>ve_metadata := (case md of None \<Rightarrow> ve_metadata e | Some m \<Rightarrow> m), ve_node_states := states\<rparr>) eo
     else eo)"
| "apply_point (DropNode j n states) i eo = (if i = j then map_option (\<lambda>e. e\<lparr>ve_node_states := states\<rparr>) eo else eo)"
| "apply_point (ClearNode n ids) i eo = (if i \<in> set ids
     then map_option (\<lambda>e. e\<lparr>ve_node_states := hm_remove n (ve_node_states e)\<rparr>) eo else eo)"
| "apply_point (Remove j) i eo = (if i = j then None else eo)"

lemma visas_clear_one:
  "hm_get (vs_visas (clear_one n j st)) i = (if i = j
     then map_option (\<lambda>e. e\<lparr>ve_node_states := hm_remove n (ve_node_states e)\<rparr>) (hm_get (vs_visas st) i)
     else hm_get (vs_visas st) i)"
  by (auto simp: clear_one_def split: option.splits)

lemma visas_apply: "hm_get (vs_visas (apply_update u st)) i = apply_point u i (hm_get (vs_visas st) i)"
proof (cases u)
  case (ClearNode n ids)
  show ?thesis
    unfolding ClearNode apply_ClearNode
    by (induction ids arbitrary: st) (auto simp: visas_clear_one option.map_comp comp_def delete_idem)
qed (auto split: option.splits)

lemma apply_point_keeps:
  assumes "apply_point u i (Some e) = Some e'" "apply_point u i None = None"
  shows "ve_visa e' = ve_visa e \<and> ve_deadline e' = ve_deadline e"
  using assms by (cases u) (auto split: if_splits)

lemma apply_point_None: "apply_point u i None = None \<or> (\<forall>eo. apply_point u i eo = apply_point u i None)"
  by (cases u) auto

lemma fold_remove_wf: "store_wf st \<Longrightarrow> maps_wf st \<Longrightarrow> store_wf (fold remove_entry ids st) \<and> maps_wf (fold remove_entry ids st)"
  by (induction ids arbitrary: st) (auto simp: store_wf_remove maps_wf_remove)

lemma visas_fold_remove: "hm_get (vs_visas (fold remove_entry ids st)) i = (if i \<in> set ids then None else hm_get (vs_visas st) i)"
  by (induction ids arbitrary: st) auto

lemma visas_drop_expired:
  assumes "maps_wf st"
  shows "hm_get (vs_visas (drop_expired ck st)) i =
    (case hm_get (vs_visas st) i of None \<Rightarrow> None | Some e \<Rightarrow> if is_live ck e then Some e else None)"
proof -
  have wf: "hm_wf (vs_visas st)" using assms by (simp add: maps_wf_def)
  have "i \<in> set (map fst (filter (\<lambda>(i, e). \<not> is_live ck e) (vs_visas st))) \<longleftrightarrow>
      (\<exists>e. (i, e) \<in> set (vs_visas st) \<and> \<not> is_live ck e)"
    by (auto simp: image_iff)
  then have "i \<in> set (map fst (filter (\<lambda>(i, e). \<not> is_live ck e) (vs_visas st))) \<longleftrightarrow>
      (\<exists>e. hm_get (vs_visas st) i = Some e \<and> \<not> is_live ck e)"
    unfolding hm_entry_iff [OF wf] .
  then show ?thesis
    unfolding drop_expired_def visas_fold_remove by (auto split: option.splits)
qed

lemma drop_expired_wf: "store_wf st \<Longrightarrow> maps_wf st \<Longrightarrow> store_wf (drop_expired ck st) \<and> maps_wf (drop_expired ck st)"
  unfolding drop_expired_def by (rule fold_remove_wf)

lemma pending_ok_drop:
  assumes "maps_wf st" "pending_ok st u"
  shows "pending_ok (drop_expired ck st) u"
  using assms(2) visas_drop_expired [OF assms(1), of ck] by (cases u) (auto split: option.splits if_splits)

text \<open>A purge changes nothing but visas that have expired.\<close>

lemma image_drop:
  assumes "maps_wf st"
  shows "hm_get (vs_visas (apply_update u (drop_expired ck st))) i = hm_get (vs_visas (apply_update u st)) i \<or>
    hm_get (vs_visas (apply_update u (drop_expired ck st))) i = None \<and>
    (\<exists>e. hm_get (vs_visas (apply_update u st)) i = Some e \<and> \<not> is_live ck e)"
proof (cases "hm_get (vs_visas st) i")
  case (Some e)
  show ?thesis
  proof (cases "is_live ck e \<or> apply_point u i None \<noteq> None \<or> apply_point u i (Some e) = None")
    case True
    then show ?thesis
      using Some apply_point_None [of u i] by (auto simp: visas_apply visas_drop_expired [OF assms])
  next
    case False
    then obtain e' where "apply_point u i (Some e) = Some e'" "apply_point u i None = None" "\<not> is_live ck e" by auto
    moreover have "\<not> is_live ck e'" using apply_point_keeps [OF calculation(1,2)] calculation(3) by (simp add: is_live_def)
    ultimately show ?thesis using Some by (simp add: visas_apply visas_drop_expired [OF assms])
  qed
qed (simp add: visas_apply visas_drop_expired [OF assms])

lemma agrees_expired:
  assumes "agrees cd ck m i (Some e)" "v_expires (ve_visa e) < ck_wall ck + 2 * SEC"
  shows "agrees cd ck m i None"
  using assms unfolding agrees_def by blast

lemma agrees_advance:
  assumes "agrees cd ck m i eo" "0 \<le> d"
  shows "agrees cd (advance d ck) (alive (ck_mono (advance d ck)) m) i eo"
  unfolding agrees_def
proof (intro conjI allI impI)
  fix e assume e: "eo = Some e" "ck_wall (advance d ck) + 2 * SEC \<le> v_expires (ve_visa e)"
  then have "ck_wall ck + 2 * SEC \<le> v_expires (ve_visa e)" using assms(2) by (simp add: advance_def)
  then obtain raw x where "m (visa_key_for_visa i) = Some (StrV raw, x)" "text_of cd e raw"
      "v_expires (ve_visa e) - ck_wall ck - 2 * SEC < x - ck_mono ck"
    using assms(1) e(1) unfolding agrees_def by blast
  with e(2) assms(2) show "\<exists>raw x. alive (ck_mono (advance d ck)) m (visa_key_for_visa i) = Some (StrV raw, x) \<and>
      text_of cd e raw \<and> v_expires (ve_visa e) - ck_wall (advance d ck) - 2 * SEC < x - ck_mono (advance d ck)"
    by (auto simp: alive_def advance_def)
next
  fix raw x assume "alive (ck_mono (advance d ck)) m (visa_key_for_visa i) = Some (StrV raw, x)"
  then have "m (visa_key_for_visa i) = Some (StrV raw, x)" by (auto simp: alive_def split: option.splits if_splits)
  then obtain e where "text_of cd e raw" "eo = Some e \<or> v_expires (ve_visa e) < ck_wall ck + 2 * SEC"
    using assms(1) unfolding agrees_def by blast
  with assms(2) show "\<exists>e. text_of cd e raw \<and> (eo = Some e \<or> v_expires (ve_visa e) < ck_wall (advance d ck) + 2 * SEC)"
    by (force simp: advance_def)
qed

lemma readable_subset:
  assumes "readable cd ck matches m" "\<And>k v. m' k = Some v \<Longrightarrow> m k = Some v"
  shows "readable cd ck matches m'"
  using assms unfolding readable_def by blast

lemma readable_advance:
  assumes "readable cd ck matches m"
  shows "readable cd (advance d ck) matches (alive now m)"
proof -
  have "readable cd (advance d ck) matches m"
    using assms unfolding readable_def by (simp add: advance_def algebra_simps)
  then show ?thesis by (rule readable_subset) (auto simp: alive_def split: option.splits if_splits)
qed

subsection \<open>What a write does to one visa\<close>

lemma visa_key_inj [simp]: "visa_key_for_visa i = visa_key_for_visa j \<longleftrightarrow> i = j"
  by (simp add: visa_key_for_visa_def)

text \<open>The writes that change the record of one live visa: each does nothing, or rewrites the record and leaves the
  matching update of the image to do.\<close>

definition rewriting ::
  "codec \<Rightarrow> 'db db_connection \<Rightarrow> clock \<Rightarrow> visa_store \<Rightarrow> u64 \<Rightarrow> 'db \<Rightarrow> 'db \<times> (store_error, visa_update option) result \<Rightarrow> bool" where
  "rewriting cd conn ck st i db out \<longleftrightarrow> out = (db, Inr None) \<or>
     (\<exists>e md states u. live_entry ck st i = Some e \<and> out = rewrite_record cd conn ck i e md states u db \<and>
        hm_wf states \<and> pending_ok st u \<and> vm_five_tuple md = vm_five_tuple (ve_metadata e) \<and>
        apply_point u i (Some e) = Some (e\<lparr>ve_metadata := md, ve_node_states := states\<rparr>) \<and>
        (\<forall>j eo. j \<noteq> i \<longrightarrow> apply_point u j eo = eo))"

lemma live_entryD: "live_entry ck st i = Some e \<Longrightarrow> hm_get (vs_visas st) i = Some e \<and> is_live ck e"
  by (auto simp: live_entry_def split: option.splits if_splits)

lemma hm_wf_map_states [simp]: "hm_wf (map_states f sts) = hm_wf sts"
  by (simp add: map_states_def comp_def split_def)

lemma dom_map_states [simp]: "dom (map_of (map_states f sts)) = dom (map_of sts)"
  by (simp add: dom_map_of_conv_image_fst map_states_def image_image split_def)

lemma map_of_map_states [simp]: "map_of (map_states f sts) a = map_option f (map_of sts a)"
  by (induction sts) (auto simp: map_states_def)

lemma rewriting_SetStates:
  assumes "live_entry ck st i = Some e" "out = rewrite_record cd conn ck i e md states (SetStates i mdo states) db"
    "md = (case mdo of None \<Rightarrow> ve_metadata e | Some m \<Rightarrow> m)"
    "hm_wf states" "dom (map_of states) = dom (map_of (ve_node_states e))"
    "vm_five_tuple md = vm_five_tuple (ve_metadata e)"
  shows "rewriting cd conn ck st i db out"
  unfolding rewriting_def
  by (intro disjI2 exI [of _ e] exI [of _ md] exI [of _ states] exI [of _ "SetStates i mdo states"])
     (use assms live_entryD [OF assms(1)] in \<open>auto split: option.splits\<close>)

lemma rewriting_noop [simp]: "rewriting cd conn ck st i db (db, Inr None)"
  by (simp add: rewriting_def)

lemma op_rewriting:
  assumes "maps_wf st" "touched st opn = {i}" "\<And>v md s. opn \<noteq> StoreVisa v md s" "opn \<noteq> RemoveVisa i"
    "\<And>n. opn \<noteq> ClearNodeState n"
  shows "rewriting cd conn ck st i db (op_io cd conn ck opn db st)"
proof -
  have wf: "hm_wf (ve_node_states e)" if "live_entry ck st i = Some e" for e
    using assms(1) live_entryD [OF that] by (auto simp: maps_wf_def)
  show ?thesis
  proof (cases opn)
    case (RecordAllowVerdict j vi)
    with assms(2) wf show ?thesis
      by (auto simp: record_allow_verdict_io_def Let_def split: option.split intro!: rewriting_SetStates)
  next
    case (RecordDenyVerdict j vi)
    with assms(2) wf show ?thesis
      by (auto simp: record_deny_verdict_io_def Let_def split: option.split intro!: rewriting_SetStates)
  next
    case (MarkVisaRevoked j)
    with assms(2) wf show ?thesis
      by (auto simp: mark_visa_revoked_io_def Let_def split: option.split intro!: rewriting_SetStates)
  next
    case (TransitionNodeVisaState n j s t)
    with assms(2) wf show ?thesis
      by (auto simp: transition_node_visa_state_io_def Let_def hm_wf_insert
          split: option.split if_splits intro!: rewriting_SetStates)
  next
    case (RemoveNodeIfPendingRevoke n j)
    with assms(2) have [simp]: "j = i" by simp
    show ?thesis
    proof (cases "op_io cd conn ck opn db st = (db, Inr None)")
      case False
      then obtain e where e: "live_entry ck st i = Some e"
          "op_io cd conn ck opn db st = rewrite_record cd conn ck i e (ve_metadata e) (hm_remove n (ve_node_states e))
             (DropNode i n (hm_remove n (ve_node_states e))) db"
        using RemoveNodeIfPendingRevoke
        by (auto simp: remove_node_if_pending_revoke_io_def Let_def split: option.splits if_splits)
      show ?thesis
        unfolding rewriting_def
        by (intro disjI2 exI [of _ e] exI [of _ "ve_metadata e"] exI [of _ "hm_remove n (ve_node_states e)"]
            exI [of _ "DropNode i n (hm_remove n (ve_node_states e))"])
           (use e wf live_entryD [OF e(1)] in \<open>auto simp: hm_wf_remove map_of_hm_remove\<close>)
    qed simp
  qed (use assms in auto)
qed

subsection \<open>What a write does to the database\<close>

lemma agrees_other [simp]: "j \<noteq> i \<Longrightarrow> agrees cd ck (m(visa_key_for_visa i := x)) j eo = agrees cd ck m j eo"
  by (simp add: agrees_def)

lemma readable_write:
  "readable cd ck matches m \<Longrightarrow> text_of cd e raw \<Longrightarrow> system_time (v_expires (ve_visa e)) \<Longrightarrow>
     v_expires (ve_visa e) - ck_wall ck - 2 * SEC < x - ck_mono ck \<Longrightarrow>
     readable cd ck matches (m(visa_key_for_visa i \<mapsto> (StrV raw, x)))"
  unfolding readable_def by (auto split: if_splits)

lemma readable_delete: "readable cd ck matches m \<Longrightarrow> readable cd ck matches (m(k := None))"
  by (erule readable_subset) (auto split: if_splits)

lemma agrees_written:
  assumes "text_of cd e raw" "v_expires (ve_visa e) - ck_wall ck - 2 * SEC < x - ck_mono ck"
  shows "agrees cd ck (m(visa_key_for_visa i \<mapsto> (StrV raw, x))) i (Some e)"
  using assms by (auto simp: agrees_def)

lemma agrees_deleted: "agrees cd ck (m(visa_key_for_visa i := None)) i None"
  by (simp add: agrees_def)

text \<open>The contract of the first half of a write: \<open>T\<close> are the visas it is about, \<open>H\<close> those it brings back in line
  whatever the database held before.\<close>

definition write_ok :: "codec \<Rightarrow> clock \<Rightarrow> (string \<Rightarrow> string \<Rightarrow> bool) \<Rightarrow> visa_store \<Rightarrow> u64 set \<Rightarrow> u64 set
    \<Rightarrow> db_state \<Rightarrow> db_state \<Rightarrow> (store_error, visa_update option) result \<Rightarrow> bool" where
  "write_ok cd ck matches st T H m m' r \<longleftrightarrow>
     readable cd ck matches m' \<and> (\<forall>j eo. j \<notin> T \<longrightarrow> agrees cd ck m' j eo = agrees cd ck m j eo) \<and>
     (case r of
        Inl Panic \<Rightarrow> False
      | Inl (Err _) \<Rightarrow> True
      | Inr None \<Rightarrow> m' = m
      | Inr (Some u) \<Rightarrow> pending_ok st u \<and> (\<forall>j eo. j \<notin> T \<longrightarrow> apply_point u j eo = eo) \<and>
          (\<forall>j e. apply_point u j (hm_get (vs_visas st) j) = Some e \<longrightarrow> timed ck e) \<and>
          (\<forall>j \<in> T. j \<in> H \<or> agrees cd ck m j (hm_get (vs_visas st) j) \<longrightarrow>
             agrees cd ck m' j (apply_point u j (hm_get (vs_visas st) j))))"

definition entries_ok :: "clock \<Rightarrow> visa_store \<Rightarrow> bool" where
  "entries_ok ck st \<longleftrightarrow> 0 \<le> ck_wall ck \<and> store_wf st \<and> maps_wf st \<and>
     (\<forall>i e. hm_get (vs_visas st) i = Some e \<longrightarrow> timed ck e)"

lemma write_ok_refl: "readable cd ck matches m \<Longrightarrow> write_ok cd ck matches st T H m m (Inr None)"
  by (simp add: write_ok_def)

lemma write_ok_error:
  assumes "readable cd ck matches m'" "\<And>j eo. j \<notin> T \<Longrightarrow> agrees cd ck m' j eo = agrees cd ck m j eo"
  shows "write_ok cd ck matches st T H m m' (Inl (Err e))"
  using assms by (simp add: write_ok_def)

lemma rewritten_left:
  assumes "timed ck e" "is_live ck e" "0 \<le> ck_wall ck"
  shows "v_expires (ve_visa e) - ck_wall ck - 2 * SEC < ck_mono ck + secs (remaining_secs ck (ve_deadline e)) - ck_mono ck"
  using secs_between_bounds(2) [OF timed_left [OF assms(1,3)]] assms(1)
  by (simp add: timed_def Let_def remaining_secs_def)

lemma record_json_no_panic: "codec_ok cd \<Longrightarrow> record_json cd ck v md states \<noteq> Inl Panic"
  by (auto simp: codec_ok_def record_json_def build_record_def bind_def split: sum.splits option.splits)

lemma hm_wf_initial_states: "hm_wf (initial_states md s)"
proof -
  have "hm_wf sts \<Longrightarrow> hm_wf (fold (\<lambda>n sts. if n = a then sts else hm_insert n x sts) path sts)" for a x path and sts :: node_states
    by (induction path arbitrary: sts) (auto simp: hm_wf_insert)
  then show ?thesis by (simp add: initial_states_def Let_def split: option.split)
qed

lemma agrees_dead:
  assumes "agrees cd ck m i (Some e)" "v_expires (ve_visa e) < ck_wall ck + 2 * SEC" "ve_visa e' = ve_visa e"
  shows "agrees cd ck m i (Some e')"
  using agrees_expired [OF assms(1,2)] assms(2,3) unfolding agrees_def by auto

definition without_node :: "ip_addr \<Rightarrow> visa_entry \<Rightarrow> visa_entry" where
  "without_node n e = e\<lparr>ve_node_states := hm_remove n (ve_node_states e)\<rparr>"

text \<open>The rewrite \<^const>\<open>clear_writes\<close> makes of one visa.\<close>

definition clear_write :: "codec \<Rightarrow> clock \<Rightarrow> visa_store \<Rightarrow> ip_addr \<Rightarrow> u64 \<Rightarrow> (string \<times> u64) option" where
  "clear_write cd ck st n i =
     (case hm_get (vs_visas st) i of
        None \<Rightarrow> None
      | Some e \<Rightarrow>
          if is_live ck e
          then (case record_json cd ck (ve_visa e) (ve_metadata e) (hm_remove n (ve_node_states e)) of
                  Inl _ \<Rightarrow> None
                | Inr json \<Rightarrow> Some (json, remaining_secs ck (ve_deadline e)))
          else None)"

lemma clear_writes_Inr:
  assumes "clear_writes cd ck st n ids = Inr ws"
  shows "ws = map (\<lambda>i. (i, clear_write cd ck st n i)) (filter (\<lambda>i. i \<in> node_refs st n) ids) \<and>
    (\<forall>i \<in> set ids. \<forall>e. i \<in> node_refs st n \<longrightarrow> hm_get (vs_visas st) i = Some e \<longrightarrow> is_live ck e \<longrightarrow>
       (\<exists>json. record_json cd ck (ve_visa e) (ve_metadata e) (hm_remove n (ve_node_states e)) = Inr json))"
  using assms
  by (induction ids arbitrary: ws)
     (auto simp: node_refs_def clear_write_def is_live_def bind_def Let_def split: option.splits if_splits sum.splits)

lemma clear_writes_no_panic: "codec_ok cd \<Longrightarrow> clear_writes cd ck st n ids \<noteq> Inl Panic"
  by (induction ids)
     (auto simp: bind_def Let_def record_json_no_panic split: option.splits sum.splits)

lemma clear_op_effect:
  "(\<And>json ttl. w = Some (json, ttl) \<Longrightarrow> 0 < sint ttl) \<Longrightarrow> fold (spec_op keep now) (clear_ops (i, w)) m =
     (case w of None \<Rightarrow> m | Some (json, ttl) \<Rightarrow> m(visa_key_for_visa i \<mapsto> (StrV json, now + sint ttl * SEC)))"
  by (cases w) (auto simp: clear_ops_def fun_eq_iff)

lemma clear_ops_effect:
  assumes "\<And>i json ttl. i \<in> set ids \<Longrightarrow> w i = Some (json, ttl) \<Longrightarrow> 0 < sint ttl"
  shows "fold (spec_op keep now) (concat (map (\<lambda>i. clear_ops (i, w i)) ids)) m k =
    (case find (\<lambda>i. k = visa_key_for_visa i) ids of
       None \<Rightarrow> m k
     | Some i \<Rightarrow> (case w i of None \<Rightarrow> m k | Some (json, ttl) \<Rightarrow> Some (StrV json, now + sint ttl * SEC)))"
  using assms
proof (induction ids arbitrary: m)
  case (Cons i ids)
  have IH: "fold (spec_op keep now) (concat (map (\<lambda>i. clear_ops (i, w i)) ids)) m' k =
    (case find (\<lambda>i. k = visa_key_for_visa i) ids of
       None \<Rightarrow> m' k
     | Some i \<Rightarrow> (case w i of None \<Rightarrow> m' k | Some (json, ttl) \<Rightarrow> Some (StrV json, now + sint ttl * SEC)))" for m'
    by (intro Cons.IH Cons.prems) simp_all
  have pos: "0 < sint ttl" if "w i = Some (json, ttl)" for json ttl
    using Cons.prems [of i json ttl] that by simp
  have key: "find (\<lambda>j. k = visa_key_for_visa j) ids = Some j \<Longrightarrow> k = visa_key_for_visa j" for j
    by (auto simp: find_Some_iff)
  have fold: "fold (spec_op keep now) (concat (map (\<lambda>i. clear_ops (i, w i)) (i # ids))) m =
      fold (spec_op keep now) (concat (map (\<lambda>i. clear_ops (i, w i)) ids))
        (case w i of None \<Rightarrow> m | Some (json, ttl) \<Rightarrow> m(visa_key_for_visa i \<mapsto> (StrV json, now + sint ttl * SEC)))"
    by (subst clear_op_effect [of "w i", symmetric]) (auto intro: pos)
  show ?case
  proof (cases "find (\<lambda>j. k = visa_key_for_visa j) ids")
    case None
    then show ?thesis unfolding fold IH by (cases "w i") auto
  next
    case (Some j)
    then show ?thesis unfolding fold IH using key [OF Some] by (cases "w i"; cases "w j"; cases "i = j") auto
  qed
qed simp

lemma clear_write_text:
  assumes "codec_ok cd" "entries_ok ck st" "clear_write cd ck st n i = Some (json, ttl)"
  obtains e where "hm_get (vs_visas st) i = Some e" "is_live ck e" "ttl = remaining_secs ck (ve_deadline e)"
    "text_of cd (without_node n e) json" "valid_utf8 json" "timed ck e" "sint ttl * SEC = secs ttl" "0 < sint ttl"
proof -
  obtain e where e: "hm_get (vs_visas st) i = Some e" "is_live ck e" "ttl = remaining_secs ck (ve_deadline e)"
      "record_json cd ck (ve_visa e) (ve_metadata e) (hm_remove n (ve_node_states e)) = Inr json"
    using assms(3) by (auto simp: clear_write_def split: option.splits if_splits sum.splits)
  have t: "timed ck e" "0 \<le> ck_wall ck" "hm_wf (ve_node_states e)"
    using assms(2) e(1) by (auto simp: entries_ok_def maps_wf_def)
  have "text_of cd (without_node n e) json \<and> valid_utf8 json"
    using record_json_text [OF assms(1), of "without_node n e" ck json] t(3) e(4) by (simp add: without_node_def hm_wf_remove)
  moreover have "uint ttl < 2 ^ 63" "0 < uint ttl"
    using secs_between_bounds(3) [OF timed_left [OF t(1,2)]] e(2,3)
    by (simp_all add: remaining_secs_def is_live_def word_less_def)
  then have "sint ttl = uint ttl" by (simp add: sint_uint signed_take_bit_int_eq_self)
  ultimately show ?thesis
    using that [OF e(1-3)] t(1) \<open>0 < uint ttl\<close> by (simp add: secs_def)
qed

lemma agrees_cong: "m' (visa_key_for_visa j) = m (visa_key_for_visa j) \<Longrightarrow> agrees cd ck m' j eo = agrees cd ck m j eo"
  by (simp add: agrees_def)

lemma find_eq: "find ((=) j) xs = (if j \<in> set xs then Some j else None)"
  by (induction xs) auto

text \<open>The database after the pipeline of \<^const>\<open>clear_node_state_io\<close>.\<close>

definition cleared :: "codec \<Rightarrow> clock \<Rightarrow> visa_store \<Rightarrow> ip_addr \<Rightarrow> u64 list \<Rightarrow> db_state \<Rightarrow> db_state" where
  "cleared cd ck st n ids m k = (case find (\<lambda>i. k = visa_key_for_visa i) ids of
     None \<Rightarrow> m k
   | Some i \<Rightarrow> (case clear_write cd ck st n i of None \<Rightarrow> m k | Some (json, ttl) \<Rightarrow> Some (StrV json, ck_mono ck + secs ttl)))"

lemma cleared_key: "cleared cd ck st n ids m (visa_key_for_visa j) = (if j \<in> set ids
    then case clear_write cd ck st n j of None \<Rightarrow> m (visa_key_for_visa j) | Some (json, ttl) \<Rightarrow> Some (StrV json, ck_mono ck + secs ttl)
    else m (visa_key_for_visa j))"
  by (simp add: cleared_def find_eq)

lemma clear_ops_cleared:
  assumes "codec_ok cd" "entries_ok ck st"
  shows "fold (spec_op keep (ck_mono ck)) (concat (map (\<lambda>i. clear_ops (i, clear_write cd ck st n i)) ids)) m =
    cleared cd ck st n ids m"
    "list_all string_op (concat (map (\<lambda>i. clear_ops (i, clear_write cd ck st n i)) ids))"
proof -
  have w: "sint ttl * SEC = secs ttl \<and> 0 < sint ttl \<and> valid_utf8 json" if "clear_write cd ck st n i = Some (json, ttl)" for i json ttl
    using clear_write_text [OF assms that] by metis
  show "fold (spec_op keep (ck_mono ck)) (concat (map (\<lambda>i. clear_ops (i, clear_write cd ck st n i)) ids)) m =
    cleared cd ck st n ids m"
    by (rule ext, subst clear_ops_effect) (auto simp: cleared_def w split: option.split)
  show "list_all string_op (concat (map (\<lambda>i. clear_ops (i, clear_write cd ck st n i)) ids))"
    using w by (auto simp: list_all_iff clear_ops_def split: option.splits dest: sym)
qed

lemma readable_cleared:
  assumes "codec_ok cd" "entries_ok ck st" "readable cd ck matches m"
  shows "readable cd ck matches (cleared cd ck st n ids m)"
  unfolding readable_def
proof (intro conjI allI impI)
  fix k assume k: "cleared cd ck st n ids m k \<noteq> None" "matches VISA_PATTERN k"
  show "\<exists>i. k = visa_key_for_visa i"
  proof (cases "find (\<lambda>i. k = visa_key_for_visa i) ids")
    case None
    with k assms(3) show ?thesis by (simp add: cleared_def readable_def)
  qed (auto simp: find_Some_iff)
next
  fix i v assume v: "cleared cd ck st n ids m (visa_key_for_visa i) = Some v"
  show "\<exists>raw x e. v = (StrV raw, x) \<and> text_of cd e raw \<and> system_time (v_expires (ve_visa e)) \<and>
      v_expires (ve_visa e) - ck_wall ck - 2 * SEC < x - ck_mono ck"
  proof (cases "m (visa_key_for_visa i) = Some v")
    case True
    with assms(3) show ?thesis unfolding readable_def by blast
  next
    case False
    then obtain json ttl where w: "clear_write cd ck st n i = Some (json, ttl)" "v = (StrV json, ck_mono ck + secs ttl)"
      using v by (auto simp: cleared_key split: option.splits if_splits)
    from clear_write_text [OF assms(1,2) w(1)] obtain e where e: "text_of cd (without_node n e) json" "timed ck e"
        "is_live ck e" "ttl = remaining_secs ck (ve_deadline e)" by metis
    moreover have "system_time (v_expires (ve_visa (without_node n e)))"
      using e(2) by (simp add: without_node_def timed_def Let_def)
    moreover have "v_expires (ve_visa (without_node n e)) - ck_wall ck - 2 * SEC < ck_mono ck + secs ttl - ck_mono ck"
      using rewritten_left [OF e(2,3)] assms(2) e(4) by (simp add: without_node_def entries_ok_def)
    ultimately show ?thesis using w(2) by blast
  qed
qed

lemma agrees_cleared:
  assumes "codec_ok cd" "entries_ok ck st" "j \<in> set ids" "hm_get (vs_visas st) j = Some e"
    and json: "is_live ck e \<Longrightarrow> clear_write cd ck st n j \<noteq> None"
    and "agrees cd ck m j (Some e)"
  shows "agrees cd ck (cleared cd ck st n ids m) j (Some (without_node n e))"
proof (cases "clear_write cd ck st n j")
  case None
  have "timed ck e" using assms(2,4) by (simp add: entries_ok_def)
  then have "v_expires (ve_visa e) < ck_wall ck + 2 * SEC" using json None dead_soon by blast
  with assms(6) have "agrees cd ck m j (Some (without_node n e))"
    by (rule agrees_dead) (simp add: without_node_def)
  then show ?thesis by (subst agrees_cong [of _ _ m]) (simp_all add: cleared_key None)
next
  case (Some w)
  then obtain json ttl where w: "clear_write cd ck st n j = Some (json, ttl)" by (cases w) simp
  from clear_write_text [OF assms(1,2) w] assms(4)
  have e: "is_live ck e" "ttl = remaining_secs ck (ve_deadline e)" "text_of cd (without_node n e) json" "timed ck e"
    by (metis option.inject)+
  have "agrees cd ck (m(visa_key_for_visa j \<mapsto> (StrV json, ck_mono ck + secs ttl))) j (Some (without_node n e))"
    using rewritten_left [OF e(4,1)] assms(2) e(2,3)
    by (intro agrees_written) (simp_all add: without_node_def entries_ok_def)
  then show ?thesis
    by (subst agrees_cong [of _ _ "m(visa_key_for_visa j \<mapsto> (StrV json, ck_mono ck + secs ttl))"])
       (simp_all add: cleared_key w assms(3))
qed

subsection \<open>What a restart recovers\<close>

lemma visa_id_of_key_visa [simp]: "visa_id_of_key (visa_key_for_visa i) = Some i"
proof -
  have "CHR '':'' \<notin> set (u64_to_string i)" using u64_chars by blast
  then have "takeWhile (\<lambda>x. x \<noteq> CHR '':'') (rev (u64_to_string i) @ CHR '':'' # rev KEY_VISA) = rev (u64_to_string i)"
    by (subst takeWhile_append2) auto
  then show ?thesis by (simp add: visa_id_of_key_def rsplit_once_def visa_key_for_visa_def)
qed

definition recovered :: "codec \<Rightarrow> clock \<Rightarrow> db_state \<Rightarrow> u64 \<Rightarrow> visa_entry option" where
  "recovered cd ck m i =
     (case m (visa_key_for_visa i) of
        Some (StrV raw, x) \<Rightarrow>
          (case decode_record cd ck raw of Inr e \<Rightarrow> if is_live ck e then Some e else None | Inl _ \<Rightarrow> None)
      | _ \<Rightarrow> None)"

lemma readableD:
  assumes "readable cd ck matches m" "m (visa_key_for_visa i) = Some v"
  obtains raw x e e' where "v = (StrV raw, x)" "text_of cd e raw" "system_time (v_expires (ve_visa e))"
    "v_expires (ve_visa e) - ck_wall ck - 2 * SEC < x - ck_mono ck"
    "same_visa e e'" "hm_wf (ve_node_states e')" "\<And>ck'. decode_record cd ck' raw = Inr (restored ck' e')"
proof -
  obtain raw x e where "v = (StrV raw, x)" "text_of cd e raw" "system_time (v_expires (ve_visa e))"
    "v_expires (ve_visa e) - ck_wall ck - 2 * SEC < x - ck_mono ck"
    using assms unfolding readable_def by blast
  then show ?thesis using that unfolding text_of_def by blast
qed

text \<open>A restart deletes nothing but records of visas about to expire.\<close>

definition shrunk :: "codec \<Rightarrow> clock \<Rightarrow> db_state \<Rightarrow> db_state \<Rightarrow> bool" where
  "shrunk cd ck m m' \<longleftrightarrow>
     (\<forall>k. m' k = m k \<or> m' k = None \<and> (\<exists>i. k = visa_key_for_visa i \<and> recovered cd ck m i = None))"

lemma shrunk_refl [simp]: "shrunk cd ck m m"
  by (simp add: shrunk_def)

lemma shrunk_recovered:
  assumes "shrunk cd ck m m'"
  shows "recovered cd ck m' i = recovered cd ck m i"
proof -
  consider "m' (visa_key_for_visa i) = m (visa_key_for_visa i)"
    | "m' (visa_key_for_visa i) = None" "recovered cd ck m i = None"
    using assms unfolding shrunk_def by (metis visa_key_inj)
  then show ?thesis by cases (simp_all add: recovered_def)
qed

lemma shrunk_trans: "shrunk cd ck m m' \<Longrightarrow> shrunk cd ck m' m'' \<Longrightarrow> shrunk cd ck m m''"
  unfolding shrunk_def [of cd ck m m'']
proof
  fix k assume a: "shrunk cd ck m m'" "shrunk cd ck m' m''"
  have "m'' k = m' k \<or> m'' k = None \<and> (\<exists>i. k = visa_key_for_visa i \<and> recovered cd ck m i = None)"
    using a(2) shrunk_recovered [OF a(1)] by (simp add: shrunk_def)
  moreover have "m' k = m k \<or> m' k = None \<and> (\<exists>i. k = visa_key_for_visa i \<and> recovered cd ck m i = None)"
    using a(1) by (simp add: shrunk_def)
  ultimately show "m'' k = m k \<or> m'' k = None \<and> (\<exists>i. k = visa_key_for_visa i \<and> recovered cd ck m i = None)"
    by auto
qed

lemma shrunk_readable:
  assumes "shrunk cd ck m m'" "readable cd ck matches m"
  shows "readable cd ck matches m'"
proof (rule readable_subset [OF assms(2)])
  fix k v assume "m' k = Some v"
  moreover have "m' k = m k \<or> m' k = None" using assms(1) by (auto simp: shrunk_def)
  ultimately show "m k = Some v" by simp
qed

lemma recovered_ok:
  assumes "readable cd ck matches m" "recovered cd ck m i = Some e" "0 \<le> ck_wall ck"
  shows "timed ck e \<and> hm_wf (ve_node_states e)"
proof -
  from assms(2) obtain v where v: "m (visa_key_for_visa i) = Some v" by (auto simp: recovered_def split: option.splits)
  from readableD [OF assms(1) v] obtain raw x e0 e' where r: "v = (StrV raw, x)" "system_time (v_expires (ve_visa e0))"
      "same_visa e0 e'" "hm_wf (ve_node_states e')" "decode_record cd ck raw = Inr (restored ck e')"
    by metis
  with assms(2) v have e: "e = restored ck e'" by (auto simp: recovered_def split: if_splits)
  have le: "v_expires (ve_visa e') \<le> v_expires (ve_visa e0)" using r(3) by (auto simp: same_visa_def)
  then have sys: "system_time (v_expires (ve_visa e'))" using r(2) by (simp add: system_time_def)
  then have "v_expires (ve_visa e') - ck_wall ck < 2 ^ 63 * SEC" using assms(3) by (simp add: system_time_def)
  note b = secs_between_bounds [OF this]
  show ?thesis using b sys r(4) by (simp add: e restored_def timed_def Let_def seconds_until_def)
qed

lemma restored_dead:
  assumes "\<not> is_live ck (restored ck e)" "0 \<le> ck_wall ck" "system_time (v_expires (ve_visa e))"
  shows "v_expires (ve_visa e) < ck_wall ck + 2 * SEC"
proof -
  have "v_expires (ve_visa e) - ck_wall ck < 2 ^ 63 * SEC" using assms(2,3) by (simp add: system_time_def)
  from secs_between_bounds(2) [OF this] assms(1) show ?thesis
    by (simp add: is_live_iff restored_def seconds_until_def)
qed

lemma agrees_recovered:
  assumes "readable cd ck matches m" "0 \<le> ck_wall ck"
  shows "agrees cd ck m i (recovered cd ck m i)"
proof (cases "m (visa_key_for_visa i)")
  case (Some v)
  from readableD [OF assms(1) Some] obtain raw x e0 e' where r: "v = (StrV raw, x)" "system_time (v_expires (ve_visa e0))"
      "v_expires (ve_visa e0) - ck_wall ck - 2 * SEC < x - ck_mono ck"
      "same_visa e0 e'" "hm_wf (ve_node_states e')" "\<And>ck'. decode_record cd ck' raw = Inr (restored ck' e')"
    by metis
  have le: "v_expires (ve_visa e') \<le> v_expires (ve_visa e0)" using r(4) by (auto simp: same_visa_def)
  have "same_visa (restored ck e') e'" by (auto simp: same_visa_def restored_def intro: exI [of _ "v_expires (ve_visa e')"]
     exI [of _ "vm_ctime (ve_metadata e')"])
  then have new: "text_of cd (restored ck e') raw" unfolding text_of_def using r(5,6) by blast
  show ?thesis
  proof (cases "is_live ck (restored ck e')")
    case True
    then have "recovered cd ck m i = Some (restored ck e')" using Some r(1,6) by (simp add: recovered_def)
    with Some r(1,3) new le show ?thesis by (auto simp: agrees_def restored_def)
  next
    case False
    then have "recovered cd ck m i = None" using Some r(1,6) by (simp add: recovered_def)
    moreover have "v_expires (ve_visa (restored ck e')) < ck_wall ck + 2 * SEC"
      using restored_dead [OF False assms(2)] r(2) le by (simp add: restored_def system_time_def)
    ultimately show ?thesis using Some r(1) new by (auto simp: agrees_def)
  qed
qed (simp add: agrees_def recovered_def)

subsection \<open>Steps that do not touch the database\<close>

lemma image_end:
  "sy_pending s = Some u \<Longrightarrow> image (s\<lparr>sy_store := apply_update u (sy_store s), sy_pending := None\<rparr>) = image s"
  by (simp add: image_def)

lemma visa_inv_end:
  assumes inv: "visa_inv cd contents matches s" and u: "sy_pending s = Some u"
  shows "visa_inv cd contents matches (s\<lparr>sy_store := apply_update u (sy_store s), sy_pending := None\<rparr>)"
proof -
  have "store_wf (sy_store s)" "maps_wf (sy_store s)" "pending_ok (sy_store s) u"
    using inv u by (auto simp: visa_inv_def Let_def)
  from apply_update_wf [OF this] inv show ?thesis
    unfolding visa_inv_def Let_def image_end [OF u] by simp
qed

lemma image_purge:
  assumes "maps_wf (sy_store s)"
  shows "hm_get (vs_visas (image (s\<lparr>sy_store := drop_expired ck (sy_store s)\<rparr>))) i = hm_get (vs_visas (image s)) i \<or>
    hm_get (vs_visas (image (s\<lparr>sy_store := drop_expired ck (sy_store s)\<rparr>))) i = None \<and>
    (\<exists>e. hm_get (vs_visas (image s)) i = Some e \<and> \<not> is_live ck e)"
proof (cases "sy_pending s")
  case None
  then show ?thesis by (auto simp: image_def visas_drop_expired [OF assms] split: option.split)
next
  case (Some u)
  then show ?thesis using image_drop [OF assms, of u ck i] by (simp add: image_def)
qed

lemma visa_inv_purge:
  assumes inv: "visa_inv cd contents matches s"
  shows "visa_inv cd contents matches (s\<lparr>sy_store := drop_expired (sy_ck s) (sy_store s)\<rparr>)"
proof -
  let ?s = "s\<lparr>sy_store := drop_expired (sy_ck s) (sy_store s)\<rparr>"
  have wf: "store_wf (sy_store s)" "maps_wf (sy_store s)" "\<And>u. sy_pending s = Some u \<Longrightarrow> pending_ok (sy_store s) u"
    and timed: "\<And>i e. hm_get (vs_visas (image s)) i = Some e \<Longrightarrow> timed (sy_ck s) e"
    and agrees: "\<And>i. i \<notin> sy_failed s \<Longrightarrow>
      agrees cd (sy_ck s) (alive (ck_mono (sy_ck s)) (contents (sy_db s))) i (hm_get (vs_visas (image s)) i)"
    using inv by (auto simp: visa_inv_def Let_def)
  note purge = image_purge [OF wf(2), of "sy_ck s"]
  have "timed (sy_ck s) e" if "hm_get (vs_visas (image ?s)) i = Some e" for i e
    using purge [of i] that timed by auto
  moreover have "agrees cd (sy_ck s) (alive (ck_mono (sy_ck s)) (contents (sy_db s))) i (hm_get (vs_visas (image ?s)) i)"
    if "i \<notin> sy_failed s" for i
  proof -
    from purge [of i] consider "hm_get (vs_visas (image ?s)) i = hm_get (vs_visas (image s)) i"
      | e where "hm_get (vs_visas (image ?s)) i = None" "hm_get (vs_visas (image s)) i = Some e" "\<not> is_live (sy_ck s) e" by blast
    then show ?thesis
    proof cases
      case (2 e)
      then have "v_expires (ve_visa e) < ck_wall (sy_ck s) + 2 * SEC" using timed dead_soon by blast
      with 2 agrees [OF that] show ?thesis by (simp add: agrees_expired)
    qed (use agrees [OF that] in simp)
  qed
  ultimately show ?thesis
    using inv drop_expired_wf [OF wf(1,2)] pending_ok_drop [OF wf(2) wf(3)]
    by (simp add: visa_inv_def Let_def)
qed

lemma image_ck [simp]: "image (s\<lparr>sy_ck := ck\<rparr>) = image s"
  by (simp add: image_def split: option.split)

lemma visa_inv_tick:
  assumes inv: "visa_inv cd contents matches s" and d: "0 \<le> d"
  shows "visa_inv cd contents matches (s\<lparr>sy_ck := advance d (sy_ck s)\<rparr>)"
proof -
  define ck where "ck = sy_ck s"
  define m where "m = alive (ck_mono ck) (contents (sy_db s))"
  have m': "alive (ck_mono (advance d ck)) (contents (sy_db s)) = alive (ck_mono (advance d ck)) m"
    using d by (simp add: m_def alive_alive advance_def)
  have i: "0 \<le> ck_wall ck" "store_wf (sy_store s)" "maps_wf (sy_store s)"
      "\<And>u. sy_pending s = Some u \<Longrightarrow> pending_ok (sy_store s) u"
      "\<And>i e. hm_get (vs_visas (image s)) i = Some e \<Longrightarrow> timed ck e" "readable cd ck matches m"
      "\<And>i. i \<notin> sy_failed s \<Longrightarrow> agrees cd ck m i (hm_get (vs_visas (image s)) i)"
    using inv by (auto simp: visa_inv_def Let_def ck_def m_def)
  have "0 \<le> ck_wall (advance d ck)" using i(1) d by (simp add: advance_def)
  with i readable_advance [OF i(6)] agrees_advance [OF i(7) d] timed_advance [OF i(5) d] show ?thesis
    unfolding visa_inv_def Let_def image_ck by (simp add: ck_def [symmetric] m')
qed

context db_strings
begin

lemma set_ex_cases:
  assumes "db_set_ex conn k v s now db = (db', r)"
  obtains "r = Inr ()" "alive now (contents db') = (alive now (contents db))(k \<mapsto> (StrV v, now + secs s))"
  | e where "r = Inl (Err e)" "alive now (contents db') = (alive now (contents db))(k \<mapsto> (StrV v, now + secs s))"
  | e where "r = Inl (Err e)" "alive now (contents db') = alive now (contents db)"
  using set_ex_law [of now db k v s] assms by (auto simp: obeys_def split: sum.splits fault.splits)

lemma del_cases:
  assumes "db_del conn k now db = (db', r)"
  obtains "r = Inr ()" "alive now (contents db') = (alive now (contents db))(k := None)"
  | e where "r = Inl (Err e)" "alive now (contents db') = (alive now (contents db))(k := None)"
  | e where "r = Inl (Err e)" "alive now (contents db') = alive now (contents db)"
  using del_law [of now db k] assms by (auto simp: obeys_def split: sum.splits fault.splits)

lemma pipeline_cases:
  assumes "db_atomic_pipeline conn ops now db = (db', r)" "list_all string_op ops"
  obtains "r = Inr ()" "alive now (contents db') = fold (spec_op keep now) ops (alive now (contents db))"
  | e where "r = Inl (Err e)" "alive now (contents db') = fold (spec_op keep now) ops (alive now (contents db))"
  | e where "r = Inl (Err e)" "alive now (contents db') = alive now (contents db)"
  using pipeline_law [OF assms(2), of now db] assms(1) by (auto simp: obeys_def split: sum.splits fault.splits)

lemma rewriting_write_ok:
  assumes cd: "codec_ok cd" and st: "entries_ok ck st"
    and m: "m = alive (ck_mono ck) (contents db)" "readable cd ck matches m"
    and out: "rewriting cd conn ck st i db (db', r)"
  shows "write_ok cd ck matches st {i} {i} m (alive (ck_mono ck) (contents db')) r"
proof (cases "(db', r) = (db, Inr None)")
  case True
  then show ?thesis using m by (simp add: write_ok_refl)
next
  case False
  then obtain e md states u where e: "live_entry ck st i = Some e"
      and rw: "rewrite_record cd conn ck i e md states u db = (db', r)"
      and u: "hm_wf states" "pending_ok st u" "apply_point u i (Some e) = Some (e\<lparr>ve_metadata := md, ve_node_states := states\<rparr>)"
        "\<And>j eo. j \<noteq> i \<Longrightarrow> apply_point u j eo = eo"
    using out unfolding rewriting_def by (auto dest: sym)
  note live = live_entryD [OF e]
  define e' where "e' = e\<lparr>ve_metadata := md, ve_node_states := states\<rparr>"
  have timed: "timed ck e" using st live unfolding entries_ok_def by blast
  then have timed': "timed ck e'" by (subst timed_cong [of e' e]) (simp_all add: e'_def)
  show ?thesis
  proof (cases "record_json cd ck (ve_visa e) md states")
    case (Inl err)
    then have "db' = db" "r = Inl err" using rw by (simp_all add: rewrite_record_def)
    moreover have "err \<noteq> Panic" using record_json_no_panic [OF cd] Inl by metis
    ultimately show ?thesis using m by (cases err) (auto intro: write_ok_error)
  next
    case (Inr raw)
    then have raw: "text_of cd e' raw"
      using record_json_text [OF cd, of e' ck raw] u(1) by (simp add: e'_def)
    define m' where "m' = m(visa_key_for_visa i \<mapsto> (StrV raw, ck_mono ck + secs (remaining_secs ck (ve_deadline e))))"
    have "system_time (v_expires (ve_visa e'))" using timed' by (simp add: timed_def Let_def)
    moreover have left: "v_expires (ve_visa e') - ck_wall ck - 2 * SEC <
        ck_mono ck + secs (remaining_secs ck (ve_deadline e)) - ck_mono ck"
      using rewritten_left [OF timed] live st by (simp add: e'_def entries_ok_def)
    ultimately have readable': "readable cd ck matches m'" unfolding m'_def by (rule readable_write [OF m(2) raw])
    have agrees': "agrees cd ck m' i (Some e')" unfolding m'_def by (rule agrees_written [OF raw left])
    obtain db1 r1 where set: "db_set_ex conn (visa_key_for_visa i) raw (remaining_secs ck (ve_deadline e)) (ck_mono ck) db = (db1, r1)"
      by fastforce
    from set show ?thesis
    proof (cases rule: set_ex_cases)
      case 1
      then have "db1 = db'" "r = Inr (Some u)" using rw Inr set by (simp_all add: rewrite_record_def)
      moreover have "apply_point u j (hm_get (vs_visas st) j) = Some e'' \<Longrightarrow> timed ck e''" for j e''
        using u(3,4) live timed' st by (cases "j = i") (auto simp: e'_def entries_ok_def)
      ultimately show ?thesis
        using 1 readable' agrees' u live m(1) by (auto simp: write_ok_def m'_def e'_def)
    next
      case (2 err)
      then have "db1 = db'" "r = Inl (Err (StRedis err))" using rw Inr set by (simp_all add: rewrite_record_def from_redis_def)
      then show ?thesis using 2 readable' m(1) by (auto simp: m'_def intro: write_ok_error)
    next
      case (3 err)
      then have "db1 = db'" "r = Inl (Err (StRedis err))" using rw Inr set by (simp_all add: rewrite_record_def from_redis_def)
      then show ?thesis using 3 m by (auto intro: write_ok_error)
    qed
  qed
qed

lemma store_write_ok:
  assumes cd: "codec_ok cd" and st: "entries_ok ck st" and fresh: "op_fresh st (StoreVisa v md s)"
    and m: "m = alive (ck_mono ck) (contents db)" "readable cd ck matches m"
    and out: "store_visa_io cd conn ck v md s db st = (db', r)"
  shows "write_ok cd ck matches st {issuer_id v} {issuer_id v} m (alive (ck_mono ck) (contents db')) r"
proof (cases "seconds_until ck (v_expires v) = 0")
  case True
  then show ?thesis using m out by (auto simp: store_visa_io_def intro: write_ok_refl)
next
  case False
  define ttl where "ttl = seconds_until ck (v_expires v)"
  define e where "e = \<lparr>ve_visa = v, ve_metadata = md, ve_deadline = ck_mono ck + secs ttl, ve_node_states = initial_states md s\<rparr>"
  have sys: "system_time (v_expires v)" using fresh by simp
  then have "v_expires v - ck_wall ck < 2 ^ 63 * SEC" using st by (simp add: system_time_def entries_ok_def)
  note b = secs_between_bounds [OF this]
  have timed: "timed ck e"
    using b sys by (simp add: timed_def Let_def e_def ttl_def seconds_until_def)
  show ?thesis
  proof (cases "record_json cd ck v md (initial_states md s)")
    case (Inl err)
    then have "db' = db" "r = Inl err" using out False by (simp_all add: store_visa_io_def Let_def)
    moreover have "err \<noteq> Panic" using record_json_no_panic [OF cd] Inl by metis
    ultimately show ?thesis using m by (cases err) (auto intro: write_ok_error)
  next
    case (Inr raw)
    then have raw: "text_of cd e raw"
      using record_json_text [OF cd, of e ck raw] by (simp add: e_def hm_wf_initial_states)
    define m' where "m' = m(visa_key_for_visa (issuer_id v) \<mapsto> (StrV raw, ck_mono ck + secs ttl))"
    have readable': "readable cd ck matches m'"
      unfolding m'_def using b(2)
      by (intro readable_write [OF m(2) raw]) (simp_all add: e_def sys ttl_def seconds_until_def)
    have agrees': "agrees cd ck m' (issuer_id v) (Some e)"
      unfolding m'_def using raw b(2) by (intro agrees_written) (simp_all add: e_def ttl_def seconds_until_def)
    obtain db1 r1 where set: "db_set_ex conn (visa_key_for_visa (issuer_id v)) raw ttl (ck_mono ck) db = (db1, r1)"
      by fastforce
    obtain db2 r2 where del: "db_del conn (visa_key_for_visa (issuer_id v)) (ck_mono ck) db1 = (db2, r2)"
      by fastforce
    have failed: ?thesis if "r1 = Inl (Err err)" "alive (ck_mono ck) (contents db1) \<in> {m, m'}" for err
    proof -
      have "db' = db2" "r = Inl (Err (StRedis err))"
        using out that(1) False Inr set del by (simp_all add: store_visa_io_def Let_def from_redis_def ttl_def)
      moreover have "alive (ck_mono ck) (contents db2) \<in> {m, m', m(visa_key_for_visa (issuer_id v) := None)}"
        using del by (cases rule: del_cases) (use that(2) in \<open>auto simp: m'_def\<close>)
      ultimately show ?thesis
        using readable' m(2) readable_delete [OF m(2)] by (auto simp: m'_def intro: write_ok_error)
    qed
    from set show ?thesis
    proof (cases rule: set_ex_cases)
      case 1
      then have "db1 = db'" "r = Inr (Some (Insert (issuer_id v) e))"
        using out False Inr set by (simp_all add: store_visa_io_def Let_def ttl_def e_def)
      then show ?thesis
        using 1 readable' agrees' timed fresh m(1) st
        by (auto simp: write_ok_def m'_def e_def hm_wf_initial_states entries_ok_def)
    qed (use failed m(1) in \<open>auto simp: m'_def\<close>)
  qed
qed

lemma remove_write_ok:
  assumes st: "entries_ok ck st" and m: "m = alive (ck_mono ck) (contents db)" "readable cd ck matches m"
    and out: "remove_visa_io conn ck i db st = (db', r)"
  shows "write_ok cd ck matches st {i} {i} m (alive (ck_mono ck) (contents db')) r"
proof -
  obtain db1 r1 where del: "db_del conn (visa_key_for_visa i) (ck_mono ck) db = (db1, r1)" by fastforce
  then show ?thesis
  proof (cases rule: del_cases)
    case 1
    then have "db' = db1" "r = Inr (Some (Remove i))" using out del by (simp_all add: remove_visa_io_def)
    then show ?thesis
      using 1 m readable_delete [OF m(2)] agrees_deleted st by (auto simp: write_ok_def entries_ok_def)
  qed (use out del m readable_delete [OF m(2)] in \<open>auto simp: remove_visa_io_def from_redis_def intro: write_ok_error\<close>)
qed

lemma clear_write_ok:
  assumes cd: "codec_ok cd" and st: "entries_ok ck st"
    and m: "m = alive (ck_mono ck) (contents db)" "readable cd ck matches m"
    and out: "clear_node_state_io cd conn ck n db st = (db', r)"
  shows "write_ok cd ck matches st (row (vs_by_node st) n) {} m (alive (ck_mono ck) (contents db')) r"
proof -
  define ids where "ids = (case hm_get (vs_by_node st) n of None \<Rightarrow> [] | Some ids \<Rightarrow> ids)"
  have row: "row (vs_by_node st) n = set ids" by (simp add: row_def ids_def split: option.split)
  also have "row (vs_by_node st) n = node_refs st n" using st by (simp add: entries_ok_def store_wf_def)
  finally have refs: "node_refs st n = set ids" .
  have timed: "hm_get (vs_visas st) i = Some e \<Longrightarrow> timed ck e" and wall: "0 \<le> ck_wall ck"
    and wf: "hm_get (vs_visas st) i = Some e \<Longrightarrow> hm_wf (ve_node_states e)" for i e
    using st by (auto simp: entries_ok_def maps_wf_def)
  show ?thesis
  proof (cases "clear_writes cd ck st n ids")
    case (Inl err)
    then have "db' = db" "r = Inl err" using out by (simp_all add: clear_node_state_io_def ids_def [symmetric])
    moreover have "err \<noteq> Panic" using clear_writes_no_panic [OF cd] Inl by metis
    ultimately show ?thesis using m by (cases err) (auto intro: write_ok_error)
  next
    case (Inr ws)
    have ws: "ws = map (\<lambda>i. (i, clear_write cd ck st n i)) ids"
        "\<And>i e. i \<in> set ids \<Longrightarrow> hm_get (vs_visas st) i = Some e \<Longrightarrow> is_live ck e \<Longrightarrow> clear_write cd ck st n i \<noteq> None"
      using clear_writes_Inr [OF Inr] unfolding refs by (force simp: clear_write_def)+
    define ops where "ops = concat (map (\<lambda>i. clear_ops (i, clear_write cd ck st n i)) ids)"
    define m' where "m' = cleared cd ck st n ids m"
    note ops = clear_ops_cleared [OF cd st, where n = n and ids = ids, folded ops_def]
    have io: "clear_node_state_io cd conn ck n db st = (if ops = [] then (db, Inr (Some (ClearNode n ids)))
        else case db_atomic_pipeline conn ops (ck_mono ck) db of (db', Inl err) \<Rightarrow> (db', from_redis (Inl err))
          | (db', Inr _) \<Rightarrow> (db', Inr (Some (ClearNode n ids))))"
      unfolding clear_node_state_io_def ids_def [symmetric] Inr
      by (simp add: ws(1) comp_def Let_def ops_def [symmetric] del: concat_eq_Nil_conv split del: if_split)
    have fine: ?thesis if "r = Inr (Some (ClearNode n ids))" "alive (ck_mono ck) (contents db') = m'"
    proof -
      have "agrees cd ck m' j (apply_point (ClearNode n ids) j (hm_get (vs_visas st) j))"
        if "j \<in> set ids" "agrees cd ck m j (hm_get (vs_visas st) j)" for j
      proof -
        obtain e where "hm_get (vs_visas st) j = Some e" using \<open>j \<in> set ids\<close> refs by (auto simp: node_refs_def)
        with agrees_cleared [OF cd st that(1) this ws(2) [OF that(1) this]] that show ?thesis
          by (simp add: without_node_def m'_def)
      qed
      moreover have "timed ck e" if "apply_point (ClearNode n ids) j (hm_get (vs_visas st) j) = Some e" for j e
        using that timed by (auto simp: timed_def split: if_splits)
      ultimately show ?thesis
        using that readable_cleared [OF cd st m(2)] unfolding write_ok_def row
        by (auto simp: m'_def cleared_key intro!: agrees_cong)
    qed
    show ?thesis
    proof (cases "ops = []")
      case True
      then have "m' = m" using ops(1) [of keep m] True by (simp add: m'_def)
      with True io out m(1) show ?thesis by (intro fine) simp_all
    next
      case False
      obtain db1 r1 where pipe: "db_atomic_pipeline conn ops (ck_mono ck) db = (db1, r1)" by fastforce
      from pipe ops(2) show ?thesis
      proof (cases rule: pipeline_cases)
        case 1
        with False io out pipe ops(1) m(1) show ?thesis by (intro fine) (simp_all add: m'_def)
      next
        case (2 err)
        then have "r = Inl (Err (StRedis err))" "alive (ck_mono ck) (contents db') = m'"
          using False io out pipe ops(1) m(1) by (simp_all add: m'_def from_redis_def)
        then show ?thesis
          using readable_cleared [OF cd st m(2)] unfolding row
          by (auto simp: m'_def cleared_key intro!: write_ok_error agrees_cong)
      next
        case (3 err)
        then have "r = Inl (Err (StRedis err))" "alive (ck_mono ck) (contents db') = m"
          using False io out pipe m(1) by (simp_all add: from_redis_def)
        then show ?thesis using m(2) by (auto intro: write_ok_error)
      qed
    qed
  qed
qed

lemma op_write_ok:
  assumes "codec_ok cd" "entries_ok ck st" "op_fresh st opn"
    and "m = alive (ck_mono ck) (contents db)" "readable cd ck matches m"
    and out: "op_io cd conn ck opn db st = (db', r)"
  shows "write_ok cd ck matches st (touched st opn) (healed opn) m (alive (ck_mono ck) (contents db')) r"
proof -
  have maps: "maps_wf st" using assms(2) by (simp add: entries_ok_def)
  have other: ?thesis if "touched st opn = {i}" "healed opn = {i}" "\<And>v md s. opn \<noteq> StoreVisa v md s" "opn \<noteq> RemoveVisa i"
    "\<And>n. opn \<noteq> ClearNodeState n" for i
    using rewriting_write_ok [OF assms(1,2,4,5)] op_rewriting [OF maps that(1,3-5), of cd conn ck db] that(1,2) out by simp
  show ?thesis
  proof (cases opn)
    case (StoreVisa v md s)
    with assms store_write_ok [OF assms(1,2), of v md s m db db' r] show ?thesis by simp
  next
    case (RemoveVisa i)
    with assms remove_write_ok [OF assms(2), of m db cd i db' r] show ?thesis by simp
  next
    case (ClearNodeState n)
    with assms clear_write_ok [OF assms(1,2), of m db n db' r] show ?thesis by simp
  qed (rule other; simp)+
qed

lemma visa_inv_begin:
  assumes inv: "visa_inv cd contents matches s" and idle: "sy_pending s = None" and sub: "H \<subseteq> T"
    and ok: "write_ok cd (sy_ck s) matches (sy_store s) T H (alive (ck_mono (sy_ck s)) (contents (sy_db s)))
      (alive (ck_mono (sy_ck s)) (contents db')) (Inr (Some u))"
  shows "visa_inv cd contents matches (s\<lparr>sy_db := db', sy_pending := Some u, sy_failed := sy_failed s - H\<rparr>)"
proof -
  define ck where "ck = sy_ck s"
  define m where "m = alive (ck_mono ck) (contents (sy_db s))"
  define m' where "m' = alive (ck_mono ck) (contents db')"
  note inv' = inv [unfolded visa_inv_def Let_def image_def idle, folded ck_def, folded m_def, simplified]
  note ok' = ok [unfolded write_ok_def, folded ck_def, folded m_def m'_def, simplified]
  have "agrees cd ck m' i (apply_point u i (hm_get (vs_visas (sy_store s)) i))" if "i \<notin> sy_failed s - H" for i
  proof (cases "i \<in> H")
    case True
    with ok' sub show ?thesis by blast
  next
    case False
    with that inv' have "agrees cd ck m i (hm_get (vs_visas (sy_store s)) i)" by simp
    with ok' show ?thesis by (cases "i \<in> T") simp_all
  qed
  then show ?thesis
    using inv' ok' by (simp add: visa_inv_def Let_def image_def visas_apply ck_def [symmetric] m'_def [symmetric])
qed

lemma visa_inv_fail:
  assumes inv: "visa_inv cd contents matches s" and idle: "sy_pending s = None"
    and ok: "write_ok cd (sy_ck s) matches (sy_store s) T H (alive (ck_mono (sy_ck s)) (contents (sy_db s)))
      (alive (ck_mono (sy_ck s)) (contents db')) r"
  shows "visa_inv cd contents matches (s\<lparr>sy_db := db', sy_failed := sy_failed s \<union> T\<rparr>)"
  using inv ok by (simp add: visa_inv_def Let_def image_def idle write_ok_def)

lemma visa_inv_no_op:
  assumes inv: "visa_inv cd contents matches s"
    and ok: "write_ok cd (sy_ck s) matches (sy_store s) T H (alive (ck_mono (sy_ck s)) (contents (sy_db s)))
      (alive (ck_mono (sy_ck s)) (contents db')) (Inr None)"
  shows "visa_inv cd contents matches (s\<lparr>sy_db := db'\<rparr>)"
proof -
  have "alive (ck_mono (sy_ck s)) (contents db') = alive (ck_mono (sy_ck s)) (contents (sy_db s))"
    using ok by (simp add: write_ok_def)
  with inv show ?thesis unfolding visa_inv_def Let_def by simp
qed

lemma get_cases:
  assumes "db_get conn k now db = (db', r)"
  obtains v where "r = Inr v" "string_at (alive now (contents db)) k = Some v" "alive now (contents db') = alive now (contents db)"
  | e where "r = Inl (Err e)"
  using get_law [of now db k] assms by (auto simp: obeys_def split: sum.splits fault.splits)

lemma restore_key_spec:
  assumes m: "m = alive (ck_mono ck) (contents db)" and readable: "readable cd ck matches m" and "0 \<le> ck_wall ck"
    and key: "matches VISA_PATTERN key"
    and st: "store_wf st" "maps_wf st" "\<And>i e. hm_get (vs_visas st) i = Some e \<Longrightarrow> recovered cd ck m i = Some e"
    and out: "restore_key cd conn ck key db st = (db', Inr st')"
  shows "shrunk cd ck m (alive (ck_mono ck) (contents db')) \<and> store_wf st' \<and> maps_wf st' \<and>
    (\<forall>i. hm_get (vs_visas st') i = (if key = visa_key_for_visa i then recovered cd ck m i else hm_get (vs_visas st) i))"
proof -
  have default: "visa_key_for_visa i = key \<Longrightarrow> recovered cd ck m i = None \<Longrightarrow> hm_get (vs_visas st) i = None" for i
    using st(3) [of i] by (cases "hm_get (vs_visas st) i") auto
  obtain db1 r1 where get: "db_get conn key (ck_mono ck) db = (db1, r1)" by fastforce
  then show ?thesis
  proof (cases rule: get_cases)
    case (1 v)
    show ?thesis
    proof (cases "m key")
      case None
      then have "db' = db1" "st' = st" using out get 1 m by (auto simp: restore_key_def string_at_def)
      moreover have "recovered cd ck m i = None" if "key = visa_key_for_visa i" for i
        using None that by (simp add: recovered_def)
      ultimately show ?thesis using 1 m st default by auto
    next
      case (Some w)
      then obtain i where i: "key = visa_key_for_visa i" using readable key unfolding readable_def by blast
      from readableD [OF readable Some [unfolded i]] obtain raw x e e' where
          r: "w = (StrV raw, x)" "\<And>ck'. decode_record cd ck' raw = Inr (restored ck' e')"
        by metis
      have v: "v = Some raw" using 1 Some m r(1) by (simp add: string_at_def)
      show ?thesis
      proof (cases "is_live ck (restored ck e')")
        case True
        then have rec: "recovered cd ck m i = Some (restored ck e')" using Some i r by (simp add: recovered_def)
        have "db' = db1" "st' = insert_entry i (restored ck e') st"
          using out get 1 v i r(2) True by (auto simp: restore_key_def)
        moreover have "store_wf (insert_entry i (restored ck e') st)"
          using st(1) by (rule store_wf_insert) (use st(3) rec in \<open>auto simp: same_refs_def\<close>)
        moreover have "maps_wf (insert_entry i (restored ck e') st)"
          using st(2) recovered_ok [OF readable rec assms(3)] by (auto intro: maps_wf_insert)
        ultimately show ?thesis using 1 m i rec by simp
      next
        case False
        then have rec: "recovered cd ck m i = None" using Some i r by (simp add: recovered_def)
        obtain db2 r2 where del: "db_del conn key (ck_mono ck) db1 = (db2, r2)" by fastforce
        then have "db' = db2" "st' = st" "r2 = Inr ()"
          using out get 1 v i r(2) False by (auto simp: restore_key_def delete_key_def bind_def from_redis_def split: sum.splits fault.splits)
        moreover have "alive (ck_mono ck) (contents db2) = m(key := None)"
          using del \<open>r2 = Inr ()\<close> by (cases rule: del_cases) (use 1 m in auto)
        ultimately show ?thesis using st default i rec by (auto simp: shrunk_def)
      qed
    qed
  qed (use out get in \<open>simp add: restore_key_def from_redis_def\<close>)
qed

lemma restore_keys_spec:
  assumes "m = alive (ck_mono ck) (contents db)" "readable cd ck matches m" "0 \<le> ck_wall ck"
    and "\<forall>k \<in> set keys. matches VISA_PATTERN k"
    and "store_wf st" "maps_wf st" "\<And>i e. hm_get (vs_visas st) i = Some e \<Longrightarrow> recovered cd ck m i = Some e"
    and "restore_keys cd conn ck keys db st = (db', Inr st')"
  shows "shrunk cd ck m (alive (ck_mono ck) (contents db')) \<and> store_wf st' \<and> maps_wf st' \<and>
    (\<forall>i. hm_get (vs_visas st') i = (if visa_key_for_visa i \<in> set keys then recovered cd ck m i else hm_get (vs_visas st) i))"
  using assms
proof (induction keys arbitrary: m db st)
  case (Cons key keys)
  obtain db1 st1 where one: "restore_key cd conn ck key db st = (db1, Inr st1)"
      and rest: "restore_keys cd conn ck keys db1 st1 = (db', Inr st')"
    using Cons.prems(8) by (auto split: prod.splits sum.splits)
  have "matches VISA_PATTERN key" using Cons.prems(4) by simp
  from restore_key_spec [OF Cons.prems(1-3) this Cons.prems(5-7) one]
  have s1: "shrunk cd ck m (alive (ck_mono ck) (contents db1))" "store_wf st1" "maps_wf st1"
      "\<And>i. hm_get (vs_visas st1) i = (if key = visa_key_for_visa i then recovered cd ck m i else hm_get (vs_visas st) i)"
    by blast+
  note same = shrunk_recovered [OF s1(1)]
  have "\<forall>k \<in> set keys. matches VISA_PATTERN k" using Cons.prems(4) by simp
  moreover have "recovered cd ck (alive (ck_mono ck) (contents db1)) i = Some e" if "hm_get (vs_visas st1) i = Some e" for i e
    using that s1(4) [of i] Cons.prems(7) [of i e] same by (simp split: if_splits)
  ultimately have "shrunk cd ck (alive (ck_mono ck) (contents db1)) (alive (ck_mono ck) (contents db')) \<and> store_wf st' \<and> maps_wf st' \<and>
    (\<forall>i. hm_get (vs_visas st') i = (if visa_key_for_visa i \<in> set keys
      then recovered cd ck (alive (ck_mono ck) (contents db1)) i else hm_get (vs_visas st1) i))"
    using rest by (intro Cons.IH [OF refl shrunk_readable [OF s1(1) Cons.prems(2)] Cons.prems(3) _ s1(2,3)])
  then show ?case using shrunk_trans [OF s1(1)] by (auto simp: same s1(4))
qed simp

lemma restore_from_state_spec:
  assumes keys: "\<And>i. matches VISA_PATTERN (visa_key_for_visa i)"
    and m: "m = alive (ck_mono ck) (contents db)" and "readable cd ck matches m" "0 \<le> ck_wall ck"
    and out: "restore_from_state cd conn ck db = (db', Inr st')"
  shows "shrunk cd ck m (alive (ck_mono ck) (contents db')) \<and> store_wf st' \<and> maps_wf st' \<and>
    (\<forall>i. hm_get (vs_visas st') i = recovered cd ck m i)"
proof -
  obtain db1 r where scan: "db_scan_match_all conn VISA_PATTERN (ck_mono ck) db = (db1, r)" by fastforce
  note law = scan_law [OF scan]
  then obtain ks where ks: "r = Inr ks" "restore_keys cd conn ck ks db1 store_default = (db', Inr st')"
    using out scan by (cases r) (auto simp: restore_from_state_def from_redis_def split: fault.splits)
  have m1: "m = alive (ck_mono ck) (contents db1)" using law m by simp
  have all: "\<forall>k \<in> set ks. matches VISA_PATTERN k" "{k \<in> dom m. matches VISA_PATTERN k} \<subseteq> set ks"
    using law ks(1) m by auto
  have "maps_wf store_default" by (simp add: maps_wf_def store_default_def)
  from restore_keys_spec [OF m1 assms(3,4) all(1) store_wf_default this _ ks(2)]
  have spec: "shrunk cd ck m (alive (ck_mono ck) (contents db')) \<and> store_wf st' \<and> maps_wf st' \<and>
    (\<forall>i. hm_get (vs_visas st') i = (if visa_key_for_visa i \<in> set ks then recovered cd ck m i else None))"
    by (simp add: store_default_def)
  have "recovered cd ck m i = None" if "visa_key_for_visa i \<notin> set ks" for i
  proof -
    have "m (visa_key_for_visa i) = None" using that all(2) keys [of i] by blast
    then show ?thesis by (simp add: recovered_def)
  qed
  with spec show ?thesis by simp
qed

lemma visa_inv_restart:
  assumes keys: "\<And>i. matches VISA_PATTERN (visa_key_for_visa i)" and inv: "visa_inv cd contents matches s"
    and out: "restore_from_state cd conn (sy_ck s) (sy_db s) = (db', Inr st')"
  shows "visa_inv cd contents matches (s\<lparr>sy_db := db', sy_store := st', sy_pending := None, sy_failed := {}\<rparr>)"
proof -
  have w: "0 \<le> ck_wall (sy_ck s)"
    and r: "readable cd (sy_ck s) matches (alive (ck_mono (sy_ck s)) (contents (sy_db s)))"
    using inv by (auto simp: visa_inv_def Let_def)
  note spec = restore_from_state_spec [OF keys refl r w out]
  then have sh: "shrunk cd (sy_ck s) (alive (ck_mono (sy_ck s)) (contents (sy_db s))) (alive (ck_mono (sy_ck s)) (contents db'))"
    by simp
  note r' = shrunk_readable [OF sh r]
  show ?thesis
    using spec w r' agrees_recovered [OF r' w] recovered_ok [OF r _ w] shrunk_recovered [OF sh]
    by (simp add: visa_inv_def Let_def image_def)
qed

lemma healed_touched: "healed opn \<subseteq> touched st opn"
  by (cases opn) auto

lemma visa_inv_step:
  assumes cd: "codec_ok cd" and keys: "\<And>i. matches VISA_PATTERN (visa_key_for_visa i)"
    and "visa_step cd conn s s'" and inv: "visa_inv cd contents matches s"
  shows "visa_inv cd contents matches s'"
proof -
  have ok: "write_ok cd (sy_ck s) matches (sy_store s) (touched (sy_store s) opn) (healed opn)
      (alive (ck_mono (sy_ck s)) (contents (sy_db s))) (alive (ck_mono (sy_ck s)) (contents db')) r"
    if "sy_pending s = None" "op_fresh (sy_store s) opn" "op_io cd conn (sy_ck s) opn (sy_db s) (sy_store s) = (db', r)"
    for opn db' r
    by (rule op_write_ok [OF cd _ that(2) refl _ that(3)])
       (use inv that(1) in \<open>auto simp: entries_ok_def visa_inv_def Let_def image_def\<close>)
  from assms(3) show ?thesis
  proof cases
    case (no_op opn db')
    then show ?thesis using visa_inv_no_op [OF inv ok [OF no_op(2-4)]] by simp
  next
    case (begin_write opn db' u)
    then show ?thesis using visa_inv_begin [OF inv _ healed_touched ok [OF begin_write(2-4)]] by simp
  next
    case (fail opn db' e)
    then show ?thesis using visa_inv_fail [OF inv _ ok [OF fail(2-4)]] by simp
  qed (simp_all add: visa_inv_end [OF inv] visa_inv_purge [OF inv] visa_inv_tick [OF inv] visa_inv_restart [OF keys inv])
qed

end

end
