(* ===== verification/Visa_Runs.thy ===== *)
theory Visa_Runs
  imports Visa_Recovery
begin

text \<open>
  Whole runs of the visa store: any interleaving of writes, failed writes, purges, clock ticks and restarts keeps the
  indexes exact and the database in step with the image, so that a restart finds every visa again; verdicts of policy
  rechecks may arrive in any order; and a revoked visa is not brought back by anything but a newer verdict.
\<close>

subsection \<open>A run from an empty database\<close>

definition new_system :: "'db \<Rightarrow> clock \<Rightarrow> 'db visa_system" where
  "new_system db ck = \<lparr>sy_db = db, sy_store = store_default, sy_pending = None, sy_ck = ck, sy_failed = {}\<rparr>"

definition no_visas :: "(string \<Rightarrow> string \<Rightarrow> bool) \<Rightarrow> db_state \<Rightarrow> bool" where
  "no_visas matches m \<longleftrightarrow> (\<forall>k. matches VISA_PATTERN k \<longrightarrow> m k = None)"

lemma visa_inv_new:
  assumes "\<And>i. matches VISA_PATTERN (visa_key_for_visa i)" "0 \<le> ck_wall ck" "no_visas matches (alive (ck_mono ck) (contents db))"
  shows "visa_inv cd contents matches (new_system db ck)"
proof -
  have "alive (ck_mono ck) (contents db) (visa_key_for_visa i) = None" for i
    using assms(1,3) by (simp add: no_visas_def)
  then show ?thesis
    using assms(2,3) store_wf_default
    by (auto simp: visa_inv_def Let_def new_system_def image_def agrees_def readable_def no_visas_def maps_wf_def
        store_default_def)
qed

context db_strings
begin

lemma visa_inv_run:
  assumes "codec_ok cd" "\<And>i. matches VISA_PATTERN (visa_key_for_visa i)" "0 \<le> ck_wall ck"
    "no_visas matches (alive (ck_mono ck) (contents db))" "(visa_step cd conn)\<^sup>*\<^sup>* (new_system db ck) s"
  shows "visa_inv cd contents matches s"
  using assms(5)
proof induction
  case base
  show ?case by (rule visa_inv_new) (use assms(2-4) in auto)
next
  case (step s s')
  then show ?case using visa_inv_step [OF assms(1,2)] by blast
qed

lemma restart_same_visas:
  assumes "\<And>i. matches VISA_PATTERN (visa_key_for_visa i)" and inv: "visa_inv cd contents matches s"
    and out: "restore_from_state cd conn (sy_ck s) (sy_db s) = (db', Inr st')" and i: "i \<notin> sy_failed s"
  shows "(\<forall>e. hm_get (vs_visas (image s)) i = Some e \<longrightarrow> ck_wall (sy_ck s) + 2 * SEC \<le> v_expires (ve_visa e) \<longrightarrow>
      (\<exists>e'. hm_get (vs_visas st') i = Some e' \<and> same_visa e e')) \<and>
    (\<forall>e'. hm_get (vs_visas st') i = Some e' \<longrightarrow> ck_wall (sy_ck s) + 2 * SEC \<le> v_expires (ve_visa e') \<longrightarrow>
      (\<exists>e. hm_get (vs_visas (image s)) i = Some e \<and> same_visa e e'))"
proof -
  define ck where "ck = sy_ck s"
  define m where "m = alive (ck_mono ck) (contents (sy_db s))"
  have w: "0 \<le> ck_wall ck" and r: "readable cd ck matches m" and a: "agrees cd ck m i (hm_get (vs_visas (image s)) i)"
    using inv i by (auto simp: visa_inv_def Let_def ck_def m_def)
  have st': "hm_get (vs_visas st') i = recovered cd ck m i"
    using restore_from_state_spec [OF assms(1) m_def r w] out by (simp add: ck_def)
  have same: "same_visa e (restored ck e')" if "same_visa e e'" for e e'
    using that by (simp add: same_visa_def restored_def)
  show ?thesis
  proof (intro conjI allI impI)
    fix e assume e: "hm_get (vs_visas (image s)) i = Some e" "ck_wall (sy_ck s) + 2 * SEC \<le> v_expires (ve_visa e)"
    then obtain raw x where raw: "m (visa_key_for_visa i) = Some (StrV raw, x)" "text_of cd e raw"
      using a unfolding agrees_def ck_def by blast
    then obtain e' where e': "same_visa e e'" "decode_record cd ck raw = Inr (restored ck e')" unfolding text_of_def by blast
    have "v_expires (ve_visa e) - SEC < v_expires (ve_visa e')" using e'(1) by (auto simp: same_visa_def)
    then have "ck_wall ck + SEC \<le> v_expires (ve_visa e')" using e(2) by (simp add: ck_def)
    then have "0 < secs_between (ck_wall ck) (v_expires (ve_visa e'))" by (simp add: secs_between_pos)
    then have "SEC \<le> secs (secs_between (ck_wall ck) (v_expires (ve_visa e')))"
      by (simp add: secs_def word_less_def)
    then have "is_live ck (restored ck e')" by (simp add: is_live_iff restored_def seconds_until_def)
    then show "\<exists>e'. hm_get (vs_visas st') i = Some e' \<and> same_visa e e'"
      using raw(1) e' same by (simp add: st' recovered_def)
  next
    fix e' assume e': "hm_get (vs_visas st') i = Some e'" "ck_wall (sy_ck s) + 2 * SEC \<le> v_expires (ve_visa e')"
    then obtain raw x where raw: "m (visa_key_for_visa i) = Some (StrV raw, x)" "decode_record cd ck raw = Inr e'"
      unfolding st' by (auto simp: recovered_def split: option.splits db_value.splits sum.splits if_splits)
    then obtain e where e: "text_of cd e raw" "hm_get (vs_visas (image s)) i = Some e \<or> v_expires (ve_visa e) < ck_wall ck + 2 * SEC"
      using a unfolding agrees_def by blast
    then obtain e'' where "same_visa e e''" "e' = restored ck e''" using raw(2) unfolding text_of_def by auto
    then have s: "same_visa e e'" using same by simp
    then have "v_expires (ve_visa e') \<le> v_expires (ve_visa e)" by (auto simp: same_visa_def)
    with e(2) e'(2) s show "\<exists>e. hm_get (vs_visas (image s)) i = Some e \<and> same_visa e e'" by (auto simp: ck_def)
  qed
qed

end

subsection \<open>A run of one visa\<close>

text \<open>A codec that knows one visa and one record of it.\<close>

definition one_codec :: "visa \<Rightarrow> visa_record \<Rightarrow> codec" where
  "one_codec v r = \<lparr>
     cd_visa_to_bytes = (\<lambda>v'. if v' = v then Inr ''visa'' else Inl (Err StVsapiType)),
     cd_visa_from_bytes = (\<lambda>b. if b = ''visa'' then Inr v else Inl (Err StVsapiType)),
     cd_to_json = (\<lambda>r'. if r' = r then Some ''record'' else None),
     cd_from_json = (\<lambda>s. if s = ''record'' then Some r else None),
     cd_timestamp = (\<lambda>t. ''time'')\<rparr>"

lemma codec_ok_one:
  assumes "hm_wf (vr_node_states r)"
  shows "codec_ok (one_codec v r)"
proof -
  have "valid_utf8 ''record''" by code_simp
  with assms show ?thesis
    by (auto simp: codec_ok_def one_codec_def same_record_def
        intro: exI [of _ "v_expires v"] exI [of _ "vm_ctime (vr_metadata r)"])
qed

definition w_visa :: visa where
  "w_visa = \<lparr>issuer_id = 1000, v_config = 1, v_expires = 100 * SEC, v_type = FullVisa, v_dock_pep = None, v_fwd_pep = None\<rparr>"

definition w_meta :: visa_metadata where
  "w_meta = \<lparr>vm_requesting_node = V4 1, vm_ctime = 0, vm_policy_version = 1, vm_created_vinst = 1, vm_checked_vinst = 1,
     vm_zpl = ''allow'', vm_signal_msgs = [], vm_direction = Forward, vm_path = Some [V4 1, V4 2],
     vm_five_tuple = \<lparr>source_addr = V4 3, dest_addr = V4 4, protocol = 6, source_port = 1, dest_port = 2\<rparr>\<rparr>"

definition w_codec :: codec where
  "w_codec = one_codec w_visa \<lparr>vr_blob = ''visa'', vr_metadata = w_meta, vr_node_states =
     [(zaddr (V4 1), \<lparr>sn_state = Installed, sn_utime = ''time'', sn_revoke_vinst = None\<rparr>),
      (zaddr (V4 2), \<lparr>sn_state = PendingInstall, sn_utime = ''time'', sn_revoke_vinst = None\<rparr>)]\<rparr>"

definition w_conn :: "fake_store db_connection" where
  "w_conn = fake_db (\<lambda>p. Some (\<lambda>k. take 5 k = ''visa:''))"

definition w_ck :: clock where
  "w_ck = \<lparr>ck_wall = 10 * SEC, ck_mono = 5 * SEC\<rparr>"

definition w_entry :: visa_entry where
  "w_entry = \<lparr>ve_visa = w_visa, ve_metadata = w_meta, ve_deadline = 95 * SEC, ve_node_states =
     [(V4 1, \<lparr>ns_state = Installed, ns_revoke_vinst = None\<rparr>), (V4 2, \<lparr>ns_state = PendingInstall, ns_revoke_vinst = None\<rparr>)]\<rparr>"

definition w_db :: fake_store where
  "w_db = fst (op_io w_codec w_conn w_ck (StoreVisa w_visa w_meta Installed) fake_new store_default)"

lemma w_codec_ok: "codec_ok w_codec"
proof -
  have "zaddr (V4 1) \<noteq> zaddr (V4 2)" unfolding zaddr_inj by simp
  then show ?thesis unfolding w_codec_def by (intro codec_ok_one) simp
qed

lemma w_store: "op_io w_codec w_conn w_ck (StoreVisa w_visa w_meta Installed) fake_new store_default =
    (w_db, Inr (Some (Insert 1000 w_entry)))"
  by code_simp

definition w_system :: "fake_store visa_system" where
  "w_system = \<lparr>sy_db = w_db, sy_store = apply_update (Insert 1000 w_entry) store_default, sy_pending = None,
     sy_ck = w_ck, sy_failed = {}\<rparr>"

lemma w_run: "(visa_step w_codec w_conn)\<^sup>*\<^sup>* (new_system fake_new w_ck) w_system"
proof -
  let ?s = "new_system fake_new w_ck"
  let ?s1 = "?s\<lparr>sy_db := w_db, sy_pending := Some (Insert 1000 w_entry),
     sy_failed := sy_failed ?s - healed (StoreVisa w_visa w_meta Installed)\<rparr>"
  have "op_fresh (sy_store ?s) (StoreVisa w_visa w_meta Installed)"
    by (simp add: new_system_def store_default_def system_time_def w_visa_def)
  then have first: "visa_step w_codec w_conn ?s ?s1"
    by (rule begin_write [where opn = "StoreVisa w_visa w_meta Installed", rotated])
       (simp_all add: new_system_def w_store del: op_io.simps)
  have "visa_step w_codec w_conn ?s1 (?s1\<lparr>sy_store := apply_update (Insert 1000 w_entry) (sy_store ?s1), sy_pending := None\<rparr>)"
    by (rule end_write) simp
  also have "?s1\<lparr>sy_store := apply_update (Insert 1000 w_entry) (sy_store ?s1), sy_pending := None\<rparr> = w_system"
    by (simp add: w_system_def new_system_def)
  finally show ?thesis using converse_rtranclp_into_rtranclp [of "visa_step w_codec w_conn", OF first] by blast
qed

lemma w_matches: "fake_matches (\<lambda>p. Some (\<lambda>k. take 5 k = ''visa:'')) VISA_PATTERN (visa_key_for_visa i)"
  by (simp add: fake_matches_def visa_key_for_visa_def KEY_VISA_def)

lemma w_no_visas: "no_visas matches (alive now (fake_contents fake_new))"
  by (simp add: no_visas_def alive_def fake_contents_def fake_new_def)

lemmas w_db_strings = fake.db_strings_axioms [of "\<lambda>p. Some (\<lambda>k. take 5 k = ''visa:'')", folded w_conn_def]

text \<open>C29. A restart recovers the visas. Take any run from an empty database: writes in their two halves, writes
  that fail with the database changed or unchanged, purges, time passing, earlier restarts, in any order. When the
  service starts again, every visa of its image (with the write in progress, if any, completed) that has two seconds
  left and whose last write did not report an error is found again with the same fields, metadata and node states,
  its expiry rounded down by less than a second; and nothing else is found that has two seconds left.\<close>

theorem restart_recovers_visas:
  assumes "db_strings conn contents keep matches" "codec_ok cd" "\<And>i. matches VISA_PATTERN (visa_key_for_visa i)"
    and "0 \<le> ck_wall ck" "no_visas matches (alive (ck_mono ck) (contents db))"
    and "(visa_step cd conn)\<^sup>*\<^sup>* (new_system db ck) s"
    and "restore_from_state cd conn (sy_ck s) (sy_db s) = (db', Inr st')" and "i \<notin> sy_failed s"
  shows "(\<forall>e. hm_get (vs_visas (image s)) i = Some e \<longrightarrow> ck_wall (sy_ck s) + 2 * SEC \<le> v_expires (ve_visa e) \<longrightarrow>
      (\<exists>e'. hm_get (vs_visas st') i = Some e' \<and> same_visa e e')) \<and>
    (\<forall>e'. hm_get (vs_visas st') i = Some e' \<longrightarrow> ck_wall (sy_ck s) + 2 * SEC \<le> v_expires (ve_visa e') \<longrightarrow>
      (\<exists>e. hm_get (vs_visas (image s)) i = Some e \<and> same_visa e e'))"
  using db_strings.restart_same_visas [OF assms(1,3) db_strings.visa_inv_run [OF assms(1-6)] assms(7,8)] .

theorem restart_recovers_visas_witness:
  "\<exists>db' st' e'. restore_from_state w_codec w_conn w_ck w_db = (db', Inr st') \<and> hm_get (vs_visas st') 1000 = Some e' \<and>
     same_visa w_entry e'"
proof -
  obtain db' st' where out: "restore_from_state w_codec w_conn w_ck w_db = (db', Inr st')"
  proof -
    have "case snd (restore_from_state w_codec w_conn w_ck w_db) of Inr _ \<Rightarrow> True | Inl _ \<Rightarrow> False" by code_simp
    then show ?thesis using that by (cases "restore_from_state w_codec w_conn w_ck w_db") (auto split: sum.splits)
  qed
  have "hm_get (vs_visas (image w_system)) 1000 = Some w_entry"
    by (simp add: image_def w_system_def store_default_def)
  moreover have "ck_wall (sy_ck w_system) + 2 * SEC \<le> v_expires (ve_visa w_entry)"
    by (simp add: w_system_def w_ck_def w_entry_def w_visa_def)
  moreover have "restore_from_state w_codec w_conn (sy_ck w_system) (sy_db w_system) = (db', Inr st')"
    using out by (simp add: w_system_def)
  moreover have "(1000 :: u64) \<notin> sy_failed w_system" by (simp add: w_system_def)
  moreover have "0 \<le> ck_wall w_ck" by (simp add: w_ck_def)
  ultimately show ?thesis
    using restart_recovers_visas [OF w_db_strings w_codec_ok w_matches _ w_no_visas w_run] out by blast
qed

text \<open>C30. At every moment of such a run the index by node lists exactly the visas with a state for the node, the index by
  actor exactly the visas with the actor as an endpoint, and neither keeps an empty row.\<close>

theorem visa_indexes_exact:
  assumes "db_strings conn contents keep matches" "codec_ok cd" "\<And>i. matches VISA_PATTERN (visa_key_for_visa i)"
    and "0 \<le> ck_wall ck" "no_visas matches (alive (ck_mono ck) (contents db))"
    and "(visa_step cd conn)\<^sup>*\<^sup>* (new_system db ck) s"
  shows "row (vs_by_node (sy_store s)) n = {i. \<exists>e. hm_get (vs_visas (sy_store s)) i = Some e \<and> hm_get (ve_node_states e) n \<noteq> None} \<and>
    row (vs_by_actor (sy_store s)) a = {i. \<exists>e. hm_get (vs_visas (sy_store s)) i = Some e \<and>
      (a = source_addr (vm_five_tuple (ve_metadata e)) \<or> a = dest_addr (vm_five_tuple (ve_metadata e)))} \<and>
    no_empty_row (vs_by_node (sy_store s)) \<and> no_empty_row (vs_by_actor (sy_store s))"
  using db_strings.visa_inv_run [OF assms]
  by (auto simp: visa_inv_def Let_def store_wf_def node_refs_def actor_refs_def endpoints_def)

theorem visa_indexes_exact_witness:
  "row (vs_by_node (sy_store w_system)) (V4 2) = {i. \<exists>e. hm_get (vs_visas (sy_store w_system)) i = Some e \<and> hm_get (ve_node_states e) (V4 2) \<noteq> None} \<and>
    row (vs_by_node (sy_store w_system)) (V4 2) = {1000}"
proof -
  have "0 \<le> ck_wall w_ck" by (simp add: w_ck_def)
  from visa_indexes_exact [OF w_db_strings w_codec_ok w_matches this w_no_visas w_run]
  have "row (vs_by_node (sy_store w_system)) (V4 2) = {i. \<exists>e. hm_get (vs_visas (sy_store w_system)) i = Some e \<and> hm_get (ve_node_states e) (V4 2) \<noteq> None}"
    by blast
  moreover have "row (vs_by_node (sy_store w_system)) (V4 2) = {1000}" by code_simp
  ultimately show ?thesis by blast
qed

subsection \<open>Verdicts in any order\<close>

text \<open>The verdicts of rechecks of one visa against policies with the given instance numbers, each at its own time.\<close>

datatype verdict = AllowV u64 | DenyV u64

fun verdict_op :: "u64 \<Rightarrow> verdict \<Rightarrow> visa_op" where
  "verdict_op i (AllowV v) = RecordAllowVerdict i v"
| "verdict_op i (DenyV v) = RecordDenyVerdict i v"


text \<open>What a verdict does to the instance number last checked and the state at one node.\<close>

fun judge :: "verdict \<Rightarrow> u64 \<times> node_state \<Rightarrow> u64 \<times> node_state" where
  "judge (AllowV v) (c, ns) = (if v \<le> c then (c, ns) else (v, cancel_revoke v ns))"
| "judge (DenyV v) (c, ns) = (if v \<le> c then (c, ns) else (c, stamp_revoke v ns))"





lemma from_redis_Inl [simp]: "from_redis (Inl x) \<noteq> Inr y"
  by (simp add: from_redis_def split: fault.split)

lemma visa_write_verdict:
  assumes "visa_write cd conn ck (verdict_op i v) r = (r', Inr b)" "hm_get (vs_visas (rp_store r)) i = Some e" "is_live ck e"
  shows "\<exists>e'. hm_get (vs_visas (rp_store r')) i = Some e' \<and> ve_deadline e' = ve_deadline e \<and>
    (\<forall>ns. vm_checked_vinst (ve_metadata e') = fst (judge v (vm_checked_vinst (ve_metadata e), ns))) \<and>
    (\<forall>n. hm_get (ve_node_states e') n =
       map_option (\<lambda>ns. snd (judge v (vm_checked_vinst (ve_metadata e), ns))) (hm_get (ve_node_states e) n))"
proof -
  have live: "live_entry ck (rp_store r) i = Some e" using assms(2,3) by (simp add: live_entry_def)
  show ?thesis
  proof (cases v)
    case (AllowV vi)
    with assms live show ?thesis
      by (auto simp: visa_write_def write_through_def record_allow_verdict_io_def rewrite_record_def Let_def option.map_ident
          split: prod.splits sum.splits if_splits option.splits)
  next
    case (DenyV vi)
    with assms live show ?thesis
      by (auto simp: visa_write_def write_through_def record_deny_verdict_io_def rewrite_record_def Let_def option.map_ident
          split: prod.splits sum.splits if_splits option.splits)
  qed
qed

definition allows :: "(clock \<times> verdict) list \<Rightarrow> u64 set" where
  "allows vs = {v. AllowV v \<in> snd ` set vs}"

definition denies :: "(clock \<times> verdict) list \<Rightarrow> u64 set" where
  "denies vs = {v. DenyV v \<in> snd ` set vs}"

lemma allows_denies_simps [simp]:
  "allows [] = {}" "denies [] = {}"
  "allows ((ck, AllowV v) # vs) = insert v (allows vs)" "denies ((ck, AllowV v) # vs) = denies vs"
  "allows ((ck, DenyV v) # vs) = allows vs" "denies ((ck, DenyV v) # vs) = insert v (denies vs)"
  by (auto simp: allows_def denies_def)



text \<open>A codec that forgets everything is enough to write with.\<close>

definition w_repo :: "fake_store visa_repo" where
  "w_repo = \<lparr>rp_db = w_db, rp_store = sy_store w_system, rp_last_purge = None\<rparr>"

definition w_writer :: codec where
  "w_writer = w_codec\<lparr>cd_to_json := (\<lambda>r. Some ''record'')\<rparr>"


subsection \<open>A revocation is final\<close>

lemma rewrite_record_update: "rewrite_record cd conn ck i e md states u db = (db', Inr (Some u')) \<Longrightarrow> u' = u"
  by (auto simp: rewrite_record_def split: sum.splits prod.splits)

lemma op_io_update:
  assumes "op_io cd conn ck opn db st = (db', Inr (Some u))"
  shows "(\<exists>v md s e. opn = StoreVisa v md s \<and> u = Insert (issuer_id v) e) \<or> (\<exists>j. opn = RemoveVisa j \<and> u = Remove j) \<or>
    (\<exists>m ids. opn = ClearNodeState m \<and> u = ClearNode m ids) \<or>
    (\<exists>j e states. live_entry ck st j = Some e \<and> hm_get (vs_visas st) j = Some e \<and>
      ((\<exists>vi md. opn = RecordAllowVerdict j vi \<and> vm_checked_vinst (ve_metadata e) < vi \<and>
         states = map_states (cancel_revoke vi) (ve_node_states e) \<and> u = SetStates j (Some md) states) \<or>
      (\<exists>vi. opn = RecordDenyVerdict j vi \<and> states = map_states (stamp_revoke vi) (ve_node_states e) \<and> u = SetStates j None states) \<or>
      opn = MarkVisaRevoked j \<and> states = map_states (\<lambda>ns. ns\<lparr>ns_state := PendingRevoke\<rparr>) (ve_node_states e) \<and> u = SetStates j None states \<or>
      (\<exists>m ns s t. opn = TransitionNodeVisaState m j s t \<and> hm_get (ve_node_states e) m = Some ns \<and> ns_state ns = s \<and>
         states = hm_insert m (ns\<lparr>ns_state := t\<rparr>) (ve_node_states e) \<and> u = SetStates j None states) \<or>
      (\<exists>m. opn = RemoveNodeIfPendingRevoke m j \<and> states = hm_remove m (ve_node_states e) \<and> u = DropNode j m states)))"
proof (cases opn)
  case (StoreVisa v md s)
  with assms show ?thesis by (auto simp: store_visa_io_def Let_def split: if_splits sum.splits prod.splits)
next
  case (RemoveVisa j)
  with assms show ?thesis by (auto simp: remove_visa_io_def split: sum.splits prod.splits)
next
  case (ClearNodeState m)
  with assms show ?thesis
    by (auto simp: clear_node_state_io_def Let_def split: if_splits sum.splits prod.splits)
qed (use assms in \<open>auto simp: record_allow_verdict_io_def record_deny_verdict_io_def mark_visa_revoked_io_def
    transition_node_visa_state_io_def remove_node_if_pending_revoke_io_def Let_def not_le
    dest!: rewrite_record_update live_entryD split: option.splits if_splits\<close>)

lemma visa_write_store:
  assumes "visa_write cd conn ck opn r = (r', res)"
  obtains "rp_store r' = rp_store r"
  | db' u where "op_io cd conn ck opn (rp_db r) (rp_store r) = (db', Inr (Some u))" "rp_store r' = apply_update u (rp_store r)"
  using assms by (auto simp: visa_write_def write_through_def split: prod.splits sum.splits option.splits)

text \<open>C32. A node's revocation of a visa is lifted by no write other than the removal of the visa, of the node's state, or
  of both, an explicit transition out of the revoked state, or an allow by a newer policy instance than the deny that
  stamped it; whatever the database answers. In particular a revocation without a stamp is not lifted by an allow.\<close>

theorem revocation_is_final:
  assumes "visa_write cd conn ck opn r = (r', res)"
    and "hm_get (vs_visas (rp_store r)) i = Some e" "hm_get (ve_node_states e) n = Some ns" "ns_state ns = PendingRevoke"
    and "\<And>v md s. opn = StoreVisa v md s \<Longrightarrow> issuer_id v \<noteq> i" "opn \<noteq> RemoveVisa i" "opn \<noteq> ClearNodeState n"
    and "opn \<noteq> RemoveNodeIfPendingRevoke n i" "\<forall>t. opn \<noteq> TransitionNodeVisaState n i PendingRevoke t"
    and "\<And>vi. opn = RecordAllowVerdict i vi \<Longrightarrow> vi \<le> vm_checked_vinst (ve_metadata e) \<or>
      ns_revoke_vinst ns = None \<or> vi \<le> the (ns_revoke_vinst ns)"
  shows "\<exists>e' ns'. hm_get (vs_visas (rp_store r')) i = Some e' \<and> hm_get (ve_node_states e') n = Some ns' \<and>
    ns_state ns' = PendingRevoke"
proof (rule visa_write_store [OF assms(1)])
  assume "rp_store r' = rp_store r"
  with assms(2-4) show ?thesis by auto
next
  fix db' u assume io: "op_io cd conn ck opn (rp_db r) (rp_store r) = (db', Inr (Some u))"
    and st': "rp_store r' = apply_update u (rp_store r)"
  have "\<exists>e' ns'. apply_point u i (Some e) = Some e' \<and> hm_get (ve_node_states e') n = Some ns' \<and> ns_state ns' = PendingRevoke"
  proof (cases opn)
    case (RecordAllowVerdict j vi)
    show ?thesis
    proof (cases "j = i")
      case True
      obtain md where "u = SetStates i (Some md) (map_states (cancel_revoke vi) (ve_node_states e))"
          "vm_checked_vinst (ve_metadata e) < vi"
        using op_io_update [OF io] assms(2) True RecordAllowVerdict by auto
      moreover have "ns_state (cancel_revoke vi ns) = PendingRevoke"
        using assms(10) [of vi] assms(4) True RecordAllowVerdict calculation(2)
        by (auto simp: cancel_revoke_def split: option.splits dest: leD)
      ultimately show ?thesis using assms(3) by simp
    qed (use op_io_update [OF io] RecordAllowVerdict assms(3,4) in auto)
  next
    case (ClearNodeState m)
    with op_io_update [OF io] assms(3,4,7) show ?thesis by auto
  qed (use op_io_update [OF io] assms(2-9) in \<open>auto simp: stamp_revoke_def\<close>)
  then show ?thesis using assms(2) by (simp add: st' visas_apply)
qed

definition w_revoked :: "fake_store visa_repo" where
  "w_revoked = fst (visa_write w_writer w_conn w_ck (MarkVisaRevoked 1000) w_repo)"

theorem revocation_is_final_witness:
  "\<exists>e' ns'. hm_get (vs_visas (rp_store (fst (visa_write w_writer w_conn w_ck (RecordAllowVerdict 1000 9) w_revoked)))) 1000 = Some e' \<and>
     hm_get (ve_node_states e') (V4 2) = Some ns' \<and> ns_state ns' = PendingRevoke"
proof -
  let ?e = "w_entry\<lparr>ve_node_states := [(V4 1, \<lparr>ns_state = PendingRevoke, ns_revoke_vinst = None\<rparr>),
    (V4 2, \<lparr>ns_state = PendingRevoke, ns_revoke_vinst = None\<rparr>)]\<rparr>"
  have "hm_get (vs_visas (rp_store w_revoked)) 1000 = Some ?e" by code_simp
  then show ?thesis
    by (intro revocation_is_final [where e = ?e and ns = "\<lparr>ns_state = PendingRevoke, ns_revoke_vinst = None\<rparr>" and
          opn = "RecordAllowVerdict 1000 9" and r = w_revoked, OF surjective_pairing]) simp_all
qed

text \<open>C33. A visa revoked because its actor departed carries no stamp, but a deny verdict recorded afterwards gives it one, and
  then a newer allow verdict lifts the revocation: every node goes back to waiting for the visa to be installed.\<close>

theorem departed_visa_comes_back:
  assumes "hm_get (vs_visas (rp_store r)) i = Some e" "is_live ck e" "is_live ck1 e" "is_live ck2 e"
    and "\<forall>n ns. hm_get (ve_node_states e) n = Some ns \<longrightarrow> ns_revoke_vinst ns = None"
    and "visa_write cd conn ck (MarkVisaRevoked i) r = (r1, Inr b1)"
    and "visa_write cd conn ck1 (RecordDenyVerdict i d) r1 = (r2, Inr b2)"
    and "visa_write cd conn ck2 (RecordAllowVerdict i a) r2 = (r3, Inr b3)"
    and "vm_checked_vinst (ve_metadata e) < d" "d < a"
  shows "\<exists>e'. hm_get (vs_visas (rp_store r3)) i = Some e' \<and>
    (\<forall>n. hm_get (ve_node_states e') n =
       map_option (\<lambda>ns. \<lparr>ns_state = PendingInstall, ns_revoke_vinst = None\<rparr>) (hm_get (ve_node_states e) n))"
proof -
  have "live_entry ck (rp_store r) i = Some e" using assms(1,2) by (simp add: live_entry_def)
  with assms(1,6) obtain e1 where e1: "hm_get (vs_visas (rp_store r1)) i = Some e1" "ve_deadline e1 = ve_deadline e"
      "ve_metadata e1 = ve_metadata e"
      "\<And>n. hm_get (ve_node_states e1) n = map_option (\<lambda>ns. ns\<lparr>ns_state := PendingRevoke\<rparr>) (hm_get (ve_node_states e) n)"
    by (auto simp: visa_write_def write_through_def mark_visa_revoked_io_def rewrite_record_def Let_def
        split: prod.splits sum.splits)
  have live: "is_live ck1 e1" "is_live ck2 e1" using assms(3,4) e1(2) by (simp_all add: is_live_def)
  from visa_write_verdict [of cd conn ck1 i "DenyV d" r1 r2 b2 e1, unfolded verdict_op.simps, OF assms(7) e1(1) live(1)]
  obtain e2 where e2: "hm_get (vs_visas (rp_store r2)) i = Some e2" "ve_deadline e2 = ve_deadline e1"
        "\<And>ns. vm_checked_vinst (ve_metadata e2) = fst (judge (DenyV d) (vm_checked_vinst (ve_metadata e1), ns))"
        "\<And>n. hm_get (ve_node_states e2) n =
          map_option (\<lambda>ns. snd (judge (DenyV d) (vm_checked_vinst (ve_metadata e1), ns))) (hm_get (ve_node_states e1) n)"
    by blast
  have c: "vm_checked_vinst (ve_metadata e2) < a"
    using e2(3) [of undefined] less_trans [OF assms(9,10)] e1(3) by (simp split: if_splits)
  have "is_live ck2 e2" using live(2) e2(2) by (simp add: is_live_def)
  from visa_write_verdict [of cd conn ck2 i "AllowV a" r2 r3 b3 e2, unfolded verdict_op.simps, OF assms(8) e2(1) this]
  obtain e3 where e3: "hm_get (vs_visas (rp_store r3)) i = Some e3"
        "\<And>n. hm_get (ve_node_states e3) n =
          map_option (\<lambda>ns. snd (judge (AllowV a) (vm_checked_vinst (ve_metadata e2), ns))) (hm_get (ve_node_states e2) n)"
    by blast
  have "hm_get (ve_node_states e3) n =
       map_option (\<lambda>ns. \<lparr>ns_state = PendingInstall, ns_revoke_vinst = None\<rparr>) (hm_get (ve_node_states e) n)" for n
  proof (cases "hm_get (ve_node_states e) n")
    case (Some ns)
    define ns1 where "ns1 = ns\<lparr>ns_state := PendingRevoke\<rparr>"
    have "ns_revoke_vinst ns1 = None" using assms(5) Some by (simp add: ns1_def)
    then have "snd (judge (DenyV d) (vm_checked_vinst (ve_metadata e1), ns1)) = \<lparr>ns_state = PendingRevoke, ns_revoke_vinst = Some d\<rparr>"
      using assms(9) by (simp add: e1(3) stamp_revoke_def not_le)
    then have "hm_get (ve_node_states e2) n = Some \<lparr>ns_state = PendingRevoke, ns_revoke_vinst = Some d\<rparr>"
      using Some by (simp only: e2(4) e1(4) option.map ns1_def)
    then show ?thesis using Some c assms(10) by (simp add: e3(2) not_le cancel_revoke_def)
  qed (simp add: e3(2) e2(4) e1(4))
  with e3(1) show ?thesis by blast
qed

theorem departed_visa_comes_back_witness:
  "\<exists>r1 r2 r3 b1 b2 b3 e'. visa_write w_writer w_conn w_ck (MarkVisaRevoked 1000) w_repo = (r1, Inr b1) \<and>
     visa_write w_writer w_conn w_ck (RecordDenyVerdict 1000 5) r1 = (r2, Inr b2) \<and>
     visa_write w_writer w_conn w_ck (RecordAllowVerdict 1000 6) r2 = (r3, Inr b3) \<and>
     hm_get (vs_visas (rp_store r3)) 1000 = Some e' \<and>
     hm_get (ve_node_states e') (V4 1) = Some \<lparr>ns_state = PendingInstall, ns_revoke_vinst = None\<rparr>"
proof -
  define r1 where "r1 = fst (visa_write w_writer w_conn w_ck (MarkVisaRevoked 1000) w_repo)"
  define r2 where "r2 = fst (visa_write w_writer w_conn w_ck (RecordDenyVerdict 1000 5) r1)"
  define r3 where "r3 = fst (visa_write w_writer w_conn w_ck (RecordAllowVerdict 1000 6) r2)"
  have "snd (visa_write w_writer w_conn w_ck (MarkVisaRevoked 1000) w_repo) = Inr True"
    "snd (visa_write w_writer w_conn w_ck (RecordDenyVerdict 1000 5) r1) = Inr True"
    "snd (visa_write w_writer w_conn w_ck (RecordAllowVerdict 1000 6) r2) = Inr True"
    unfolding r1_def r2_def by code_simp+
  then have w: "visa_write w_writer w_conn w_ck (MarkVisaRevoked 1000) w_repo = (r1, Inr True)"
    "visa_write w_writer w_conn w_ck (RecordDenyVerdict 1000 5) r1 = (r2, Inr True)"
    "visa_write w_writer w_conn w_ck (RecordAllowVerdict 1000 6) r2 = (r3, Inr True)"
    by (simp_all add: r1_def r2_def r3_def prod_eq_iff)
  have e: "hm_get (vs_visas (rp_store w_repo)) 1000 = Some w_entry"
    by (simp add: w_repo_def w_system_def store_default_def)
  have live: "is_live w_ck w_entry" by code_simp
  have "\<forall>n ns. hm_get (ve_node_states w_entry) n = Some ns \<longrightarrow> ns_revoke_vinst ns = None"
    by (simp add: w_entry_def)
  from departed_visa_comes_back [OF e live live live this w] obtain e' where
      "hm_get (vs_visas (rp_store r3)) 1000 = Some e'"
      "hm_get (ve_node_states e') (V4 1) = Some \<lparr>ns_state = PendingInstall, ns_revoke_vinst = None\<rparr>"
    by (auto simp: w_entry_def w_meta_def)
  with w show ?thesis by blast
qed

end
