(* ===== verification/Store_Monad.thy ===== *)
theory Store_Monad
  imports Visa_Store
begin

text \<open>
  The state most of the service works on, and the shape of its asynchronous functions: each reads and changes the
  state and returns a value, an error, or panics. The operations of the repositories run at one instant of the clocks, with no other task in between
  the database calls they make.
  Also the event counters, \<^verbatim>\<open>vs/src/counters.rs\<close>.
\<close>

subsection \<open>Counters\<close>

datatype counter_type =
    VisaRequests
  | VisaRequestsApproved
  | VisaRequestsDenied
  | VisaRequestQueueFull
  | VisaRequestTimeout
  | VisaRequestQueueError
  | VisaRequestFailed
  | VsApiVisaRequests
  | VsApiPings
  | VssErrors
  | NodeConnectionsSuccess
  | NodeConnectionsFailed
  | AuthorizeConnectSuccess
  | AuthorizeConnectFailed
  | LinkInstallFailed
  | HostnameClaimRejected

record node_info =
  ni_counters :: "counter_type \<Rightarrow> u64"
  ni_last_visa_req :: "time option"

record counters =
  ct_counters :: "counter_type \<Rightarrow> u64"
  ct_per_node :: "(ip_addr, node_info) hashmap"

definition node_info_default :: node_info where
  "node_info_default = \<lparr>ni_counters = (\<lambda>_. 0), ni_last_visa_req = None\<rparr>"

definition counters_default :: counters where
  "counters_default = \<lparr>ct_counters = (\<lambda>_. 0), ct_per_node = []\<rparr>"

text \<open>An atomic addition wraps around.\<close>

definition counter_incr :: "counter_type \<Rightarrow> counters \<Rightarrow> counters" where
  "counter_incr c cs = cs\<lparr>ct_counters := (ct_counters cs)(c := ct_counters cs c + 1)\<rparr>"

definition node_info_of :: "ip_addr \<Rightarrow> counters \<Rightarrow> node_info" where
  "node_info_of n cs = (case hm_get (ct_per_node cs) n of None \<Rightarrow> node_info_default | Some ni \<Rightarrow> ni)"

definition counter_incr_node :: "counter_type \<Rightarrow> ip_addr \<Rightarrow> counters \<Rightarrow> counters" where
  "counter_incr_node c n cs =
     (let ni = node_info_of n cs
      in cs\<lparr>ct_per_node := hm_insert n (ni\<lparr>ni_counters := (ni_counters ni)(c := ni_counters ni c + 1)\<rparr>) (ct_per_node cs)\<rparr>)"

definition remove_node_info :: "ip_addr \<Rightarrow> counters \<Rightarrow> counters" where
  "remove_node_info n cs = cs\<lparr>ct_per_node := hm_remove n (ct_per_node cs)\<rparr>"

definition get_node_counter :: "counters \<Rightarrow> ip_addr \<Rightarrow> counter_type \<Rightarrow> u64 option" where
  "get_node_counter cs n c = map_option (\<lambda>ni. ni_counters ni c) (hm_get (ct_per_node cs) n)"

definition update_request_time :: "time \<Rightarrow> ip_addr \<Rightarrow> counters \<Rightarrow> counters" where
  "update_request_time now n cs =
     cs\<lparr>ct_per_node := hm_insert n ((node_info_of n cs)\<lparr>ni_last_visa_req := Some now\<rparr>) (ct_per_node cs)\<rparr>"

definition get_last_request_time :: "counters \<Rightarrow> ip_addr \<Rightarrow> time option" where
  "get_last_request_time cs n = (case hm_get (ct_per_node cs) n of None \<Rightarrow> None | Some ni \<Rightarrow> ni_last_visa_req ni)"

subsection \<open>Actions\<close>

type_synonym ('w, 'e, 'a) action = "'w \<Rightarrow> 'w \<times> ('e, 'a) result"

definition yield :: "'a \<Rightarrow> ('w, 'e, 'a) action" where
  "yield a w = (w, Inr a)"

definition throw :: "'e \<Rightarrow> ('w, 'e, 'a) action" where
  "throw e w = (w, Inl (Err e))"

text \<open>The operator \<^verbatim>\<open>?\<close>: go on with the value, or return the error.\<close>

definition andthen :: "('w, 'e, 'a) action \<Rightarrow> ('a \<Rightarrow> ('w, 'e, 'b) action) \<Rightarrow> ('w, 'e, 'b) action" where
  "andthen m f w = (case m w of (w', Inr a) \<Rightarrow> f a w' | (w', Inl e) \<Rightarrow> (w', Inl e))"

text \<open>Go on with the outcome, value or error; a panic ends the task.\<close>

definition attempt :: "('w, 'e, 'a) action \<Rightarrow> ('e + 'a \<Rightarrow> ('w, 'd, 'b) action) \<Rightarrow> ('w, 'd, 'b) action" where
  "attempt m f w =
     (case m w of
        (w', Inr a) \<Rightarrow> f (Inr a) w'
      | (w', Inl (Err e)) \<Rightarrow> f (Inl e) w'
      | (w', Inl Panic) \<Rightarrow> (w', Inl Panic))"

fun for_each :: "'x list \<Rightarrow> ('x \<Rightarrow> ('w, 'e, unit) action) \<Rightarrow> ('w, 'e, unit) action" where
  "for_each [] f = yield ()"
| "for_each (x # xs) f = andthen (f x) (\<lambda>_. for_each xs f)"

text \<open>A loop that pushes onto a vector.\<close>

fun collect :: "'x list \<Rightarrow> ('x \<Rightarrow> ('w, 'e, 'a option) action) \<Rightarrow> ('w, 'e, 'a list) action" where
  "collect [] f = yield []"
| "collect (x # xs) f =
     andthen (f x) (\<lambda>r. andthen (collect xs f) (\<lambda>rest. yield (case r of None \<Rightarrow> rest | Some a \<Rightarrow> a # rest)))"

definition from_option :: "'e \<Rightarrow> 'a option \<Rightarrow> ('w, 'e, 'a) action" where
  "from_option e r = (case r of None \<Rightarrow> throw e | Some a \<Rightarrow> yield a)"

definition lift_result :: "('e, 'a) result \<Rightarrow> ('w, 'e, 'a) action" where
  "lift_result r w = (w, r)"

subsection \<open>The state of the service and the code it calls\<close>

record 'db world =
  w_db :: 'db
  w_counters :: counters

record socket_addr =
  sa_ip :: ip_addr
  sa_port :: u16
  sa_scope :: u32

record node_record =
  nr_ctime :: time
  nr_zpr_addr :: ip_addr
  nr_cn :: string
  nr_substrate_addr :: socket_addr

text \<open>What the repositories call outside the sources: the database, JSON, the percent encoding of keys, the printing and
  parsing of timestamps and Base64.\<close>

record 'db store_env =
  en_conn :: "'db db_connection"
  en_ck :: clock
  en_timestamp :: "time \<Rightarrow> string"
  en_key_encode :: "string \<Rightarrow> string"
  en_key_decode :: "string \<Rightarrow> string option"
  en_attr_to_json :: "attribute \<Rightarrow> string option"
  en_attr_from_json :: "string \<Rightarrow> attribute option"
  en_strings_to_json :: "string list \<Rightarrow> string option"
  en_strings_from_json :: "string \<Rightarrow> string list option"
  en_base64_decode :: "string \<Rightarrow> string option"
  en_rfc3339 :: "time \<Rightarrow> string"
  en_parse_rfc3339 :: "string \<Rightarrow> time option"
  en_node_to_json :: "node_record \<Rightarrow> string option"
  en_socket_to_json :: "socket_addr \<Rightarrow> string option"
  en_socket_from_json :: "string \<Rightarrow> socket_addr option"

definition on_db :: "'db store_env \<Rightarrow> ('db db_connection \<Rightarrow> time \<Rightarrow> 'db \<Rightarrow> 'db \<times> (redis_error, 'a) result)
    \<Rightarrow> ('db world, store_error, 'a) action" where
  "on_db en f w = (case f (en_conn en) (ck_mono (en_ck en)) (w_db w) of (db', r) \<Rightarrow> (w\<lparr>w_db := db'\<rparr>, from_redis r))"

definition count :: "counter_type \<Rightarrow> ('db world, 'e, unit) action" where
  "count c w = (w\<lparr>w_counters := counter_incr c (w_counters w)\<rparr>, Inr ())"

subsection \<open>Reasoning about actions\<close>

text \<open>From a state with the property \<open>P\<close> the action does not panic, a value it returns has \<open>Q\<close> with the state it leaves, and
  the state it leaves with an error has \<open>E\<close>.\<close>

definition outcome :: "('a \<Rightarrow> 'w \<Rightarrow> bool) \<Rightarrow> ('w \<Rightarrow> bool) \<Rightarrow> 'w \<times> ('e, 'a) result \<Rightarrow> bool" where
  "outcome Q E out \<longleftrightarrow>
     (case snd out of Inr a \<Rightarrow> Q a (fst out) | Inl (Err e) \<Rightarrow> E (fst out) | Inl Panic \<Rightarrow> False)"

definition triple :: "('w \<Rightarrow> bool) \<Rightarrow> ('w, 'e, 'a) action \<Rightarrow> ('a \<Rightarrow> 'w \<Rightarrow> bool) \<Rightarrow> ('w \<Rightarrow> bool) \<Rightarrow> bool" where
  "triple P m Q E \<longleftrightarrow> (\<forall>w. P w \<longrightarrow> outcome Q E (m w))"

abbreviation preserves :: "('w \<Rightarrow> bool) \<Rightarrow> ('w, 'e, 'a) action \<Rightarrow> bool" where
  "preserves I m \<equiv> triple I m (\<lambda>_. I) I"

named_theorems triple_rules

lemma outcome_simps [simp]:
  "outcome Q E (w, Inr a) \<longleftrightarrow> Q a w" "outcome Q E (w, Inl (Err e)) \<longleftrightarrow> E w" "\<not> outcome Q E (w, Inl Panic)"
  by (simp_all add: outcome_def)

lemma outcome_cases:
  assumes "outcome Q E out"
  obtains w a where "out = (w, Inr a)" "Q a w" | w e where "out = (w, Inl (Err e))" "E w"
  using assms by (cases out; cases "snd out") (auto simp: outcome_def split: fault.splits)

lemma triple_conseq:
  "triple P m Q E \<Longrightarrow> (\<And>w. P' w \<Longrightarrow> P w) \<Longrightarrow> (\<And>a w. Q a w \<Longrightarrow> Q' a w) \<Longrightarrow> (\<And>w. E w \<Longrightarrow> E' w) \<Longrightarrow> triple P' m Q' E'"
  unfolding triple_def outcome_def by (fastforce split: sum.splits fault.splits)

lemma triple_yield [triple_rules]: "(\<And>w. P w \<Longrightarrow> Q a w) \<Longrightarrow> triple P (yield a) Q E"
  by (simp add: triple_def yield_def)

lemma triple_throw [triple_rules]: "(\<And>w. P w \<Longrightarrow> E w) \<Longrightarrow> triple P (throw e) Q E"
  by (simp add: triple_def throw_def)

lemma triple_andthen:
  assumes "triple P m R E" "\<And>a. triple (R a) (f a) Q E"
  shows "triple P (andthen m f) Q E"
  unfolding triple_def
proof (intro allI impI)
  fix w assume "P w"
  with assms(1) have "outcome R E (m w)" by (simp add: triple_def)
  then show "outcome Q E (andthen m f w)"
    by (cases rule: outcome_cases) (use assms(2) in \<open>simp_all add: andthen_def triple_def\<close>)
qed

lemma triple_attempt:
  assumes "triple P m R S" "\<And>a. triple (R a) (f (Inr a)) Q E" "\<And>e. triple S (f (Inl e)) Q E"
  shows "triple P (attempt m f) Q E"
  unfolding triple_def
proof (intro allI impI)
  fix w assume "P w"
  with assms(1) have "outcome R S (m w)" by (simp add: triple_def)
  then show "outcome Q E (attempt m f w)"
    by (cases rule: outcome_cases) (use assms(2,3) in \<open>simp_all add: attempt_def triple_def\<close>)
qed

lemma triple_conj:
  assumes "triple P m Q E" "triple P' m Q' E'"
  shows "triple (\<lambda>w. P w \<and> P' w) m (\<lambda>a w. Q a w \<and> Q' a w) E"
  unfolding triple_def
proof (intro allI impI)
  fix w assume "P w \<and> P' w"
  with assms have "outcome Q E (m w)" "outcome Q' E' (m w)" by (simp_all add: triple_def)
  then show "outcome (\<lambda>a w. Q a w \<and> Q' a w) E (m w)" by (cases rule: outcome_cases) simp_all
qed

lemma triple_from_option [triple_rules]:
  "(\<And>a w. r = Some a \<Longrightarrow> P w \<Longrightarrow> Q a w) \<Longrightarrow> (\<And>w. P w \<Longrightarrow> E w) \<Longrightarrow> triple P (from_option e r) Q E"
  by (cases r) (simp_all add: from_option_def triple_yield triple_throw)

lemma preserves_andthen: "preserves I m \<Longrightarrow> (\<And>a. preserves I (f a)) \<Longrightarrow> preserves I (andthen m f)"
  by (rule triple_andthen)

lemma preserves_attempt: "preserves I m \<Longrightarrow> (\<And>a. preserves I (f a)) \<Longrightarrow> preserves I (attempt m f)"
  by (rule triple_attempt)

lemma preserves_yield: "preserves I (yield a)"
  by (rule triple_yield)

lemma preserves_throw: "preserves I (throw e)"
  by (rule triple_throw)

lemma preserves_from_option: "preserves I (from_option e r)"
  by (rule triple_from_option)

lemma preserves_for_each: "(\<And>x. x \<in> set xs \<Longrightarrow> preserves I (f x)) \<Longrightarrow> preserves I (for_each xs f)"
  by (induction xs) (auto intro: preserves_yield preserves_andthen)

lemma preserves_collect: "(\<And>x. x \<in> set xs \<Longrightarrow> preserves I (f x)) \<Longrightarrow> preserves I (collect xs f)"
  by (induction xs) (auto intro: preserves_yield preserves_andthen)

lemmas preserves_rules = preserves_andthen preserves_attempt preserves_yield preserves_throw preserves_from_option
  preserves_for_each preserves_collect

lemma triple_result: "triple P m Q E \<Longrightarrow> P w \<Longrightarrow> m w = (w', Inr a) \<Longrightarrow> Q a w'"
  by (metis outcome_simps(1) triple_def)

lemma preserves_result: "preserves I m \<Longrightarrow> I w \<Longrightarrow> I (fst (m w))"
  unfolding triple_def by (metis fst_conv outcome_cases)

end
