(* ===== verification/Actor_Store.thy ===== *)
theory Actor_Store
  imports Store_Monad
begin

text \<open>
  The actor repository, \<^verbatim>\<open>vs/src/db/actor.rs\<close>: one hash per connected actor with its attributes, the services it offers,
  and the host names it has claimed, spread over several keys of the database. Services are claimed by the last actor
  to connect, host names by the first to claim them.
\<close>

subsection \<open>Keys\<close>

definition KEY_ACTOR :: string where "KEY_ACTOR = ''actor''"
definition KEY_SERVICE :: string where "KEY_SERVICE = ''service''"
definition KEY_HOST :: string where "KEY_HOST = ''host''"
definition KEY_NODES :: string where "KEY_NODES = ''nodes''"
definition KEY_ADAPTERS :: string where "KEY_ADAPTERS = ''adapters''"
definition ATTR_DEVICE_HOSTNAME :: string where "ATTR_DEVICE_HOSTNAME = ''device.hostname''"

datatype role_filter = NodeRole | AdapterRole

record service_entry =
  se_name :: string
  se_zpr_addr :: ip_addr

definition actor_key_for :: "ip_addr \<Rightarrow> string" where
  "actor_key_for a = KEY_ACTOR @ '':'' @ zaddr a"

definition attrs_key_for :: "ip_addr \<Rightarrow> string" where
  "attrs_key_for a = KEY_ACTOR @ '':'' @ zaddr a @ '':attrs''"

definition service_key_for :: "'db store_env \<Rightarrow> string \<Rightarrow> string" where
  "service_key_for en name = KEY_SERVICE @ '':'' @ en_key_encode en name"

definition host_key_for :: "'db store_env \<Rightarrow> string \<Rightarrow> string" where
  "host_key_for en name = KEY_HOST @ '':'' @ en_key_encode en name"

definition actor_services_key_for :: "ip_addr \<Rightarrow> string" where
  "actor_services_key_for a = KEY_ACTOR @ '':'' @ zaddr a @ '':services''"

definition actor_hostnames_key_for :: "ip_addr \<Rightarrow> string" where
  "actor_hostnames_key_for a = KEY_ACTOR @ '':'' @ zaddr a @ '':hostnames''"

definition lower_or_digit :: "char \<Rightarrow> bool" where
  "lower_or_digit c \<longleftrightarrow> (let n = of_char c :: nat in 97 \<le> n \<and> n \<le> 122 \<or> 48 \<le> n \<and> n \<le> 57)"

definition is_valid_hostname_label :: "string \<Rightarrow> bool" where
  "is_valid_hostname_label v \<longleftrightarrow>
     (if v = [] \<or> length v > 63 then False
      else lower_or_digit (hd v) \<and> lower_or_digit (last v) \<and> list_all (\<lambda>c. lower_or_digit c \<or> c = CHR ''-'') v)"

text \<open>\<^verbatim>\<open>str::strip_prefix\<close>, \<^verbatim>\<open>str::strip_suffix\<close> and \<^verbatim>\<open>str::trim_start_matches\<close>.\<close>

definition strip_prefix :: "string \<Rightarrow> string \<Rightarrow> string option" where
  "strip_prefix p s = (if take (length p) s = p then Some (drop (length p) s) else None)"

definition strip_suffix :: "string \<Rightarrow> string \<Rightarrow> string option" where
  "strip_suffix p s = map_option rev (strip_prefix (rev p) (rev s))"

function trim_start_matches :: "string \<Rightarrow> string \<Rightarrow> string" where
  "trim_start_matches p s =
     (if p \<noteq> [] \<and> take (length p) s = p then trim_start_matches p (drop (length p) s) else s)"
  by pat_completeness auto
termination trim_start_matches
proof (relation "measure (length \<circ> snd)")
  fix p s :: string
  assume "p \<noteq> [] \<and> take (length p) s = p"
  then have "s \<noteq> []" "p \<noteq> []" by auto
  then show "((p, drop (length p) s), p, s) \<in> measure (length \<circ> snd)" by simp
qed simp

subsection \<open>Releasing names\<close>

definition find_surviving_claimant ::
  "'db store_env \<Rightarrow> string \<Rightarrow> string \<Rightarrow> ('db world, store_error, string option) action" where
  "find_surviving_claimant en service_name excluded =
     andthen (on_db en (\<lambda>c. db_scan_match_all c (KEY_ACTOR @ '':*:services''))) (\<lambda>keys.
     andthen (collect keys (\<lambda>key.
       if key = excluded then yield None
       else case Option.bind (strip_prefix (KEY_ACTOR @ '':'') key) (strip_suffix '':services'') of
              None \<Rightarrow> yield None
            | Some zaddr_enc \<Rightarrow>
                andthen (on_db en (\<lambda>c. db_sismember c key service_name)) (\<lambda>claims.
                if \<not> claims then yield None
                else andthen (on_db en (\<lambda>c. db_exists c (KEY_ACTOR @ '':'' @ zaddr_enc))) (\<lambda>live.
                     if \<not> live then yield None
                     else yield (map_option ip_to_string (addr_of_zaddr zaddr_enc)))))) (\<lambda>candidates.
     yield (first (sort candidates))))"

definition release_owned_service_entries ::
  "'db store_env \<Rightarrow> string \<Rightarrow> string list \<Rightarrow> ('db world, store_error, unit) action" where
  "release_owned_service_entries en zpraddr_str names =
     (case parse_ip zpraddr_str of
        None \<Rightarrow> throw (StInvalidData (''invalid ZPR address '' @ zpraddr_str))
      | Some addr \<Rightarrow>
          for_each names (\<lambda>name.
            andthen (on_db en (\<lambda>c. db_hget c (service_key_for en name) ''zpr_addr'')) (\<lambda>owner.
            case owner of
              None \<Rightarrow> yield ()
            | Some actor_addr \<Rightarrow>
                if actor_addr \<noteq> zpraddr_str then yield ()
                else andthen (find_surviving_claimant en name (actor_services_key_for addr)) (\<lambda>claimant.
                     case claimant of
                       Some claimant_addr \<Rightarrow> on_db en (\<lambda>c. db_hset c (service_key_for en name) ''zpr_addr'' claimant_addr)
                     | None \<Rightarrow> on_db en (\<lambda>c. db_del c (service_key_for en name))))))"

definition release_owned_host_entries ::
  "'db store_env \<Rightarrow> string \<Rightarrow> string list \<Rightarrow> ('db world, store_error, unit) action" where
  "release_owned_host_entries en zpraddr_str names =
     for_each names (\<lambda>name.
       andthen (on_db en (\<lambda>c. db_hget c (host_key_for en name) ''zpr_addr'')) (\<lambda>owner.
       if owner = Some zpraddr_str then on_db en (\<lambda>c. db_del c (host_key_for en name)) else yield ()))"

definition clean_up :: "'db store_env \<Rightarrow> ip_addr \<Rightarrow> ('db world, store_error, unit) action" where
  "clean_up en a =
     (let zpraddr_str = ip_to_string a; services_key = actor_services_key_for a; hostnames_key = actor_hostnames_key_for a
      in andthen (on_db en (\<lambda>c. db_atomic_pipeline c [Del (actor_key_for a), Del (attrs_key_for a),
           SRem KEY_NODES zpraddr_str, SRem KEY_ADAPTERS zpraddr_str])) (\<lambda>_.
         andthen (on_db en (\<lambda>c. db_exists c services_key)) (\<lambda>has_services.
         andthen (if has_services
                  then andthen (on_db en (\<lambda>c. db_smembers c services_key)) (\<lambda>names.
                       andthen (release_owned_service_entries en zpraddr_str names) (\<lambda>_.
                       on_db en (\<lambda>c. db_del c services_key)))
                  else yield ()) (\<lambda>_.
         andthen (on_db en (\<lambda>c. db_exists c hostnames_key)) (\<lambda>has_names.
         if has_names
         then andthen (on_db en (\<lambda>c. db_smembers c hostnames_key)) (\<lambda>names.
              andthen (release_owned_host_entries en zpraddr_str names) (\<lambda>_.
              on_db en (\<lambda>c. db_del c hostnames_key)))
         else yield ())))))"

subsection \<open>Claiming host names\<close>

text \<open>The names an actor may claim, and those a policy service holds.\<close>

fun sort_out_hostnames :: "string set \<Rightarrow> string list \<Rightarrow> string list \<times> string list" where
  "sort_out_hostnames pnames [] = ([], [])"
| "sort_out_hostnames pnames (v # vs) =
     (case sort_out_hostnames pnames vs of (desired, conflicts) \<Rightarrow>
        if \<not> is_valid_hostname_label v then (desired, conflicts)
        else if v \<in> pnames then (desired, v # conflicts)
        else (v # desired, conflicts))"

fun claim_hostnames ::
  "'db store_env \<Rightarrow> string \<Rightarrow> string \<Rightarrow> string list \<Rightarrow> ('db world, store_error, string list) action" where
  "claim_hostnames en zpraddr_str hostnames_key [] = yield []"
| "claim_hostnames en zpraddr_str hostnames_key (name # names) =
     andthen (on_db en (\<lambda>c. db_hset_nx c (host_key_for en name) ''zpr_addr'' zpraddr_str)) (\<lambda>claimed.
     if claimed
     then andthen (on_db en (\<lambda>c. db_sadd c hostnames_key name)) (\<lambda>_.
          claim_hostnames en zpraddr_str hostnames_key names)
     else andthen (on_db en (\<lambda>c. db_hget c (host_key_for en name) ''zpr_addr'')) (\<lambda>owner.
          if owner = Some zpraddr_str
          then andthen (on_db en (\<lambda>c. db_sadd c hostnames_key name)) (\<lambda>_.
               claim_hostnames en zpraddr_str hostnames_key names)
          else andthen (count HostnameClaimRejected) (\<lambda>_.
               andthen (claim_hostnames en zpraddr_str hostnames_key names) (\<lambda>lost.
               yield (name # lost)))))"

definition claim_hostnames_for_actor ::
  "'db store_env \<Rightarrow> actor \<Rightarrow> string set \<Rightarrow> ('db world, store_error, unit) action" where
  "claim_hostnames_for_actor en actor pnames =
     (case zpr_addr actor of
        None \<Rightarrow> yield ()
      | Some a \<Rightarrow>
          let zpraddr_str = ip_to_string a; hostnames_key = actor_hostnames_key_for a;
              (desired, conflicts) = (case get_attribute actor ATTR_DEVICE_HOSTNAME of
                 None \<Rightarrow> ([], []) | Some at \<Rightarrow> sort_out_hostnames pnames (at_value at))
          in andthen (for_each conflicts (\<lambda>_. count HostnameClaimRejected)) (\<lambda>_.
             andthen (on_db en (\<lambda>c. db_smembers c hostnames_key)) (\<lambda>existing.
             andthen (release_owned_host_entries en zpraddr_str (filter (\<lambda>n. n \<notin> set desired) existing)) (\<lambda>_.
             andthen (on_db en (\<lambda>c. db_del c hostnames_key)) (\<lambda>_.
             andthen (claim_hostnames en zpraddr_str hostnames_key desired) (\<lambda>lost.
             andthen (from_option StSerialization (en_strings_to_json en (conflicts @ lost))) (\<lambda>json.
             on_db en (\<lambda>c. db_hset c (actor_key_for a) ''hostname_conflicts'' json))))))))"

subsection \<open>Adding, updating, removing\<close>

definition store_identity ::
  "'db store_env \<Rightarrow> actor \<Rightarrow> string \<Rightarrow> string \<Rightarrow> ('db world, store_error, unit) action" where
  "store_identity en actor base_key ts =
     andthen (from_option StSerialization (en_strings_to_json en (identity_keys actor))) (\<lambda>json.
     andthen (on_db en (\<lambda>c. db_hset c base_key ''identity_keys'' json)) (\<lambda>_.
     andthen (on_db en (\<lambda>c. db_hset_nx c base_key ''ctime'' ts)) (\<lambda>_.
     on_db en (\<lambda>c. db_hset c base_key ''utime'' ts))))"

definition try_add_actor ::
  "'db store_env \<Rightarrow> actor \<Rightarrow> string set \<Rightarrow> bool \<Rightarrow> ('db world, store_error, unit) action" where
  "try_add_actor en actor pnames replace =
     (case zpr_addr actor of
        None \<Rightarrow> throw (StMissingRequired ''attempt to add actor with no ZPR address'')
      | Some a \<Rightarrow>
          let zpraddr_str = ip_to_string a; base_key = actor_key_for a; ts = en_timestamp en (ck_wall (en_ck en))
          in andthen (if replace then clean_up en a
                      else andthen (on_db en (\<lambda>c. db_hset_nx c base_key ''ctime'' ts)) (\<lambda>claimed.
                           if claimed then yield ()
                           else throw (StAddressOccupied (''zpr address already held by a live actor: '' @ ip_to_string a)))) (\<lambda>_.
             andthen (for_each (attrs_iter actor) (\<lambda>at.
               andthen (from_option StSerialization (en_attr_to_json en at)) (\<lambda>json.
               on_db en (\<lambda>c. db_hset c (attrs_key_for a) (at_key at) json)))) (\<lambda>_.
             andthen (store_identity en actor base_key ts) (\<lambda>_.
             andthen (for_each (services_iter actor) (\<lambda>name.
               andthen (on_db en (\<lambda>c. db_hset c (service_key_for en name) ''zpr_addr'' zpraddr_str)) (\<lambda>_.
               on_db en (\<lambda>c. db_sadd c (actor_services_key_for a) name)))) (\<lambda>_.
             andthen (claim_hostnames_for_actor en actor pnames) (\<lambda>_.
             on_db en (\<lambda>c. db_sadd c (if is_node actor then KEY_NODES else KEY_ADAPTERS) zpraddr_str)))))))"

definition add_actor_with_mode ::
  "'db store_env \<Rightarrow> actor \<Rightarrow> string set \<Rightarrow> bool \<Rightarrow> ('db world, store_error, unit) action" where
  "add_actor_with_mode en actor pnames replace =
     attempt (try_add_actor en actor pnames replace) (\<lambda>r.
       case r of
         Inr _ \<Rightarrow> yield ()
       | Inl (StAddressOccupied s) \<Rightarrow> throw (StAddressOccupied s)
       | Inl e \<Rightarrow>
           (case zpr_addr actor of
              None \<Rightarrow> throw e
            | Some a \<Rightarrow> attempt (clean_up en a) (\<lambda>_. throw e)))"

definition add_actor :: "'db store_env \<Rightarrow> actor \<Rightarrow> string set \<Rightarrow> ('db world, store_error, unit) action" where
  "add_actor en actor pnames = add_actor_with_mode en actor pnames False"

definition add_actor_replacing :: "'db store_env \<Rightarrow> actor \<Rightarrow> string set \<Rightarrow> ('db world, store_error, unit) action" where
  "add_actor_replacing en actor pnames = add_actor_with_mode en actor pnames True"

definition update_actor :: "'db store_env \<Rightarrow> actor \<Rightarrow> string set \<Rightarrow> ('db world, store_error, unit) action" where
  "update_actor en actor pnames =
     (case zpr_addr actor of
        None \<Rightarrow> throw (StMissingRequired ''attempt to update actor with no ZPR address'')
      | Some a \<Rightarrow>
          let zpraddr_str = ip_to_string a; base_key = actor_key_for a; attrs_key = attrs_key_for a;
              services_key = actor_services_key_for a; ts = en_timestamp en (ck_wall (en_ck en));
              role_key = (if is_node actor then KEY_NODES else KEY_ADAPTERS)
          in andthen (on_db en (\<lambda>c. db_exists c base_key)) (\<lambda>known.
             if \<not> known then throw (StNotFound (''update called on non-existant actor: '' @ zpraddr_str))
             else
             andthen (on_db en (\<lambda>c. db_sismember c role_key zpraddr_str)) (\<lambda>same_role.
             if \<not> same_role then throw (StInvalidData (''update fails since actor not already in role: '' @ zpraddr_str))
             else
             andthen (on_db en (\<lambda>c. db_atomic_pipeline c (Del attrs_key # map (\<lambda>at. HSet attrs_key (at_key at)
               (case en_attr_to_json en at of None \<Rightarrow> [] | Some json \<Rightarrow> json)) (attrs_iter actor)))) (\<lambda>_.
             andthen (store_identity en actor base_key ts) (\<lambda>_.
             andthen (on_db en (\<lambda>c. db_smembers c services_key)) (\<lambda>existing.
             andthen (release_owned_service_entries en zpraddr_str
               (filter (\<lambda>n. n \<notin> set (services_iter actor)) existing)) (\<lambda>_.
             andthen (on_db en (\<lambda>c. db_del c services_key)) (\<lambda>_.
             andthen (for_each (services_iter actor) (\<lambda>name.
               andthen (on_db en (\<lambda>c. db_hget c (service_key_for en name) ''zpr_addr'')) (\<lambda>owner.
               andthen (case owner of
                   Some o' \<Rightarrow> if o' \<noteq> zpraddr_str then yield ()
                     else on_db en (\<lambda>c. db_hset c (service_key_for en name) ''zpr_addr'' zpraddr_str)
                 | None \<Rightarrow> on_db en (\<lambda>c. db_hset c (service_key_for en name) ''zpr_addr'' zpraddr_str)) (\<lambda>_.
               on_db en (\<lambda>c. db_sadd c services_key name))))) (\<lambda>_.
             claim_hostnames_for_actor en actor pnames)))))))))"

definition rm_actor_by_zpr_addr :: "'db store_env \<Rightarrow> ip_addr \<Rightarrow> ('db world, store_error, unit) action" where
  "rm_actor_by_zpr_addr en a = clean_up en a"

subsection \<open>Queries\<close>

definition load_attribute :: "'db store_env \<Rightarrow> actor \<Rightarrow> string \<Rightarrow> (store_error, actor) result" where
  "load_attribute en actor json =
     (case en_attr_from_json en json of
        None \<Rightarrow> Inl (Err StSerialization)
      | Some at \<Rightarrow>
          (case add_attribute at actor of
             Inr a \<Rightarrow> Inr a | Inl (Err e) \<Rightarrow> Inl (Err (StAttribute e)) | Inl Panic \<Rightarrow> Inl Panic))"

fun load_attributes :: "'db store_env \<Rightarrow> string list \<Rightarrow> actor \<Rightarrow> (store_error, actor) result" where
  "load_attributes en [] actor = Inr actor"
| "load_attributes en (json # rest) actor = bind (load_attribute en actor json) (load_attributes en rest)"

fun load_identity_keys :: "string list \<Rightarrow> actor \<Rightarrow> (store_error, actor) result" where
  "load_identity_keys [] actor = Inr actor"
| "load_identity_keys (k # ks) actor =
     (case add_identity_key USIZE_MAX k actor of
        Inr a \<Rightarrow> load_identity_keys ks a | Inl (Err e) \<Rightarrow> Inl (Err (StAttribute e)) | Inl Panic \<Rightarrow> Inl Panic)"

definition get_actor_by_zpr_addr :: "'db store_env \<Rightarrow> ip_addr \<Rightarrow> ('db world, store_error, actor) action" where
  "get_actor_by_zpr_addr en a =
     andthen (on_db en (\<lambda>c. db_exists c (actor_key_for a))) (\<lambda>known.
     if \<not> known then throw (StNotFound (''actor not found: '' @ ip_to_string a))
     else
     andthen (on_db en (\<lambda>c. db_hgetall c (actor_key_for a @ '':attrs''))) (\<lambda>attrs_map.
     andthen (lift_result (load_attributes en (hm_values attrs_map) actor_new)) (\<lambda>actor.
     andthen (on_db en (\<lambda>c. db_hget c (actor_key_for a) ''identity_keys'')) (\<lambda>json.
     andthen (from_option StSerialization (en_strings_from_json en (case json of None \<Rightarrow> [] | Some s \<Rightarrow> s))) (\<lambda>ks.
     lift_result (load_identity_keys ks actor))))))"

definition addr_of_entry :: "string \<Rightarrow> string \<Rightarrow> ('w, store_error, ip_addr) action" where
  "addr_of_entry key s = from_option (StInvalidData (''invalid zpr_addr in entry '' @ key)) (parse_ip s)"

definition list_services :: "'db store_env \<Rightarrow> ('db world, store_error, service_entry list) action" where
  "list_services en =
     andthen (on_db en (\<lambda>c. db_scan_match_all c (KEY_SERVICE @ '':*''))) (\<lambda>svc_keys.
     collect svc_keys (\<lambda>svc_key.
       andthen (on_db en (\<lambda>c. db_hget c svc_key ''zpr_addr'')) (\<lambda>r.
       case r of
         None \<Rightarrow> yield None
       | Some addr_str \<Rightarrow>
           andthen (addr_of_entry svc_key addr_str) (\<lambda>addr.
           case en_key_decode en (trim_start_matches (KEY_SERVICE @ '':'') svc_key) of
             Some name \<Rightarrow> yield (Some \<lparr>se_name = name, se_zpr_addr = addr\<rparr>)
           | None \<Rightarrow> throw (StInvalidData (''invalid service name encoding for key '' @ svc_key))))))"

definition get_zpr_addr_at :: "'db store_env \<Rightarrow> string \<Rightarrow> ('db world, store_error, ip_addr option) action" where
  "get_zpr_addr_at en key =
     andthen (on_db en (\<lambda>c. db_hget c key ''zpr_addr'')) (\<lambda>r.
     case r of
       None \<Rightarrow> yield None
     | Some addr_str \<Rightarrow> andthen (addr_of_entry key addr_str) (\<lambda>addr. yield (Some addr)))"

definition get_zpr_addr_for_service :: "'db store_env \<Rightarrow> string \<Rightarrow> ('db world, store_error, ip_addr option) action" where
  "get_zpr_addr_for_service en name = get_zpr_addr_at en (service_key_for en name)"

definition get_zpr_addr_for_hostname :: "'db store_env \<Rightarrow> string \<Rightarrow> ('db world, store_error, ip_addr option) action" where
  "get_zpr_addr_for_hostname en name = get_zpr_addr_at en (host_key_for en name)"

definition list_hostnames_for_actor :: "'db store_env \<Rightarrow> ip_addr \<Rightarrow> ('db world, store_error, string list) action" where
  "list_hostnames_for_actor en a = on_db en (\<lambda>c. db_smembers c (actor_hostnames_key_for a))"

definition get_hostname_conflicts :: "'db store_env \<Rightarrow> ip_addr \<Rightarrow> ('db world, store_error, string list) action" where
  "get_hostname_conflicts en a =
     andthen (on_db en (\<lambda>c. db_hget c (actor_key_for a) ''hostname_conflicts'')) (\<lambda>r.
     case r of
       None \<Rightarrow> yield []
     | Some json \<Rightarrow> yield (case en_strings_from_json en json of None \<Rightarrow> [] | Some xs \<Rightarrow> xs))"

definition get_actor_attrs ::
  "'db store_env \<Rightarrow> ip_addr \<Rightarrow> string list \<Rightarrow> ('db world, store_error, attribute list) action" where
  "get_actor_attrs en a keys =
     collect keys (\<lambda>k.
       andthen (on_db en (\<lambda>c. db_hget c (attrs_key_for a) k)) (\<lambda>r.
       case r of
         None \<Rightarrow> yield None
       | Some json \<Rightarrow> andthen (from_option StSerialization (en_attr_from_json en json)) (\<lambda>at. yield (Some at))))"

text \<open>\<^verbatim>\<open>libeval/src/pubkey.rs\<close>: the bytes of a key written as \<open>FORMAT:BASE64\<close>.\<close>

definition ZPRKF01_FMT :: string where "ZPRKF01_FMT = ''ZprKF01''"

definition decode_public_key :: "'db store_env \<Rightarrow> string \<Rightarrow> string option" where
  "decode_public_key en s =
     (if CHR '':'' \<notin> set s then None
      else if takeWhile (\<lambda>c. c \<noteq> CHR '':'') s \<noteq> ZPRKF01_FMT then None
      else en_base64_decode en (tl (dropWhile (\<lambda>c. c \<noteq> CHR '':'') s)))"

definition get_a2a_dh_pubkey_by_zpr_addr ::
  "'db store_env \<Rightarrow> ip_addr \<Rightarrow> ('db world, store_error, string option) action" where
  "get_a2a_dh_pubkey_by_zpr_addr en a =
     andthen (get_actor_attrs en a [A2A_DH_PUBKEY]) (\<lambda>ats.
     case ats of
       [] \<Rightarrow> yield None
     | at # _ \<Rightarrow>
         (case get_single_value at of
            Inr v \<Rightarrow> andthen (from_option (StInvalidData (''invalid '' @ A2A_DH_PUBKEY @ '' for actor '' @ ip_to_string a))
              (decode_public_key en v)) (\<lambda>key. yield (Some key))
          | Inl _ \<Rightarrow> throw (StInvalidData (''actor '' @ ip_to_string a))))"

definition list_services_for_actor :: "'db store_env \<Rightarrow> ip_addr \<Rightarrow> ('db world, store_error, string list) action" where
  "list_services_for_actor en a = on_db en (\<lambda>c. db_smembers c (actor_services_key_for a))"

definition cn_label :: "'db store_env \<Rightarrow> ip_addr \<Rightarrow> ('db world, store_error, string option) action" where
  "cn_label en a =
     attempt (on_db en (\<lambda>c. db_hget c (attrs_key_for a) CN)) (\<lambda>r.
       yield (case r of
         Inr (Some json) \<Rightarrow>
           (case en_attr_from_json en json of
              None \<Rightarrow> None
            | Some at \<Rightarrow> (case get_single_value at of Inr v \<Rightarrow> Some v | Inl _ \<Rightarrow> Some (get_value_as_string at)))
       | _ \<Rightarrow> None))"

definition list_actors ::
  "'db store_env \<Rightarrow> role_filter option \<Rightarrow> ('db world, store_error, (ip_addr \<times> string option) list) action" where
  "list_actors en by_role =
     (let set_keys = (case by_role of
            Some NodeRole \<Rightarrow> [KEY_NODES] | Some AdapterRole \<Rightarrow> [KEY_ADAPTERS] | None \<Rightarrow> [KEY_NODES, KEY_ADAPTERS])
      in andthen (collect set_keys (\<lambda>set_key.
           andthen (on_db en (\<lambda>c. db_smembers c set_key)) (\<lambda>addr_strs.
           andthen (collect addr_strs (\<lambda>addr_str.
             case parse_ip addr_str of
               None \<Rightarrow> yield None
             | Some addr \<Rightarrow> andthen (cn_label en addr) (\<lambda>cn. yield (Some (addr, cn))))) (\<lambda>entries.
           yield (Some entries))))) (\<lambda>lists.
         yield (concat lists)))"

definition reconcile_hostname_claims :: "'db store_env \<Rightarrow> string set \<Rightarrow> ('db world, store_error, unit) action" where
  "reconcile_hostname_claims en pnames =
     andthen (list_actors en None) (\<lambda>actors.
     for_each actors (\<lambda>(addr, _).
       attempt (get_actor_by_zpr_addr en addr) (\<lambda>r.
       case r of
         Inl _ \<Rightarrow> yield ()
       | Inr actor \<Rightarrow> attempt (claim_hostnames_for_actor en actor pnames) (\<lambda>_. yield ()))))"

end
