(* ===== verification/Repositories.thy ===== *)
theory Repositories
  imports Actor_Store
begin

text \<open>
  The smaller repositories: the state of connected nodes (\<^verbatim>\<open>vs/src/db/node.rs\<close>), the links of the topology
  (\<^verbatim>\<open>vs/src/db/link.rs\<close>), the denylist of bootstrap keys (\<^verbatim>\<open>vs/src/db/denylist.rs\<close>) and the pending obligations to
  authenticate again (\<^verbatim>\<open>vs/src/db/reauth.rs\<close>).
\<close>

subsection \<open>Nodes\<close>

definition node_key_for_node :: "ip_addr \<Rightarrow> string" where
  "node_key_for_node a = ''node:'' @ zaddr a"

definition lastseen_key_for_node :: "ip_addr \<Rightarrow> string" where
  "lastseen_key_for_node a = ''node:'' @ zaddr a @ '':lastseen''"

definition vss_key_for_node :: "ip_addr \<Rightarrow> string" where
  "vss_key_for_node a = ''node:'' @ zaddr a @ '':vss''"

definition connections_key_for_node :: "ip_addr \<Rightarrow> string" where
  "connections_key_for_node a = ''node:'' @ zaddr a @ '':connections''"

definition todo_vinstall_key_for_node :: "ip_addr \<Rightarrow> string" where
  "todo_vinstall_key_for_node a = ''node:'' @ zaddr a @ '':todo:vinstall''"

definition todo_vrevoke_key_for_node :: "ip_addr \<Rightarrow> string" where
  "todo_vrevoke_key_for_node a = ''node:'' @ zaddr a @ '':todo:vrevoke''"

definition todo_crevoke_key_for_node :: "ip_addr \<Rightarrow> string" where
  "todo_crevoke_key_for_node a = ''node:'' @ zaddr a @ '':todo:crevoke''"

text \<open>\<^verbatim>\<open>SocketAddr::from_str\<close>.\<close>

definition read_port :: "string \<Rightarrow> (u16 \<times> string) option" where
  "read_port s =
     (case read_given_char (CHR '':'') s of
        None \<Rightarrow> None
      | Some s1 \<Rightarrow> map_option (\<lambda>(n, s2). (of_int n, s2)) (read_number 10 (length s1) 65535 True s1))"

definition read_socket_v4 :: "string \<Rightarrow> (socket_addr \<times> string) option" where
  "read_socket_v4 s =
     (case read_ipv4_addr s of
        None \<Rightarrow> None
      | Some (a, s1) \<Rightarrow> map_option (\<lambda>(p, s2). (\<lparr>sa_ip = V4 a, sa_port = p, sa_scope = 0\<rparr>, s2)) (read_port s1))"

definition read_scope :: "string \<Rightarrow> u32 \<times> string" where
  "read_scope s =
     (case read_given_char (CHR ''%'') s of
        None \<Rightarrow> (0, s)
      | Some s1 \<Rightarrow>
          (case read_number 10 (length s1) (2 ^ 32 - 1) True s1 of None \<Rightarrow> (0, s) | Some (n, s2) \<Rightarrow> (of_int n, s2)))"

definition read_socket_v6 :: "string \<Rightarrow> (socket_addr \<times> string) option" where
  "read_socket_v6 s =
     (case read_given_char (CHR ''['') s of
        None \<Rightarrow> None
      | Some s1 \<Rightarrow>
          (case read_ipv6_addr s1 of
             None \<Rightarrow> None
           | Some (a, s2) \<Rightarrow>
               (case read_scope s2 of (scope, s3) \<Rightarrow>
                  (case read_given_char (CHR '']'') s3 of
                     None \<Rightarrow> None
                   | Some s4 \<Rightarrow>
                       map_option (\<lambda>(p, s5). (\<lparr>sa_ip = V6 a, sa_port = p, sa_scope = scope\<rparr>, s5)) (read_port s4)))))"

definition parse_socket_addr :: "string \<Rightarrow> socket_addr option" where
  "parse_socket_addr s =
     (case read_socket_v4 s of
        Some (sa, rest) \<Rightarrow> if rest = [] then Some sa else None
      | None \<Rightarrow> (case read_socket_v6 s of Some (sa, rest) \<Rightarrow> if rest = [] then Some sa else None | None \<Rightarrow> None))"

definition new_from_node_actor :: "time \<Rightarrow> actor \<Rightarrow> (store_error, node_record) result" where
  "new_from_node_actor now a =
     (if \<not> is_node a then Inl (Err (StInvalidData ''attempt to create Node from non-node actor''))
      else case get_cn a of
        None \<Rightarrow> Inl (Err (StMissingRequired ''node actor missing CN''))
      | Some cn \<Rightarrow>
          (case zpr_addr a of
             None \<Rightarrow> Inl (Err (StMissingRequired ''node actor missing ZPR address''))
           | Some addr \<Rightarrow>
               (case get_attribute a SUBSTRATE_ADDR of
                  None \<Rightarrow> Inl (Err (StMissingRequired ''node actor missing substrate address''))
                | Some at \<Rightarrow>
                    (case get_single_value at of
                       Inl _ \<Rightarrow> Inl (Err (StInvalidData ''failed to get single value for substrate address''))
                     | Inr v \<Rightarrow>
                         (case parse_socket_addr v of
                            None \<Rightarrow> Inl (Err (StInvalidData ''failed to parse substrate address attribute as SocketAddr''))
                          | Some sa \<Rightarrow>
                              Inr \<lparr>nr_ctime = now, nr_zpr_addr = addr, nr_cn = cn, nr_substrate_addr = sa\<rparr>)))))"

definition node_repo_add :: "'db store_env \<Rightarrow> node_record \<Rightarrow> ('db world, store_error, unit) action" where
  "node_repo_add en n =
     andthen (from_option StSerialization (en_node_to_json en n)) (\<lambda>json.
     on_db en (\<lambda>c. db_set c (node_key_for_node (nr_zpr_addr n)) json))"

definition set_node_vss :: "'db store_env \<Rightarrow> ip_addr \<Rightarrow> socket_addr \<Rightarrow> ('db world, store_error, unit) action" where
  "set_node_vss en a vss =
     andthen (on_db en (\<lambda>c. db_exists c (node_key_for_node a))) (\<lambda>known.
     if \<not> known then throw (StNotFound (''node not found for address '' @ ip_to_string a))
     else andthen (from_option StSerialization (en_socket_to_json en vss)) (\<lambda>json.
          on_db en (\<lambda>c. db_set c (vss_key_for_node a) json)))"

definition get_node_vss :: "'db store_env \<Rightarrow> ip_addr \<Rightarrow> ('db world, store_error, socket_addr option) action" where
  "get_node_vss en a =
     andthen (on_db en (\<lambda>c. db_get c (vss_key_for_node a))) (\<lambda>r.
     case r of
       None \<Rightarrow> yield None
     | Some json \<Rightarrow> andthen (from_option StSerialization (en_socket_from_json en json)) (\<lambda>sa. yield (Some sa)))"

definition clear_node_vss :: "'db store_env \<Rightarrow> ip_addr \<Rightarrow> ('db world, store_error, unit) action" where
  "clear_node_vss en a = on_db en (\<lambda>c. db_del c (vss_key_for_node a))"

definition update_last_seen_time :: "'db store_env \<Rightarrow> ip_addr \<Rightarrow> ('db world, store_error, unit) action" where
  "update_last_seen_time en a =
     on_db en (\<lambda>c. db_set c (lastseen_key_for_node a) (en_rfc3339 en (ck_wall (en_ck en))))"

definition get_last_seen_time :: "'db store_env \<Rightarrow> ip_addr \<Rightarrow> ('db world, store_error, time option) action" where
  "get_last_seen_time en a =
     andthen (on_db en (\<lambda>c. db_get c (lastseen_key_for_node a))) (\<lambda>r.
     case r of
       None \<Rightarrow> yield None
     | Some ts \<Rightarrow>
         andthen (from_option (StInvalidData ''failed to parse last-seen timestamp'') (en_parse_rfc3339 en ts)) (\<lambda>t.
         yield (Some t)))"

definition add_connected_adater :: "'db store_env \<Rightarrow> ip_addr \<Rightarrow> ip_addr \<Rightarrow> ('db world, store_error, unit) action" where
  "add_connected_adater en n a = on_db en (\<lambda>c. db_sadd c (connections_key_for_node n) (ip_to_string a))"

definition remove_connected_adapter :: "'db store_env \<Rightarrow> ip_addr \<Rightarrow> ip_addr \<Rightarrow> ('db world, store_error, unit) action" where
  "remove_connected_adapter en n a =
     on_db en (\<lambda>c. db_atomic_pipeline c [SRem (connections_key_for_node n) (ip_to_string a)])"

definition get_connected_adapters :: "'db store_env \<Rightarrow> ip_addr \<Rightarrow> ('db world, store_error, ip_addr list) action" where
  "get_connected_adapters en n =
     andthen (on_db en (\<lambda>c. db_smembers c (connections_key_for_node n))) (\<lambda>strs.
     collect strs (\<lambda>s.
       andthen (from_option (StInvalidData (''failed to parse address string '' @ s @ '' as IpAddr'')) (parse_ip s)) (\<lambda>a.
       yield (Some a))))"

definition node_repo_remove :: "'db store_env \<Rightarrow> ip_addr \<Rightarrow> ('db world, store_error, unit) action" where
  "node_repo_remove en a =
     on_db en (\<lambda>c. db_atomic_pipeline c [Del (connections_key_for_node a), Del (todo_vinstall_key_for_node a),
       Del (todo_vrevoke_key_for_node a), Del (todo_crevoke_key_for_node a), Del (node_key_for_node a),
       Del (vss_key_for_node a), Del (lastseen_key_for_node a)])"

definition list_node_addrs :: "'db store_env \<Rightarrow> ('db world, store_error, ip_addr list) action" where
  "list_node_addrs en =
     andthen (on_db en (\<lambda>c. db_scan_match_all c ''node:*'')) (\<lambda>keys.
     collect keys (\<lambda>key.
       case strip_prefix ''node:'' key of
         None \<Rightarrow> yield None
       | Some stripped \<Rightarrow>
           if CHR '':'' \<in> set stripped then yield None
           else andthen (from_option (StInvalidData (''failed to parse node address '' @ stripped)) (addr_of_zaddr stripped))
                (\<lambda>a. yield (Some a))))"

subsection \<open>Links\<close>

definition KEY_TOPOLOGY_EDGES :: string where "KEY_TOPOLOGY_EDGES = ''topology:edges''"
definition EDGE_SEP :: char where "EDGE_SEP = CHR ''|''"

definition canonical :: "ip_addr \<Rightarrow> ip_addr \<Rightarrow> string" where
  "canonical a b =
     (let za = zaddr a; zb = zaddr b in if za \<le> zb then za @ [EDGE_SEP] @ zb else zb @ [EDGE_SEP] @ za)"

text \<open>\<^verbatim>\<open>str::split\<close> at a character.\<close>

fun split_at_char :: "char \<Rightarrow> string \<Rightarrow> string list" where
  "split_at_char c [] = [[]]"
| "split_at_char c (x # xs) =
     (if x = c then [] # split_at_char c xs
      else (case split_at_char c xs of [] \<Rightarrow> [[x]] | part # parts \<Rightarrow> (x # part) # parts))"

definition parse_member :: "string \<Rightarrow> (store_error, ip_addr \<times> ip_addr) result" where
  "parse_member m =
     (case split_at_char EDGE_SEP m of
        [a_str, b_str] \<Rightarrow>
          (case addr_of_zaddr a_str of
             None \<Rightarrow> Inl (Err (StInvalidData (''failed to parse edge endpoint '' @ a_str)))
           | Some a \<Rightarrow>
               (case addr_of_zaddr b_str of
                  None \<Rightarrow> Inl (Err (StInvalidData (''failed to parse edge endpoint '' @ b_str)))
                | Some b \<Rightarrow> Inr (a, b)))
      | _ \<Rightarrow> Inl (Err (StInvalidData (''malformed topology edge member: '' @ m))))"

definition add_edge :: "'db store_env \<Rightarrow> ip_addr \<Rightarrow> ip_addr \<Rightarrow> ('db world, store_error, unit) action" where
  "add_edge en a b = on_db en (\<lambda>c. db_sadd c KEY_TOPOLOGY_EDGES (canonical a b))"

definition remove_edge :: "'db store_env \<Rightarrow> ip_addr \<Rightarrow> ip_addr \<Rightarrow> ('db world, store_error, unit) action" where
  "remove_edge en a b = on_db en (\<lambda>c. db_atomic_pipeline c [SRem KEY_TOPOLOGY_EDGES (canonical a b)])"

definition list_edges :: "'db store_env \<Rightarrow> ('db world, store_error, (ip_addr \<times> ip_addr) list) action" where
  "list_edges en =
     andthen (on_db en (\<lambda>c. db_smembers c KEY_TOPOLOGY_EDGES)) (\<lambda>members.
     collect members (\<lambda>m. andthen (lift_result (parse_member m)) (\<lambda>e. yield (Some e))))"

subsection \<open>The denylist of bootstrap keys\<close>

definition KEY_DENYLIST :: string where "KEY_DENYLIST = ''authrevoke:bootstrap''"
definition KEY_NEXT_ID :: string where "KEY_NEXT_ID = ''authrevoke:bootstrap:next-id''"

definition denylist_claim :: "'db store_env \<Rightarrow> string \<Rightarrow> ('db world, store_error, u64) action" where
  "denylist_claim en cn =
     andthen (on_db en (\<lambda>c. db_incr c KEY_NEXT_ID 1)) (\<lambda>i.
     andthen (on_db en (\<lambda>c. db_hset_nx c KEY_DENYLIST cn (u64_to_string i))) (\<lambda>claimed.
     if claimed then yield i
     else andthen (on_db en (\<lambda>c. db_hget c KEY_DENYLIST cn)) (\<lambda>stored.
          case stored of
            Some s \<Rightarrow> from_option (StInvalidData (''denylist entry for '' @ cn @ '' has a non-numeric id'')) (parse_u64 s)
          | None \<Rightarrow>
              andthen (on_db en (\<lambda>c. db_hset_nx c KEY_DENYLIST cn (u64_to_string i))) (\<lambda>claimed.
              if claimed then yield i
              else throw (StInvalidData (''denylist add for '' @ cn @ '' lost two consecutive claim races''))))))"

definition denylist_add :: "'db store_env \<Rightarrow> string \<Rightarrow> ('db world, store_error, u64) action" where
  "denylist_add en cn =
     andthen (on_db en (\<lambda>c. db_hget c KEY_DENYLIST cn)) (\<lambda>existing.
     case existing of
       None \<Rightarrow> denylist_claim en cn
     | Some s \<Rightarrow>
         (case parse_u64 s of
            Some i \<Rightarrow> yield i
          | None \<Rightarrow> andthen (on_db en (\<lambda>c. db_hdel c KEY_DENYLIST cn)) (\<lambda>_. denylist_claim en cn)))"

definition denylist_contains :: "'db store_env \<Rightarrow> string \<Rightarrow> ('db world, store_error, bool) action" where
  "denylist_contains en cn = andthen (on_db en (\<lambda>c. db_hget c KEY_DENYLIST cn)) (\<lambda>r. yield (r \<noteq> None))"

definition denylist_list :: "'db store_env \<Rightarrow> ('db world, store_error, (u64 \<times> string) list) action" where
  "denylist_list en =
     andthen (on_db en (\<lambda>c. db_hgetall c KEY_DENYLIST)) (\<lambda>m.
     yield (List.map_filter (\<lambda>(cn, s). map_option (\<lambda>i. (i, cn)) (parse_u64 s)) m))"

definition denylist_cn_by_id :: "'db store_env \<Rightarrow> u64 \<Rightarrow> ('db world, store_error, string option) action" where
  "denylist_cn_by_id en i =
     andthen (denylist_list en) (\<lambda>entries. yield (map_option snd (find (\<lambda>(eid, _). eid = i) entries)))"

definition denylist_remove :: "'db store_env \<Rightarrow> u64 \<Rightarrow> ('db world, store_error, string option) action" where
  "denylist_remove en i =
     andthen (denylist_cn_by_id en i) (\<lambda>r.
     case r of
       None \<Rightarrow> yield None
     | Some cn \<Rightarrow> andthen (on_db en (\<lambda>c. db_hdel c KEY_DENYLIST cn)) (\<lambda>_. yield (Some cn)))"

definition denylist_clear :: "'db store_env \<Rightarrow> ('db world, store_error, unit) action" where
  "denylist_clear en = on_db en (\<lambda>c. db_del c KEY_DENYLIST)"

subsection \<open>Obligations to authenticate again\<close>

definition KEY_REAUTH_PENDING :: string where "KEY_REAUTH_PENDING = ''reauth:pending''"

record reauth_obligation =
  ro_vinst :: u64
  ro_deadline :: time

text \<open>\<^verbatim>\<open>Duration::as_secs\<close> of a time since the epoch.\<close>

definition add_obligation :: "'db store_env \<Rightarrow> reauth_obligation \<Rightarrow> ('db world, store_error, unit) action" where
  "add_obligation en ob =
     (if ro_deadline ob < 0 then throw (StInvalidData ''reauth deadline predates the epoch'')
      else on_db en (\<lambda>c. db_hset c KEY_REAUTH_PENDING (u64_to_string (ro_vinst ob))
             (u64_to_string (of_int (ro_deadline ob div 1000000000)))))"

definition list_obligations :: "'db store_env \<Rightarrow> ('db world, store_error, reauth_obligation list) action" where
  "list_obligations en =
     andthen (on_db en (\<lambda>c. db_hgetall c KEY_REAUTH_PENDING)) (\<lambda>m.
     collect m (\<lambda>(vinst_str, deadline_str).
       case (parse_u64 vinst_str, parse_u64 deadline_str) of
         (Some v, Some d) \<Rightarrow> yield (Some \<lparr>ro_vinst = v, ro_deadline = from_secs (uint d)\<rparr>)
       | _ \<Rightarrow> andthen (on_db en (\<lambda>c. db_hdel c KEY_REAUTH_PENDING vinst_str)) (\<lambda>_. yield None)))"

definition remove_obligation :: "'db store_env \<Rightarrow> u64 \<Rightarrow> ('db world, store_error, unit) action" where
  "remove_obligation en v = on_db en (\<lambda>c. db_hdel c KEY_REAUTH_PENDING (u64_to_string v))"

subsection \<open>Links: what is stored is read back\<close>

lemma split_at_char_none: "c \<notin> set s \<Longrightarrow> split_at_char c s = [s]"
  by (induction s) auto

lemma split_at_char_one: "c \<notin> set s \<Longrightarrow> c \<notin> set t \<Longrightarrow> split_at_char c (s @ c # t) = [s, t]"
  by (induction s) (auto simp: split_at_char_none)

lemma zaddr_no_sep: "EDGE_SEP \<notin> set (zaddr a)"
  using zaddr_chars [of EDGE_SEP a] by (auto simp: EDGE_SEP_def)

lemma parse_member_pair: "parse_member (zaddr a @ EDGE_SEP # zaddr b) = Inr (a, b)"
  by (simp add: parse_member_def split_at_char_one zaddr_no_sep)

text \<open>C34. A link is stored under one name whichever end it is given from, different links under different names, and the
  name is read back as the two ends of the link.\<close>

theorem link_members_round_trip:
  "canonical a b = canonical b a \<and> (parse_member (canonical a b) = Inr (a, b) \<or> parse_member (canonical a b) = Inr (b, a)) \<and>
   (canonical a b = canonical c d \<longleftrightarrow> {a, b} = {c, d})"
proof -
  have sym: "canonical x y = canonical y x" for x y
  proof (cases "zaddr x \<le> zaddr y \<and> zaddr y \<le> zaddr x")
    case True
    then have "zaddr x = zaddr y" by (elim conjE) (rule order_antisym)
    then show ?thesis unfolding zaddr_inj by simp
  next
    case False
    then consider "zaddr x \<le> zaddr y" "\<not> zaddr y \<le> zaddr x" | "\<not> zaddr x \<le> zaddr y" "zaddr y \<le> zaddr x"
      using linear [of "zaddr x" "zaddr y"] by blast
    then show ?thesis unfolding canonical_def Let_def by cases (simp_all only: if_True if_False)
  qed
  have rt: "parse_member (canonical x y) = Inr (x, y) \<or> parse_member (canonical x y) = Inr (y, x)" for x y
    unfolding canonical_def Let_def
    by (cases "zaddr x \<le> zaddr y") (simp_all only: if_True if_False append_Cons append_Nil parse_member_pair simp_thms)
  define ends where "ends m = (case parse_member m of Inr (x, y) \<Rightarrow> {x, y} | Inl _ \<Rightarrow> {})" for m
  have "ends (canonical x y) = {x, y}" for x y
    using rt [of x y] by (elim disjE) (simp_all only: ends_def sum.case prod.case insert_commute)
  then have "{a, b} = {c, d}" if "canonical a b = canonical c d" using that by metis
  moreover have "canonical a b = canonical c d" if "{a, b} = {c, d}"
    using that sym unfolding doubleton_eq_iff by blast
  ultimately have "canonical a b = canonical c d \<longleftrightarrow> {a, b} = {c, d}" by blast
  with sym rt show ?thesis by blast
qed

end
