(* ===== verification/Store_Records.thy ===== *)
theory Store_Records
  imports Repositories
begin

text \<open>
  What the repositories of actors and nodes rely on: the contract of the hash and set operations of the database, as a
  locale with its interpretation on the in-memory database. Nothing of these repositories expires, so the contract is
  about stores none of whose entries has expired at the instant of the call. Also the rules that carry the contract
  through the actions of the repositories.
\<close>

subsection \<open>The contract\<close>

definition hash_of :: "db_value option \<Rightarrow> (string \<rightharpoonup> string) option" where
  "hash_of v = (case v of None \<Rightarrow> Some Map.empty | Some (HashV h) \<Rightarrow> Some h | _ \<Rightarrow> None)"

definition set_of :: "db_value option \<Rightarrow> string set option" where
  "set_of v = (case v of None \<Rightarrow> Some {} | Some (SetV s) \<Rightarrow> Some s | _ \<Rightarrow> None)"

definition hash_put :: "string \<Rightarrow> string \<Rightarrow> string \<Rightarrow> (string \<rightharpoonup> db_value) \<Rightarrow> (string \<rightharpoonup> db_value)" where
  "hash_put k f v m = (case hash_of (m k) of None \<Rightarrow> m | Some h \<Rightarrow> m(k \<mapsto> HashV (h(f \<mapsto> v))))"

definition hash_claim :: "string \<Rightarrow> string \<Rightarrow> string \<Rightarrow> (string \<rightharpoonup> db_value) \<Rightarrow> (string \<rightharpoonup> db_value)" where
  "hash_claim k f v m =
     (case hash_of (m k) of
        None \<Rightarrow> m
      | Some h \<Rightarrow> if h f = None then m(k \<mapsto> HashV (h(f \<mapsto> v))) else m(k \<mapsto> HashV h))"

definition set_put :: "string \<Rightarrow> string \<Rightarrow> (string \<rightharpoonup> db_value) \<Rightarrow> (string \<rightharpoonup> db_value)" where
  "set_put k x m = (case set_of (m k) of None \<Rightarrow> m | Some s \<Rightarrow> m(k \<mapsto> SetV (insert x s)))"

text \<open>A call that returns a value has done its work; one that fails has done it or nothing; none panics.\<close>

definition meets :: "(time \<Rightarrow> 'db \<Rightarrow> bool) \<Rightarrow> ('db \<Rightarrow> string \<rightharpoonup> db_value) \<Rightarrow> time \<Rightarrow> 'db
    \<Rightarrow> 'db \<times> (redis_error, 'a) result \<Rightarrow> (string \<rightharpoonup> db_value) \<Rightarrow> ('a \<Rightarrow> bool) \<Rightarrow> bool" where
  "meets good contents now db out m' P \<longleftrightarrow>
     good now (fst out) \<and>
     (case snd out of
        Inr a \<Rightarrow> P a \<and> contents (fst out) = m'
      | Inl (Err _) \<Rightarrow> contents (fst out) = m' \<or> contents (fst out) = contents db
      | Inl Panic \<Rightarrow> False)"

fun op_key :: "db_op \<Rightarrow> string" where
  "op_key (Del k) = k"
| "op_key (SetBin k v) = k"
| "op_key (SRem k x) = k"
| "op_key (HSet k f x) = k"
| "op_key (HSetMultiple k fvs) = k"
| "op_key (Expire k s) = k"

fun record_op :: "db_op \<Rightarrow> bool" where
  "record_op (Del k) = True"
| "record_op (HSet k f x) = True"
| "record_op (SRem k x) = True"
| "record_op _ = False"

fun record_spec :: "db_op \<Rightarrow> (string \<rightharpoonup> db_value) \<Rightarrow> (string \<rightharpoonup> db_value)" where
  "record_spec (Del k) m = m(k := None)"
| "record_spec (HSet k f x) m = hash_put k f x m"
| "record_spec _ m = m"

fun is_srem :: "db_op \<Rightarrow> bool" where
  "is_srem (SRem k x) = True"
| "is_srem _ = False"

locale db_records =
  fixes conn :: "'db db_connection"
    and good :: "time \<Rightarrow> 'db \<Rightarrow> bool"
    and contents :: "'db \<Rightarrow> string \<rightharpoonup> db_value"
  assumes exists_law: "good now db \<Longrightarrow> meets good contents now db (db_exists conn k now db) (contents db)
      (\<lambda>r. r \<longleftrightarrow> contents db k \<noteq> None)"
    and hget_law: "good now db \<Longrightarrow> meets good contents now db (db_hget conn k f now db) (contents db)
      (\<lambda>r. \<exists>h. hash_of (contents db k) = Some h \<and> r = h f)"
    and hgetall_law: "good now db \<Longrightarrow> meets good contents now db (db_hgetall conn k now db) (contents db)
      (\<lambda>r. hm_wf r \<and> hash_of (contents db k) = Some (map_of r))"
    and smembers_law: "good now db \<Longrightarrow> meets good contents now db (db_smembers conn k now db) (contents db)
      (\<lambda>r. set_of (contents db k) = Some (set r))"
    and sismember_law: "good now db \<Longrightarrow> meets good contents now db (db_sismember conn k x now db) (contents db)
      (\<lambda>r. \<exists>s. set_of (contents db k) = Some s \<and> (r \<longleftrightarrow> x \<in> s))"
    and hset_law: "good now db \<Longrightarrow> meets good contents now db (db_hset conn k f x now db) (hash_put k f x (contents db))
      (\<lambda>_. hash_of (contents db k) \<noteq> None)"
    and hset_nx_law: "good now db \<Longrightarrow> meets good contents now db (db_hset_nx conn k f x now db) (hash_claim k f x (contents db))
      (\<lambda>r. \<exists>h. hash_of (contents db k) = Some h \<and> (r \<longleftrightarrow> h f = None))"
    and sadd_law: "good now db \<Longrightarrow> meets good contents now db (db_sadd conn k x now db) (set_put k x (contents db))
      (\<lambda>_. set_of (contents db k) \<noteq> None)"
    and del_law: "good now db \<Longrightarrow> meets good contents now db (db_del conn k now db) ((contents db)(k := None)) (\<lambda>_. True)"
    and scan_law: "good now db \<Longrightarrow> meets good contents now db (db_scan_match_all conn p now db) (contents db) (\<lambda>_. True)"
    and pipeline_law: "good now db \<Longrightarrow> list_all record_op ops \<Longrightarrow> db_atomic_pipeline conn ops now db = (db', r) \<Longrightarrow>
      good now db' \<and> r \<noteq> Inl Panic \<and> (\<forall>k. k \<notin> op_key ` set ops \<longrightarrow> contents db' k = contents db k) \<and>
      (r = Inr () \<longrightarrow> (\<forall>k. k \<notin> op_key ` set (filter is_srem ops) \<longrightarrow> contents db' k = fold record_spec ops (contents db) k))"

subsection \<open>The in-memory database keeps the contract\<close>

definition fake_good :: "time \<Rightarrow> fake_store \<Rightarrow> bool" where
  "fake_good now db \<longleftrightarrow>
     (\<forall>k e. hm_get (fk_store db) k = Some e \<longrightarrow> now \<le> fe_exp e \<and> (case fe_value e of Hash h \<Rightarrow> hm_wf h | _ \<Rightarrow> True))"

definition fake_records :: "fake_store \<Rightarrow> string \<rightharpoonup> db_value" where
  "fake_records db k = map_option (abs_value \<circ> fe_value) (hm_get (fk_store db) k)"

lemma fake_good_new: "fake_good now fake_new"
  by (simp add: fake_good_def fake_new_def)

lemma fake_good_insert: "fake_good now db \<Longrightarrow> now \<le> fe_exp e \<Longrightarrow> (case fe_value e of Hash h \<Rightarrow> hm_wf h | _ \<Rightarrow> True) \<Longrightarrow>
    fake_good now (fk_insert k e db)"
  by (auto simp: fake_good_def)

lemma fake_good_remove: "fake_good now db \<Longrightarrow> fake_good now (fk_remove k db)"
  by (auto simp: fake_good_def split: if_splits)

lemma fake_records_insert [simp]: "fake_records (fk_insert k e db) = (fake_records db)(k \<mapsto> abs_value (fe_value e))"
  by (auto simp: fake_records_def fun_eq_iff)

lemma fake_records_remove [simp]: "fake_records (fk_remove k db) = (fake_records db)(k := None)"
  by (auto simp: fake_records_def fun_eq_iff)

lemma fake_exists_good: "fake_good now db \<Longrightarrow> fake_exists k now db = (db, Inr (fake_records db k \<noteq> None))"
  by (fastforce simp: fake_exists_def fake_good_def fake_records_def split: option.splits)

lemma fake_read_good: "fake_good now db \<Longrightarrow> fake_read k absent read now db =
    (db, case hm_get (fk_store db) k of None \<Rightarrow> absent | Some e \<Rightarrow> read (fe_value e))"
  by (auto simp: fake_read_def fake_exists_good fake_records_def split: option.splits)

lemma hash_of_fake: "hash_of (fake_records db k) =
    (case hm_get (fk_store db) k of None \<Rightarrow> Some Map.empty | Some e \<Rightarrow> (case fe_value e of Hash h \<Rightarrow> Some (map_of h) | _ \<Rightarrow> None))"
  by (auto simp: hash_of_def fake_records_def split: option.splits fake_db_value.splits)

lemma set_of_fake: "set_of (fake_records db k) =
    (case hm_get (fk_store db) k of None \<Rightarrow> Some {} | Some e \<Rightarrow> (case fe_value e of SetVal s \<Rightarrow> Some (set s) | _ \<Rightarrow> None))"
  by (auto simp: set_of_def fake_records_def split: option.splits fake_db_value.splits)

lemma meets_with_fault:
  assumes "meets fake_good fake_records now db (f db) m' P" "fake_good now db"
  shows "meets fake_good fake_records now db (with_fault mode f db) m' P"
  using assms by (cases mode) (auto simp: meets_def with_fault_def injected_fault_err_def split: prod.splits sum.splits fault.splits)

text \<open>A write in place keeps the expiry of the entry, so the entry stays alive.\<close>

lemma meets_upsert:
  assumes good: "fake_good now db"
    and fresh: "hm_get (fk_store db) k = None \<Longrightarrow> f fresh \<noteq> Inl Panic \<and> (\<exists>v a. f fresh = Inr (v, a))"
    and wf: "\<And>v a u. f u = Inr (v, a) \<Longrightarrow> (case u of Hash h \<Rightarrow> hm_wf h | _ \<Rightarrow> True) \<Longrightarrow> (case v of Hash h \<Rightarrow> hm_wf h | _ \<Rightarrow> True)"
    and fresh_wf: "case fresh of Hash h \<Rightarrow> hm_wf h | _ \<Rightarrow> True"
    and spec: "\<And>v a u. u = (case hm_get (fk_store db) k of None \<Rightarrow> fresh | Some e \<Rightarrow> fe_value e) \<Longrightarrow> f u = Inr (v, a) \<Longrightarrow>
      P a \<and> m' = (fake_records db)(k \<mapsto> abs_value v)"
    and no_panic: "\<And>u. f u \<noteq> Inl Panic"
  shows "meets fake_good fake_records now db (fake_upsert k fresh f now db) m' P"
proof -
  define e where "e = (case hm_get (fk_store db) k of None \<Rightarrow> entry_new now fresh | Some e \<Rightarrow> e)"
  have live: "now \<le> fe_exp e" and ewf: "case fe_value e of Hash h \<Rightarrow> hm_wf h | _ \<Rightarrow> True"
    using good fresh_wf by (auto simp: e_def entry_new_def DAY_def fake_good_def split: option.splits)
  have val: "fe_value e = (case hm_get (fk_store db) k of None \<Rightarrow> fresh | Some e \<Rightarrow> fe_value e)"
    by (auto simp: e_def entry_new_def split: option.splits)
  show ?thesis
  proof (cases "f (fe_value e)")
    case (Inl err)
    then obtain e0 where err: "err = Err e0" using no_panic by (cases err) auto
    from Inl fresh have "hm_get (fk_store db) k = Some e"
      by (auto simp: e_def entry_new_def split: option.splits)
    then have "fake_records (fk_insert k e db) = fake_records db" by (auto simp: fake_records_def fun_eq_iff)
    with Inl err show ?thesis
      using fake_good_insert [OF good live ewf, of k] by (simp add: meets_def fake_upsert_def Let_def flip: e_def)
  next
    case (Inr va)
    then obtain v a where va: "f (fe_value e) = Inr (v, a)" by (cases va) auto
    have "fake_good now (fk_insert k (e\<lparr>fe_value := v\<rparr>) (fk_insert k e db))"
      using good live ewf wf [OF va ewf] by (intro fake_good_insert) auto
    with va spec [OF val va] show ?thesis
      by (simp add: meets_def fake_upsert_def Let_def flip: e_def)
  qed
qed

lemma fake_hset_meets: "fake_good now db \<Longrightarrow> meets fake_good fake_records now db (fake_hset_with_lock k f x now db)
    (hash_put k f x (fake_records db)) (\<lambda>_. hash_of (fake_records db k) \<noteq> None)"
  unfolding fake_hset_with_lock_def
  by (rule meets_upsert)
     (auto simp: hash_put_def hash_of_fake hm_wf_insert fun_eq_iff split: fake_db_value.splits option.splits)

lemma fake_hset_nx_meets: "fake_good now db \<Longrightarrow> meets fake_good fake_records now db (fake_hset_nx k f x now db)
    (hash_claim k f x (fake_records db)) (\<lambda>r. \<exists>h. hash_of (fake_records db k) = Some h \<and> (r \<longleftrightarrow> h f = None))"
  unfolding fake_hset_nx_def
  by (rule meets_upsert)
     (auto simp: hash_claim_def hash_of_fake hm_wf_insert fun_eq_iff split: fake_db_value.splits option.splits)

lemma fake_sadd_meets: "fake_good now db \<Longrightarrow> meets fake_good fake_records now db (fake_sadd k x now db)
    (set_put k x (fake_records db)) (\<lambda>_. set_of (fake_records db k) \<noteq> None)"
  unfolding fake_sadd_def
  by (rule meets_upsert)
     (auto simp: set_put_def set_of_fake fun_eq_iff split: fake_db_value.splits option.splits)

lemma record_spec_local: "m k = m' k \<Longrightarrow> record_spec opn m k = record_spec opn m' k"
  by (cases opn) (auto simp: hash_put_def split: option.splits)

lemma record_specs_local: "m k = m' k \<Longrightarrow> fold record_spec ops m k = fold record_spec ops m' k"
proof (induction ops arbitrary: m m')
  case (Cons opn ops)
  show ?case unfolding fold_Cons comp_apply by (intro Cons.IH record_spec_local Cons.prems)
qed simp

lemma fake_run_op_good:
  assumes good: "fake_good now db" and opn: "record_op opn" and out: "fake_run_op opn now db = (db', r)"
  shows "fake_good now db' \<and> r \<noteq> Inl Panic \<and> (\<forall>k. k \<noteq> op_key opn \<longrightarrow> fake_records db' k = fake_records db k) \<and>
    (r = Inr () \<longrightarrow> \<not> is_srem opn \<longrightarrow> fake_records db' = record_spec opn (fake_records db))"
proof (cases opn)
  case (Del k)
  with good out show ?thesis by (auto simp: fake_del_with_lock_def intro: fake_good_remove)
next
  case (HSet k f x)
  have "meets fake_good fake_records now db (db', r) (hash_put k f x (fake_records db)) (\<lambda>_. hash_of (fake_records db k) \<noteq> None)"
    using fake_hset_meets [OF good, of k f x] out HSet by simp
  moreover have "hash_put k f x m k' = m k'" if "k' \<noteq> k" for m k'
    using that by (simp add: hash_put_def split: option.split)
  ultimately show ?thesis using HSet by (auto simp: meets_def split: sum.splits fault.splits)
next
  case (SRem k x)
  show ?thesis
  proof (cases "\<exists>e xs. hm_get (fk_store db) k = Some e \<and> fe_value e = SetVal xs")
    case True
    then obtain e xs where e: "hm_get (fk_store db) k = Some e" "fe_value e = SetVal xs" by blast
    with good have "now \<le> fe_exp e" by (auto simp: fake_good_def)
    moreover from e SRem out good have "db' = fk_insert k (e\<lparr>fe_value := SetVal (removeAll x xs)\<rparr>) db" "r = Inr ()"
      by (simp_all add: fake_srem_with_lock_def fake_exists_good fake_records_def)
    ultimately show ?thesis using SRem good by (simp add: fake_good_insert)
  next
    case False
    with SRem out good have "db' = db \<and> r \<noteq> Inl Panic"
      by (auto simp: fake_srem_with_lock_def fake_exists_good fake_records_def split: option.splits fake_db_value.splits)
    with SRem good show ?thesis by simp
  qed
qed (use opn in auto)

lemma fake_run_ops_good:
  assumes "fake_good now db" "list_all record_op ops" "fake_run_ops ops now db = (db', r)"
  shows "fake_good now db' \<and> r \<noteq> Inl Panic \<and> (\<forall>k. k \<notin> op_key ` set ops \<longrightarrow> fake_records db' k = fake_records db k) \<and>
    (r = Inr () \<longrightarrow> (\<forall>k. k \<notin> op_key ` set (filter is_srem ops) \<longrightarrow>
       fake_records db' k = fold record_spec ops (fake_records db) k))"
  using assms
proof (induction ops arbitrary: db)
  case (Cons opn ops)
  obtain db1 r1 where one: "fake_run_op opn now db = (db1, r1)" by fastforce
  note first = fake_run_op_good [OF Cons.prems(1) _ one]
  show ?case
  proof (cases r1)
    case (Inl e)
    with first Cons.prems one show ?thesis by auto
  next
    case (Inr u)
    with Cons.prems one have rest: "fake_run_ops ops now db1 = (db', r)" by simp
    have "fake_good now db1" using first Cons.prems by simp
    note IH = Cons.IH [OF this _ rest]
    have "fake_records db1 k = record_spec opn (fake_records db) k" if "is_srem opn \<longrightarrow> k \<noteq> op_key opn" for k
      using first Cons.prems that Inr by (cases opn) auto
    then have "fold record_spec ops (fake_records db1) k = fold record_spec (opn # ops) (fake_records db) k"
      if "is_srem opn \<longrightarrow> k \<noteq> op_key opn" for k
      using that record_specs_local [of "fake_records db1" k] by auto
    with IH first Cons.prems show ?thesis by auto
  qed
qed auto

interpretation fake_store: db_records "fake_db regex" fake_good fake_records for regex
proof
  fix now db k f x p db' r and ops :: "db_op list"
  assume good: "fake_good now db"
  show "meets fake_good fake_records now db (db_exists (fake_db regex) k now db) (fake_records db)
      (\<lambda>r. r \<longleftrightarrow> fake_records db k \<noteq> None)"
    by (simp add: fake_db_def fake_exists_good [OF good] meets_def good)
  show "meets fake_good fake_records now db (db_hget (fake_db regex) k f now db) (fake_records db)
      (\<lambda>r. \<exists>h. hash_of (fake_records db k) = Some h \<and> r = h f)"
    by (auto simp: fake_db_def fake_hget_def fake_read_good [OF good] meets_def good hash_of_fake
        split: option.splits fake_db_value.splits)
  show "meets fake_good fake_records now db (db_hgetall (fake_db regex) k now db) (fake_records db)
      (\<lambda>r. hm_wf r \<and> hash_of (fake_records db k) = Some (map_of r))"
    using good by (auto simp: fake_db_def fake_hgetall_def fake_read_good [OF good] meets_def hash_of_fake
        split: option.splits fake_db_value.splits) (fastforce simp: fake_good_def)
  show "meets fake_good fake_records now db (db_smembers (fake_db regex) k now db) (fake_records db)
      (\<lambda>r. set_of (fake_records db k) = Some (set r))"
    by (auto simp: fake_db_def fake_smembers_def fake_read_good [OF good] meets_def good set_of_fake
        split: option.splits fake_db_value.splits)
  show "meets fake_good fake_records now db (db_sismember (fake_db regex) k x now db) (fake_records db)
      (\<lambda>r. \<exists>s. set_of (fake_records db k) = Some s \<and> (r \<longleftrightarrow> x \<in> s))"
    by (auto simp: fake_db_def fake_sismember_def fake_read_good [OF good] meets_def good set_of_fake
        split: option.splits fake_db_value.splits)
  show "meets fake_good fake_records now db (db_hset (fake_db regex) k f x now db) (hash_put k f x (fake_records db))
      (\<lambda>_. hash_of (fake_records db k) \<noteq> None)"
    unfolding fake_db_def fake_hset_def db_connection.simps by (intro meets_with_fault fake_hset_meets good)
  show "meets fake_good fake_records now db (db_hset_nx (fake_db regex) k f x now db) (hash_claim k f x (fake_records db))
      (\<lambda>r. \<exists>h. hash_of (fake_records db k) = Some h \<and> (r \<longleftrightarrow> h f = None))"
    unfolding fake_db_def db_connection.simps by (rule fake_hset_nx_meets [OF good])
  show "meets fake_good fake_records now db (db_sadd (fake_db regex) k x now db) (set_put k x (fake_records db))
      (\<lambda>_. set_of (fake_records db k) \<noteq> None)"
    unfolding fake_db_def db_connection.simps by (rule fake_sadd_meets [OF good])
  show "meets fake_good fake_records now db (db_del (fake_db regex) k now db) ((fake_records db)(k := None)) (\<lambda>_. True)"
    unfolding fake_db_def fake_del_def db_connection.simps
    by (rule meets_with_fault) (simp_all add: meets_def fake_del_with_lock_def good fake_good_remove)
  show "meets fake_good fake_records now db (db_scan_match_all (fake_db regex) p now db) (fake_records db) (\<lambda>_. True)"
    by (auto simp: fake_db_def fake_scan_match_all_def meets_def good split: option.splits)
  show "fake_good now db' \<and> r \<noteq> Inl Panic \<and> (\<forall>k. k \<notin> op_key ` set ops \<longrightarrow> fake_records db' k = fake_records db k) \<and>
      (r = Inr () \<longrightarrow> (\<forall>k. k \<notin> op_key ` set (filter is_srem ops) \<longrightarrow>
         fake_records db' k = fold record_spec ops (fake_records db) k))"
    if "list_all record_op ops" "db_atomic_pipeline (fake_db regex) ops now db = (db', r)"
    using that fake_run_ops_good [OF good that(1)] good
    by (auto simp: fake_db_def fake_atomic_pipeline_def injected_fault_err_def split: if_splits)
qed

end
