(* ===== verification/Hostnames.thy ===== *)
theory Hostnames
  imports Store_Records
begin

text \<open>
  Host names are first come, first served: no operation on one actor takes a name another actor holds, failures
  included, and an actor that has been added or updated holds every valid name it asked for or has it on record as a
  conflict.
\<close>

subsection \<open>The contract, for actions\<close>

locale repositories = db_records "en_conn en" good contents
  for en :: "'db store_env" and good and contents
begin

definition stored :: "((string \<rightharpoonup> db_value) \<Rightarrow> bool) \<Rightarrow> 'db world \<Rightarrow> bool" where
  "stored S w \<longleftrightarrow> good (ck_mono (en_ck en)) (w_db w) \<and> S (contents (w_db w))"

lemma stored_imp: "stored S w \<Longrightarrow> (\<And>m. S m \<Longrightarrow> S' m) \<Longrightarrow> stored S' w"
  by (simp add: stored_def)

lemma triple_on_db:
  assumes "\<And>db. good (ck_mono (en_ck en)) db \<Longrightarrow>
      meets good contents (ck_mono (en_ck en)) db (f (en_conn en) (ck_mono (en_ck en)) db) (g (contents db)) (P (contents db))"
    and "\<And>m a. S m \<Longrightarrow> P m a \<Longrightarrow> Q a (g m)" and "\<And>m. S m \<Longrightarrow> E m" "\<And>m. S m \<Longrightarrow> E (g m)"
  shows "triple (stored S) (on_db en f) (\<lambda>a. stored (Q a)) (stored E)"
  unfolding triple_def
proof (intro allI impI)
  fix w assume "stored S w"
  then have good: "good (ck_mono (en_ck en)) (w_db w)" and S: "S (contents (w_db w))" by (simp_all add: stored_def)
  obtain db' r where out: "f (en_conn en) (ck_mono (en_ck en)) (w_db w) = (db', r)" by fastforce
  from assms(1) [OF good] assms(2-4) S show "outcome (\<lambda>a. stored (Q a)) (stored E) (on_db en f w)"
    by (auto simp: meets_def out on_db_def from_redis_def stored_def split: sum.splits fault.splits)
qed

lemma triple_read:
  assumes "\<And>db. good (ck_mono (en_ck en)) db \<Longrightarrow>
      meets good contents (ck_mono (en_ck en)) db (f (en_conn en) (ck_mono (en_ck en)) db) (contents db) (P (contents db))"
  shows "triple (stored S) (on_db en f) (\<lambda>a. stored (\<lambda>m. S m \<and> P m a)) (stored S)"
  by (rule triple_on_db [where g = "\<lambda>m. m" and P = P]) (use assms in auto)

lemma preserves_write:
  assumes "\<And>db. good (ck_mono (en_ck en)) db \<Longrightarrow>
      meets good contents (ck_mono (en_ck en)) db (f (en_conn en) (ck_mono (en_ck en)) db) (g (contents db)) (P (contents db))"
    and "\<And>m. S m \<Longrightarrow> S (g m)"
  shows "preserves (stored S) (on_db en f)"
  by (rule triple_on_db [where g = g and P = P]) (use assms in auto)

lemma triple_hget: "triple (stored S) (on_db en (\<lambda>c. db_hget c k f))
    (\<lambda>r. stored (\<lambda>m. S m \<and> (\<exists>h. hash_of (m k) = Some h \<and> r = h f))) (stored S)"
  by (rule triple_read) (rule hget_law)

lemma preserves_read:
  "preserves (stored S) (on_db en (\<lambda>c. db_exists c k))"
  "preserves (stored S) (on_db en (\<lambda>c. db_hget c k f))"
  "preserves (stored S) (on_db en (\<lambda>c. db_hgetall c k))"
  "preserves (stored S) (on_db en (\<lambda>c. db_smembers c k))"
  "preserves (stored S) (on_db en (\<lambda>c. db_sismember c k x))"
  "preserves (stored S) (on_db en (\<lambda>c. db_scan_match_all c p))"
  by (rule preserves_write [where g = "\<lambda>m. m"], rule exists_law hget_law hgetall_law smembers_law sismember_law scan_law,
      assumption, assumption)+

lemma preserves_hset: "(\<And>m. S m \<Longrightarrow> S (hash_put k f x m)) \<Longrightarrow> preserves (stored S) (on_db en (\<lambda>c. db_hset c k f x))"
  by (rule preserves_write) (rule hset_law)

lemma preserves_hset_nx: "(\<And>m. S m \<Longrightarrow> S (hash_claim k f x m)) \<Longrightarrow> preserves (stored S) (on_db en (\<lambda>c. db_hset_nx c k f x))"
  by (rule preserves_write) (rule hset_nx_law)

lemma preserves_sadd: "(\<And>m. S m \<Longrightarrow> S (set_put k x m)) \<Longrightarrow> preserves (stored S) (on_db en (\<lambda>c. db_sadd c k x))"
  by (rule preserves_write) (rule sadd_law)

lemma preserves_del: "(\<And>m. S m \<Longrightarrow> S (m(k := None))) \<Longrightarrow> preserves (stored S) (on_db en (\<lambda>c. db_del c k))"
  by (rule preserves_write) (rule del_law)

lemma preserves_count: "preserves (stored S) (count c)"
  by (simp add: triple_def count_def stored_def)

text \<open>What is said about one key is kept by a pipeline over other keys.\<close>

lemma preserves_pipeline:
  assumes "list_all record_op ops" "k \<notin> op_key ` set ops"
  shows "preserves (stored (\<lambda>m. T (m k))) (on_db en (\<lambda>c. db_atomic_pipeline c ops))"
  unfolding triple_def
proof (intro allI impI)
  fix w assume w: "stored (\<lambda>m. T (m k)) w"
  obtain db' r where out: "db_atomic_pipeline (en_conn en) ops (ck_mono (en_ck en)) (w_db w) = (db', r)" by fastforce
  have "good (ck_mono (en_ck en)) (w_db w)" using w by (simp add: stored_def)
  from pipeline_law [OF this assms(1) out] w assms(2)
  show "outcome (\<lambda>_. stored (\<lambda>m. T (m k))) (stored (\<lambda>m. T (m k))) (on_db en (\<lambda>c. db_atomic_pipeline c ops) w)"
    by (cases r rule: sum.exhaust) (auto simp: out on_db_def from_redis_def stored_def split: fault.splits)
qed

end

interpretation fake_repos: repositories "en\<lparr>en_conn := fake_db regex\<rparr>" fake_good fake_records for en regex
  by (simp add: repositories_def fake_store.db_records_axioms)

subsection \<open>Names held by others\<close>

definition owns :: "string \<Rightarrow> string \<Rightarrow> (string \<rightharpoonup> db_value) \<Rightarrow> bool" where
  "owns k b m \<longleftrightarrow> (\<exists>h. m k = Some (HashV h) \<and> h ''zpr_addr'' = Some b)"

lemma host_key_apart [simp]:
  "host_key_for en h \<noteq> actor_key_for a" "host_key_for en h \<noteq> attrs_key_for a" "host_key_for en h \<noteq> service_key_for en s"
  "host_key_for en h \<noteq> actor_services_key_for a" "host_key_for en h \<noteq> actor_hostnames_key_for a"
  "host_key_for en h \<noteq> KEY_NODES" "host_key_for en h \<noteq> KEY_ADAPTERS"
  by (simp_all add: host_key_for_def actor_key_for_def attrs_key_for_def service_key_for_def actor_services_key_for_def
      actor_hostnames_key_for_def KEY_HOST_def KEY_ACTOR_def KEY_SERVICE_def KEY_NODES_def KEY_ADAPTERS_def)

lemma owns_elsewhere:
  "k \<noteq> k' \<Longrightarrow> owns k b (hash_put k' f x m) = owns k b m" "k \<noteq> k' \<Longrightarrow> owns k b (set_put k' x m) = owns k b m"
  "k \<noteq> k' \<Longrightarrow> owns k b (m(k' := v)) = owns k b m" "k \<noteq> k' \<Longrightarrow> owns k b (hash_claim k' f x m) = owns k b m"
  by (auto simp: owns_def hash_put_def set_put_def hash_claim_def split: option.splits)

lemma owns_point: "owns k b (\<lambda>_. m k) = owns k b m"
  by (simp add: owns_def)

lemma owns_claim: "owns k b m \<Longrightarrow> owns k b (hash_claim k' f x m)"
  by (auto simp: owns_def hash_claim_def hash_of_def split: option.splits db_value.splits)

text \<open>A name is free for an address if no other address holds it.\<close>

definition free_for :: "string \<Rightarrow> string \<Rightarrow> (string \<rightharpoonup> db_value) \<Rightarrow> bool" where
  "free_for k a m \<longleftrightarrow> (\<forall>b. owns k b m \<longrightarrow> b = a)"

lemma owns_free: "owns k a m \<Longrightarrow> free_for k b m \<longleftrightarrow> a = b"
  by (auto simp: owns_def free_for_def)

definition names_free :: "'db store_env \<Rightarrow> string \<Rightarrow> (string \<Rightarrow> bool) \<Rightarrow> (string \<rightharpoonup> db_value) \<Rightarrow> bool" where
  "names_free en a F m \<longleftrightarrow> (\<forall>n. free_for (host_key_for en n) a m = F n)"

lemma free_for_claim: "free_for k a (hash_claim k' ''zpr_addr'' a m) = free_for k a m"
proof (cases "k' = k")
  case True
  then show ?thesis
    by (auto simp: free_for_def owns_def hash_claim_def hash_of_def split: option.splits db_value.splits)
qed (simp add: free_for_def owns_elsewhere)

lemma owns_after_claim:
  "hash_of (m k) = Some h \<Longrightarrow> \<exists>b. owns k b (hash_claim k ''zpr_addr'' a m)"
  "hash_of (m k) = Some h \<Longrightarrow> h ''zpr_addr'' = None \<Longrightarrow> owns k a (hash_claim k ''zpr_addr'' a m)"
  by (auto simp: owns_def hash_claim_def)

lemma free_for_release: "owns k' a m \<Longrightarrow> free_for k a (m(k' := None)) = free_for k a m"
  by (cases "k' = k") (auto simp: free_for_def owns_elsewhere owns_def)

lemma names_free_stable:
  "names_free en a F (hash_claim k' ''zpr_addr'' a m) = names_free en a F m"
  "names_free en a F (set_put (actor_hostnames_key_for x) n m) = names_free en a F m"
  "names_free en a F (m(actor_hostnames_key_for x := v)) = names_free en a F m"
  by (simp_all add: names_free_def free_for_claim) (simp_all add: free_for_def owns_elsewhere)

text \<open>The list of conflicts stored with the actor.\<close>

definition conflicts_on_record :: "'db store_env \<Rightarrow> ip_addr \<Rightarrow> string list \<Rightarrow> (string \<rightharpoonup> db_value) \<Rightarrow> bool" where
  "conflicts_on_record en a cs m \<longleftrightarrow>
     (\<exists>h json. m (actor_key_for a) = Some (HashV h) \<and> h ''hostname_conflicts'' = Some json \<and> en_strings_to_json en cs = Some json)"

lemma sort_out_hostnames_sets:
  "sort_out_hostnames pnames vs = (desired, conflicts) \<Longrightarrow>
     set desired = {v \<in> set vs. is_valid_hostname_label v \<and> v \<notin> pnames} \<and>
     set conflicts = {v \<in> set vs. is_valid_hostname_label v \<and> v \<in> pnames}"
proof (induction vs arbitrary: desired conflicts)
  case (Cons v vs)
  obtain ds cs where rest: "sort_out_hostnames pnames vs = (ds, cs)" by fastforce
  consider "\<not> is_valid_hostname_label v" "desired = ds" "conflicts = cs"
    | "is_valid_hostname_label v" "v \<in> pnames" "desired = ds" "conflicts = v # cs"
    | "is_valid_hostname_label v" "v \<notin> pnames" "desired = v # ds" "conflicts = cs"
    using Cons.prems rest by (simp split: if_splits)
  then show ?case using Cons.IH [OF rest] by cases auto
qed simp

context repositories begin

lemmas preserves_db = preserves_read preserves_hset preserves_hset_nx preserves_sadd preserves_del preserves_count

lemma release_host_preserves:
  assumes "b \<noteq> a"
  shows "preserves (stored (owns k b)) (release_owned_host_entries en a names)"
  unfolding release_owned_host_entries_def
proof (rule preserves_for_each)
  fix n
  let ?k = "host_key_for en n"
  have "triple (stored (\<lambda>m. owns k b m \<and> (\<exists>h. hash_of (m ?k) = Some h \<and> r = h ''zpr_addr'')))
      (if r = Some a then on_db en (\<lambda>c. db_del c ?k) else yield ()) (\<lambda>_. stored (owns k b)) (stored (owns k b))" for r
  proof (cases "r = Some a \<and> k \<noteq> ?k")
    case True
    then show ?thesis
      by (simp, intro triple_conseq [OF preserves_del [of "owns k b"]]) (auto simp: owns_elsewhere elim: stored_imp)
  next
    case False
    have "\<not> (owns k b m \<and> (\<exists>h. hash_of (m ?k) = Some h \<and> r = h ''zpr_addr''))" if "r = Some a" for m
      using that False assms by (auto simp: owns_def hash_of_def)
    then show ?thesis by (auto simp: triple_def stored_def yield_def)
  qed
  then show "preserves (stored (owns k b)) (andthen (on_db en (\<lambda>c. db_hget c ?k ''zpr_addr''))
      (\<lambda>owner. if owner = Some a then on_db en (\<lambda>c. db_del c ?k) else yield ()))"
    by (rule triple_andthen [OF triple_hget])
qed

lemma find_surviving_claimant_preserves: "preserves (stored S) (find_surviving_claimant en name excluded)"
  unfolding find_surviving_claimant_def
  by (intro preserves_rules preserves_db) (auto intro!: preserves_rules preserves_db split: option.split)

lemma release_services_preserves:
  "preserves (stored (owns (host_key_for en h) b)) (release_owned_service_entries en a names)"
  unfolding release_owned_service_entries_def
  by (auto intro!: preserves_rules preserves_db find_surviving_claimant_preserves simp: owns_elsewhere split: option.split)

lemma clean_up_preserves:
  assumes "b \<noteq> ip_to_string a"
  shows "preserves (stored (owns (host_key_for en h) b)) (clean_up en a)"
proof -
  let ?ops = "[Del (actor_key_for a), Del (attrs_key_for a), SRem KEY_NODES (ip_to_string a), SRem KEY_ADAPTERS (ip_to_string a)]"
  have "preserves (stored (owns (host_key_for en h) b)) (on_db en (\<lambda>c. db_atomic_pipeline c ?ops))"
    using preserves_pipeline [of ?ops "host_key_for en h" "\<lambda>v. owns (host_key_for en h) b (\<lambda>_. v)"]
    by (simp add: owns_point)
  with assms show ?thesis
    unfolding clean_up_def Let_def
    by (auto intro!: preserves_rules preserves_db release_services_preserves release_host_preserves simp: owns_elsewhere)
qed

lemma claim_hostnames_preserves:
  "preserves (stored (owns (host_key_for en h) b)) (claim_hostnames en a (actor_hostnames_key_for x) names)"
  by (induction names)
     (auto intro!: preserves_rules preserves_db simp: owns_elsewhere owns_claim)

lemma claim_for_actor_preserves:
  assumes "zpr_addr actor = Some a" "b \<noteq> ip_to_string a"
  shows "preserves (stored (owns (host_key_for en h) b)) (claim_hostnames_for_actor en actor pnames)"
  using assms unfolding claim_hostnames_for_actor_def Let_def
  by (auto intro!: preserves_rules preserves_db release_host_preserves claim_hostnames_preserves simp: owns_elsewhere
      split: prod.split)

lemma store_identity_preserves:
  "preserves (stored (owns (host_key_for en h) b)) (store_identity en actor (actor_key_for a) ts)"
  unfolding store_identity_def by (auto intro!: preserves_rules preserves_db simp: owns_elsewhere)

lemma try_add_preserves:
  assumes "zpr_addr actor = Some a" "b \<noteq> ip_to_string a"
  shows "preserves (stored (owns (host_key_for en h) b)) (try_add_actor en actor pnames replace)"
  using assms unfolding try_add_actor_def Let_def
  by (auto intro!: preserves_rules preserves_db clean_up_preserves store_identity_preserves claim_for_actor_preserves
      simp: owns_elsewhere)

lemma add_actor_preserves:
  assumes "zpr_addr actor = Some a" "b \<noteq> ip_to_string a"
  shows "preserves (stored (owns (host_key_for en h) b)) (add_actor_with_mode en actor pnames replace)"
  using assms unfolding add_actor_with_mode_def
  by (auto intro!: preserves_rules try_add_preserves clean_up_preserves split: sum.split store_error.split)

lemma update_pipeline_preserves:
  "preserves (stored (owns (host_key_for en h) b))
     (on_db en (\<lambda>c. db_atomic_pipeline c (Del (attrs_key_for a) # map (\<lambda>at. HSet (attrs_key_for a) (f at) (g at)) ats)))"
  using preserves_pipeline [of "Del (attrs_key_for a) # map (\<lambda>at. HSet (attrs_key_for a) (f at) (g at)) ats"
      "host_key_for en h" "\<lambda>v. owns (host_key_for en h) b (\<lambda>_. v)"]
  by (auto simp: owns_point list_all_iff image_iff)

lemma update_actor_preserves:
  assumes "zpr_addr actor = Some a" "b \<noteq> ip_to_string a"
  shows "preserves (stored (owns (host_key_for en h) b)) (update_actor en actor pnames)"
  using assms unfolding update_actor_def Let_def
  by (auto intro!: preserves_rules preserves_db update_pipeline_preserves store_identity_preserves
      claim_for_actor_preserves [OF assms] release_services_preserves simp: owns_elsewhere split: option.split)

lemma preserves_weaken: "preserves (stored I) m \<Longrightarrow> triple (stored I) m (\<lambda>_. stored I) (stored (\<lambda>_. True))"
  by (erule triple_conseq) (auto elim: stored_imp)

lemma release_names_free:
  "preserves (stored (names_free en a F)) (release_owned_host_entries en a names)"
  unfolding release_owned_host_entries_def
proof (rule preserves_for_each)
  fix n
  let ?k = "host_key_for en n"
  have "triple (stored (\<lambda>m. names_free en a F m \<and> (\<exists>h. hash_of (m ?k) = Some h \<and> r = h ''zpr_addr'')))
      (if r = Some a then on_db en (\<lambda>c. db_del c ?k) else yield ()) (\<lambda>_. stored (names_free en a F)) (stored (names_free en a F))" for r
  proof (cases "r = Some a")
    case True
    have "owns ?k a m" if "hash_of (m ?k) = Some h" "h ''zpr_addr'' = Some a" for m h
      using that by (auto simp: hash_of_def owns_def split: option.splits db_value.splits)
    then have released: "names_free en a F (m(?k := None))"
      if "names_free en a F m" "hash_of (m ?k) = Some h" "h ''zpr_addr'' = Some a" for m h
      using that by (simp add: names_free_def free_for_release)
    have "triple (stored (\<lambda>m. names_free en a F m \<and> (\<exists>h. hash_of (m ?k) = Some h \<and> Some a = h ''zpr_addr'')))
        (on_db en (\<lambda>c. db_del c ?k)) (\<lambda>_. stored (names_free en a F)) (stored (names_free en a F))"
      by (rule triple_on_db, rule del_law, assumption) (metis released)+
    with True show ?thesis by simp
  qed (auto simp: triple_def stored_def yield_def)
  then show "preserves (stored (names_free en a F)) (andthen (on_db en (\<lambda>c. db_hget c ?k ''zpr_addr''))
      (\<lambda>owner. if owner = Some a then on_db en (\<lambda>c. db_del c ?k) else yield ()))"
    by (rule triple_andthen [OF triple_hget])
qed

lemma claim_one:
  "triple (stored (names_free en a F)) (on_db en (\<lambda>c. db_hset_nx c k ''zpr_addr'' a))
     (\<lambda>claimed. stored (\<lambda>m. names_free en a F m \<and> (\<exists>b. owns k b m) \<and> (claimed \<longrightarrow> owns k a m))) (stored (\<lambda>_. True))"
  by (rule triple_on_db, rule hset_nx_law) (auto simp: names_free_stable owns_after_claim)

text \<open>The names lost are those another address holds; the others are held afterwards.\<close>

definition claimed_names :: "string \<Rightarrow> (string \<Rightarrow> bool) \<Rightarrow> string list \<Rightarrow> string list \<Rightarrow> (string \<rightharpoonup> db_value) \<Rightarrow> bool" where
  "claimed_names a F names lost m \<longleftrightarrow> names_free en a F m \<and> set lost = {n \<in> set names. \<not> F n} \<and>
     (\<forall>n \<in> set names. F n \<longrightarrow> owns (host_key_for en n) a m)"

lemma claim_held:
  assumes rest: "triple (stored (names_free en a F)) rest (\<lambda>lost. stored (claimed_names a F names lost)) (stored (\<lambda>_. True))"
    and keep: "preserves (stored (owns (host_key_for en n) a)) rest"
  shows "triple (stored (\<lambda>m. names_free en a F m \<and> owns (host_key_for en n) a m))
    (andthen (on_db en (\<lambda>c. db_sadd c (actor_hostnames_key_for x) n)) (\<lambda>_. rest))
    (\<lambda>lost. stored (claimed_names a F (n # names) lost)) (stored (\<lambda>_. True))"
proof (rule triple_andthen)
  let ?S = "\<lambda>m. names_free en a F m \<and> owns (host_key_for en n) a m"
  show "triple (stored ?S) (on_db en (\<lambda>c. db_sadd c (actor_hostnames_key_for x) n)) (\<lambda>_. stored ?S) (stored (\<lambda>_. True))"
    by (rule triple_conseq [OF preserves_sadd [of ?S]]) (auto simp: owns_elsewhere names_free_stable elim: stored_imp)
  have "F n" if "?S m" for m
    using that owns_free [of "host_key_for en n" a m a] by (auto simp: names_free_def)
  then show "triple (stored ?S) rest (\<lambda>lost. stored (claimed_names a F (n # names) lost)) (stored (\<lambda>_. True))"
    by (intro triple_conseq [OF triple_conj [OF rest keep]])
       (auto simp: stored_def claimed_names_def names_free_def owns_free)
qed

lemma claim_lost:
  assumes rest: "triple (stored (names_free en a F)) rest (\<lambda>lost. stored (claimed_names a F names lost)) (stored (\<lambda>_. True))"
    and "\<not> F n"
  shows "triple (stored (names_free en a F)) (andthen (count HostnameClaimRejected) (\<lambda>_. andthen rest (\<lambda>lost. yield (n # lost))))
    (\<lambda>lost. stored (claimed_names a F (n # names) lost)) (stored (\<lambda>_. True))"
proof (rule triple_andthen)
  show "triple (stored (names_free en a F)) (count HostnameClaimRejected) (\<lambda>_. stored (names_free en a F)) (stored (\<lambda>_. True))"
    by (rule preserves_weaken [OF preserves_count])
  show "triple (stored (names_free en a F)) (andthen rest (\<lambda>lost. yield (n # lost)))
      (\<lambda>lost. stored (claimed_names a F (n # names) lost)) (stored (\<lambda>_. True))"
    by (rule triple_andthen [OF rest], rule triple_yield)
       (use assms(2) in \<open>auto simp: stored_def claimed_names_def\<close>)
qed

lemma claim_hostnames_result:
  "triple (stored (names_free en a F)) (claim_hostnames en a (actor_hostnames_key_for x) names)
     (\<lambda>lost. stored (claimed_names a F names lost)) (stored (\<lambda>_. True))"
proof (induction names)
  case Nil
  show ?case by (simp add: triple_yield claimed_names_def stored_def)
next
  case (Cons n names)
  let ?k = "host_key_for en n" and ?hk = "actor_hostnames_key_for x"
  let ?rest = "claim_hostnames en a ?hk names" and ?Q = "\<lambda>lost. stored (claimed_names a F (n # names) lost)"
  note held = claim_held [OF Cons.IH claim_hostnames_preserves, of n x]
  have owner: "triple (stored (\<lambda>m. (names_free en a F m \<and> (\<exists>b. owns ?k b m)) \<and> (\<exists>h. hash_of (m ?k) = Some h \<and> r = h ''zpr_addr'')))
      (if r = Some a then andthen (on_db en (\<lambda>c. db_sadd c ?hk n)) (\<lambda>_. ?rest)
       else andthen (count HostnameClaimRejected) (\<lambda>_. andthen ?rest (\<lambda>lost. yield (n # lost)))) ?Q (stored (\<lambda>_. True))" for r
  proof (cases "r = Some a")
    case True
    then show ?thesis
      by (simp, intro triple_conseq [OF held]) (auto simp: stored_def owns_def hash_of_def)
  next
    case False
    show ?thesis
    proof (cases "F n")
      case True
      have "b = a" if "names_free en a F m" "owns ?k b m" for m b
        using that True unfolding names_free_def free_for_def by blast
      with False show ?thesis
        by (auto simp: triple_def stored_def owns_def hash_of_def split: option.splits)
    next
      case notF: False
      with False show ?thesis by (simp, intro triple_conseq [OF claim_lost [OF Cons.IH notF]]) (auto simp: stored_def)
    qed
  qed
  show ?case unfolding claim_hostnames.simps
  proof (rule triple_andthen [OF claim_one])
    fix claimed
    have ask: "triple (stored (\<lambda>m. names_free en a F m \<and> (\<exists>b. owns ?k b m))) (andthen (on_db en (\<lambda>c. db_hget c ?k ''zpr_addr'')) (\<lambda>owner.
           if owner = Some a then andthen (on_db en (\<lambda>c. db_sadd c ?hk n)) (\<lambda>_. ?rest)
           else andthen (count HostnameClaimRejected) (\<lambda>_. andthen ?rest (\<lambda>lost. yield (n # lost))))) ?Q (stored (\<lambda>_. True))"
      by (rule triple_andthen [OF _ owner], rule triple_conseq [OF triple_hget [of "\<lambda>m. names_free en a F m \<and> (\<exists>b. owns ?k b m)"]])
         (auto simp: stored_def)
    show "triple (stored (\<lambda>m. names_free en a F m \<and> (\<exists>b. owns ?k b m) \<and> (claimed \<longrightarrow> owns ?k a m)))
        (if claimed then andthen (on_db en (\<lambda>c. db_sadd c ?hk n)) (\<lambda>_. ?rest)
         else andthen (on_db en (\<lambda>c. db_hget c ?k ''zpr_addr'')) (\<lambda>owner.
           if owner = Some a then andthen (on_db en (\<lambda>c. db_sadd c ?hk n)) (\<lambda>_. ?rest)
           else andthen (count HostnameClaimRejected) (\<lambda>_. andthen ?rest (\<lambda>lost. yield (n # lost))))) ?Q (stored (\<lambda>_. True))"
    proof (cases claimed)
      case True
      then show ?thesis by (simp, intro triple_conseq [OF held]) (auto simp: stored_def)
    next
      case False
      then show ?thesis using ask by simp
    qed
  qed
qed

lemma claim_for_actor_result:
  assumes "zpr_addr actor = Some a" "get_attribute actor ATTR_DEVICE_HOSTNAME = Some at"
  shows "triple (stored (names_free en (ip_to_string a) F)) (claim_hostnames_for_actor en actor pnames)
    (\<lambda>_. stored (\<lambda>m.
       (\<exists>cs. conflicts_on_record en a cs m \<and>
          set cs = {v \<in> set (at_value at). is_valid_hostname_label v \<and> (v \<in> pnames \<or> \<not> F v)}) \<and>
       (\<forall>v \<in> set (at_value at). is_valid_hostname_label v \<and> v \<notin> pnames \<and> F v \<longrightarrow>
          owns (host_key_for en v) (ip_to_string a) m)))
    (stored (\<lambda>_. True))" (is "triple (stored ?I) _ (\<lambda>_. stored ?Q) _")
proof -
  obtain desired conflicts where sorted: "sort_out_hostnames pnames (at_value at) = (desired, conflicts)" by fastforce
  note sets = sort_out_hostnames_sets [OF sorted]
  let ?C = "claimed_names (ip_to_string a) F desired"
  have settle: "triple (stored (?C lost)) (on_db en (\<lambda>c. db_hset c (actor_key_for a) ''hostname_conflicts'' json))
      (\<lambda>_. stored ?Q) (stored (\<lambda>_. True))"
    if json: "en_strings_to_json en (conflicts @ lost) = Some json" for lost json
  proof (rule triple_on_db, rule hset_law, assumption)
    fix m and u :: unit
    assume held: "?C lost m" and hash: "hash_of (m (actor_key_for a)) \<noteq> None"
    let ?m = "hash_put (actor_key_for a) ''hostname_conflicts'' json m"
    have "conflicts_on_record en a (conflicts @ lost) ?m"
      using hash json by (auto simp: conflicts_on_record_def hash_put_def)
    moreover have "set (conflicts @ lost) = {v \<in> set (at_value at). is_valid_hostname_label v \<and> (v \<in> pnames \<or> \<not> F v)}"
      using held sets by (auto simp: claimed_names_def)
    moreover have "\<forall>v \<in> set (at_value at). is_valid_hostname_label v \<and> v \<notin> pnames \<and> F v \<longrightarrow>
        owns (host_key_for en v) (ip_to_string a) ?m"
      using held sets by (auto simp: claimed_names_def owns_elsewhere)
    ultimately show "?Q ?m" by blast
  qed simp_all
  have last: "triple (stored (?C lost)) (andthen (from_option StSerialization (en_strings_to_json en (conflicts @ lost)))
        (\<lambda>json. on_db en (\<lambda>c. db_hset c (actor_key_for a) ''hostname_conflicts'' json))) (\<lambda>_. stored ?Q) (stored (\<lambda>_. True))" for lost
  proof (cases "en_strings_to_json en (conflicts @ lost)")
    case None
    then show ?thesis by (auto simp: from_option_def triple_def andthen_def throw_def stored_def)
  next
    case (Some json)
    then show ?thesis using settle [OF Some] by (simp add: from_option_def triple_def andthen_def yield_def)
  qed
  show ?thesis
    unfolding claim_hostnames_for_actor_def Let_def assms option.case sorted prod.case
    by (intro triple_andthen [OF preserves_weaken [OF preserves_for_each [OF preserves_count]]]
        triple_andthen [OF preserves_weaken [OF preserves_read(4)]] triple_andthen [OF preserves_weaken [OF release_names_free]]
        triple_andthen [OF preserves_weaken [OF preserves_del]] triple_andthen [OF claim_hostnames_result] last)
      (simp add: names_free_stable)
qed

end

text \<open>C36. No operation on an actor at one address takes a host name that another address holds, whether the operation
  succeeds or fails: the name still belongs to its holder afterwards.\<close>

theorem hostname_stays_with_holder:
  assumes "db_records (en_conn en) good contents" and "good (ck_mono (en_ck en)) (w_db w)"
    and "owns (host_key_for en h) b (contents (w_db w))" and "zpr_addr actor = Some a" and "b \<noteq> ip_to_string a"
    and "opn \<in> {add_actor en actor pnames, add_actor_replacing en actor pnames, update_actor en actor pnames,
      claim_hostnames_for_actor en actor pnames, rm_actor_by_zpr_addr en a}"
  shows "owns (host_key_for en h) b (contents (w_db (fst (opn w)))) \<and> snd (opn w) \<noteq> Inl Panic"
proof -
  have repos: "repositories en good contents" using assms(1) by (simp add: repositories_def)
  have "preserves (repositories.stored en good contents (owns (host_key_for en h) b)) opn"
    using assms(4-6) by (auto simp: add_actor_def add_actor_replacing_def rm_actor_by_zpr_addr_def
        intro!: repositories.add_actor_preserves [OF repos] repositories.update_actor_preserves [OF repos]
          repositories.claim_for_actor_preserves [OF repos] repositories.clean_up_preserves [OF repos])
  moreover have "repositories.stored en good contents (owns (host_key_for en h) b) w"
    using assms(2,3) by (simp add: repositories.stored_def [OF repos])
  ultimately have "outcome (\<lambda>_. repositories.stored en good contents (owns (host_key_for en h) b))
      (repositories.stored en good contents (owns (host_key_for en h) b)) (opn w)"
    by (simp add: triple_def)
  then show ?thesis by (cases rule: outcome_cases) (auto simp: repositories.stored_def [OF repos])
qed

text \<open>C37. A pass over the host names of an actor that succeeds settles each valid name the actor asks for. The names on the
  actor's list of conflicts are then exactly those a policy service has and those another address held before the pass;
  every other one is held by the actor.\<close>

theorem hostname_claims_are_settled:
  assumes "db_records (en_conn en) good contents" and "good (ck_mono (en_ck en)) (w_db w)"
    and "\<And>cs json. en_strings_to_json en cs = Some json \<Longrightarrow> en_strings_from_json en json = Some cs"
    and "zpr_addr actor = Some a" and "get_attribute actor ATTR_DEVICE_HOSTNAME = Some at"
    and "claim_hostnames_for_actor en actor pnames w = (w', Inr ())"
  shows "(\<forall>cs. snd (get_hostname_conflicts en a w') = Inr cs \<longrightarrow>
      set cs = {v \<in> set (at_value at). is_valid_hostname_label v \<and>
        (v \<in> pnames \<or> \<not> free_for (host_key_for en v) (ip_to_string a) (contents (w_db w)))}) \<and>
    (\<forall>v \<in> set (at_value at). is_valid_hostname_label v \<and> v \<notin> pnames \<and>
      free_for (host_key_for en v) (ip_to_string a) (contents (w_db w)) \<longrightarrow>
      owns (host_key_for en v) (ip_to_string a) (contents (w_db w')))"
proof -
  have repos: "repositories en good contents" using assms(1) by (simp add: repositories_def)
  note stored_def = repositories.stored_def [OF repos]
  let ?F = "\<lambda>v. free_for (host_key_for en v) (ip_to_string a) (contents (w_db w))"
  have "repositories.stored en good contents (names_free en (ip_to_string a) ?F) w"
    by (simp add: stored_def assms(2) names_free_def)
  from triple_result [OF repositories.claim_for_actor_result [OF repos assms(4,5)] this assms(6)]
  obtain cs where good': "good (ck_mono (en_ck en)) (w_db w')" and cs: "conflicts_on_record en a cs (contents (w_db w'))"
    and exact: "set cs = {v \<in> set (at_value at). is_valid_hostname_label v \<and> (v \<in> pnames \<or> \<not> ?F v)}"
    and held: "\<forall>v \<in> set (at_value at). is_valid_hostname_label v \<and> v \<notin> pnames \<and> ?F v \<longrightarrow>
      owns (host_key_for en v) (ip_to_string a) (contents (w_db w'))"
    by (auto simp: stored_def)
  obtain db r where out: "db_hget (en_conn en) (actor_key_for a) ''hostname_conflicts'' (ck_mono (en_ck en)) (w_db w') = (db, r)"
    by fastforce
  have "\<forall>cs'. snd (get_hostname_conflicts en a w') = Inr cs' \<longrightarrow> cs' = cs"
    using db_records.hget_law [OF assms(1) good', of "actor_key_for a" "''hostname_conflicts''"] cs out assms(3)
    by (cases r) (auto simp: conflicts_on_record_def meets_def hash_of_def get_hostname_conflicts_def andthen_def on_db_def
        from_redis_def yield_def split: fault.splits)
  with exact held show ?thesis by blast
qed

subsection \<open>A concrete store\<close>

text \<open>One actor holds the name, another asks for it.\<close>

definition h_env :: "fake_store store_env" where
  "h_env = \<lparr>en_conn = fake_db (\<lambda>_. Some (\<lambda>_. True)), en_ck = \<lparr>ck_wall = 0, ck_mono = 0\<rparr>, en_timestamp = (\<lambda>_. ''now''),
     en_key_encode = (\<lambda>s. s), en_key_decode = Some, en_attr_to_json = (\<lambda>_. Some ''attribute''), en_attr_from_json = (\<lambda>_. None),
     en_strings_to_json = (\<lambda>cs. if cs = [] then Some ''none'' else if cs = [''web''] then Some ''web'' else None),
     en_strings_from_json = (\<lambda>s. if s = ''none'' then Some [] else if s = ''web'' then Some [''web''] else None),
     en_base64_decode = Some, en_rfc3339 = (\<lambda>_. ''now''), en_parse_rfc3339 = (\<lambda>_. None),
     en_node_to_json = (\<lambda>_. None), en_socket_to_json = (\<lambda>_. None), en_socket_from_json = (\<lambda>_. None)\<rparr>"

definition h_attr :: attribute where
  "h_attr = attribute_new ATTR_DEVICE_HOSTNAME [''web''] 0 ''test''"

definition h_actor :: actor where
  "h_actor = \<lparr>attrs = [(ATTR_DEVICE_HOSTNAME, h_attr)], identity_keys = [], zpr_addr = Some (V4 2)\<rparr>"

definition h_world :: "fake_store world" where
  "h_world = \<lparr>w_db = fk_insert (host_key_for h_env ''web'') (entry_new 0 (Hash [(''zpr_addr'', ip_to_string (V4 1))])) fake_new,
     w_counters = counters_default\<rparr>"

lemma h_env_records: "db_records (en_conn h_env) fake_good fake_records"
  by (simp add: h_env_def fake_store.db_records_axioms)

lemma h_world_good: "fake_good (ck_mono (en_ck h_env)) (w_db h_world)"
  by (simp add: h_world_def h_env_def fake_good_insert fake_good_new entry_new_def DAY_def)

theorem hostname_stays_with_holder_witness:
  "snd (add_actor h_env h_actor {} h_world) = Inr () \<and>
   owns (host_key_for h_env ''web'') (ip_to_string (V4 1)) (fake_records (w_db (fst (add_actor h_env h_actor {} h_world))))"
proof -
  have held: "owns (host_key_for h_env ''web'') (ip_to_string (V4 1)) (fake_records (w_db h_world))"
    by (simp add: h_world_def owns_def entry_new_def del: ip_to_string.simps)
  have addr: "zpr_addr h_actor = Some (V4 2)" by (simp add: h_actor_def)
  have apart: "ip_to_string (V4 1) \<noteq> ip_to_string (V4 2)" by code_simp
  have "snd (add_actor h_env h_actor {} h_world) = Inr ()" by code_simp
  with hostname_stays_with_holder [OF h_env_records h_world_good held addr apart insertI1, of "{}"] show ?thesis by blast
qed

theorem hostname_claims_are_settled_witness:
  "\<exists>w'. claim_hostnames_for_actor h_env h_actor {} h_world = (w', Inr ()) \<and>
     (\<forall>cs. snd (get_hostname_conflicts h_env (V4 2) w') = Inr cs \<longrightarrow> set cs = {''web''})"
proof -
  define w' where "w' = fst (claim_hostnames_for_actor h_env h_actor {} h_world)"
  have "snd (claim_hostnames_for_actor h_env h_actor {} h_world) = Inr ()" by code_simp
  then have out: "claim_hostnames_for_actor h_env h_actor {} h_world = (w', Inr ())" by (simp add: w'_def prod_eq_iff)
  have json: "en_strings_from_json h_env json = Some cs" if "en_strings_to_json h_env cs = Some json" for cs json
    using that by (auto simp: h_env_def split: if_splits)
  have valid: "is_valid_hostname_label ''web''" by code_simp
  have "owns (host_key_for h_env ''web'') (ip_to_string (V4 1)) (fake_records (w_db h_world))"
    by (simp add: h_world_def owns_def entry_new_def del: ip_to_string.simps)
  moreover have "ip_to_string (V4 1) \<noteq> ip_to_string (V4 2)" by code_simp
  ultimately have taken: "\<not> free_for (host_key_for h_env ''web'') (ip_to_string (V4 2)) (fake_records (w_db h_world))"
    by (simp add: owns_free del: ip_to_string.simps)
  have at: "zpr_addr h_actor = Some (V4 2)" "get_attribute h_actor ATTR_DEVICE_HOSTNAME = Some h_attr" "at_value h_attr = [''web'']"
    by (simp_all add: h_actor_def get_attribute_def h_attr_def attribute_new_def)
  from hostname_claims_are_settled [OF h_env_records h_world_good json at(1,2) out, THEN conjunct1] out valid taken at(3)
  show ?thesis by (auto simp del: ip_to_string.simps)
qed

end
