(* ===== verification/Link_Paths.thy ===== *)
theory Link_Paths
  imports Prelude
begin

text \<open>
  Paths in an undirected graph whose links have names and costs, kept apart from any representation of
  it. A graph is its hop function: \<open>hop u l\<close> is the node that the link \<open>l\<close> leads to from \<open>u\<close>, if it has an
  end there. A path is a list of links; following it from a node gives the node it ends at.

  The locale \<open>link_graph\<close> is what the routing components rely on: a link can be taken in both directions.
  Its lemmas are the path theory that the shortest-path and the all-paths theories share.
\<close>

fun follow :: "('v \<Rightarrow> 'l \<Rightarrow> 'v option) \<Rightarrow> 'v \<Rightarrow> 'l list \<Rightarrow> 'v option" where
  "follow hop u [] = Some u"
| "follow hop u (l # p) = (case hop u l of None \<Rightarrow> None | Some v \<Rightarrow> follow hop v p)"

text \<open>The nodes a path visits, the starting node first.\<close>

fun visits :: "('v \<Rightarrow> 'l \<Rightarrow> 'v option) \<Rightarrow> 'v \<Rightarrow> 'l list \<Rightarrow> 'v list" where
  "visits hop u [] = [u]"
| "visits hop u (l # p) = u # (case hop u l of None \<Rightarrow> [] | Some v \<Rightarrow> visits hop v p)"

definition path_cost :: "('l \<Rightarrow> nat) \<Rightarrow> 'l list \<Rightarrow> nat" where
  "path_cost weight p = sum_list (map weight p)"

text \<open>A simple path visits no node twice; a cheapest path costs no more than any other with the same ends.\<close>

definition simple_path :: "('v \<Rightarrow> 'l \<Rightarrow> 'v option) \<Rightarrow> 'v \<Rightarrow> 'l list \<Rightarrow> 'v \<Rightarrow> bool" where
  "simple_path hop u p v \<longleftrightarrow> follow hop u p = Some v \<and> distinct (visits hop u p)"

definition cheapest :: "('v \<Rightarrow> 'l \<Rightarrow> 'v option) \<Rightarrow> ('l \<Rightarrow> nat) \<Rightarrow> 'v \<Rightarrow> 'l list \<Rightarrow> 'v \<Rightarrow> bool" where
  "cheapest hop weight u p v \<longleftrightarrow> follow hop u p = Some v \<and>
     (\<forall>q. follow hop u q = Some v \<longrightarrow> path_cost weight p \<le> path_cost weight q)"

subsection \<open>Following a path\<close>

lemma path_cost_simps [simp]:
  "path_cost w [] = 0"
  "path_cost w (l # p) = w l + path_cost w p"
  "path_cost w (p @ q) = path_cost w p + path_cost w q"
  "path_cost w (rev p) = path_cost w p"
  by (simp_all add: path_cost_def rev_map [symmetric])

lemma follow_Cons_iff: "follow hop u (l # p) = Some v \<longleftrightarrow> (\<exists>x. hop u l = Some x \<and> follow hop x p = Some v)"
  by (auto split: option.splits)

lemma follow_append_iff:
  "follow hop u (p @ q) = Some v \<longleftrightarrow> (\<exists>x. follow hop u p = Some x \<and> follow hop x q = Some v)"
  by (induction p arbitrary: u) (auto split: option.splits)

lemma follow_snoc_iff:
  "follow hop u (p @ [l]) = Some v \<longleftrightarrow> (\<exists>x. follow hop u p = Some x \<and> hop x l = Some v)"
  by (auto simp: follow_append_iff split: option.splits)

lemma visits_nonempty [simp]: "visits hop u p \<noteq> []"
  by (cases p) auto

lemma start_visited [simp]: "u \<in> set (visits hop u p)"
  by (cases p) auto

lemma hd_visits [simp]: "hd (visits hop u p) = u"
  by (cases p) auto

lemma last_visits: "follow hop u p = Some v \<Longrightarrow> last (visits hop u p) = v"
  by (induction p arbitrary: u) (auto split: option.splits)

lemma end_visited: "follow hop u p = Some v \<Longrightarrow> v \<in> set (visits hop u p)"
  by (metis last_in_set last_visits visits_nonempty)

lemma length_visits: "follow hop u p = Some v \<Longrightarrow> length (visits hop u p) = Suc (length p)"
  by (induction p arbitrary: u) (auto split: option.splits)

lemma visits_hop:
  "follow hop u p = Some v \<Longrightarrow> i < length p \<Longrightarrow> hop (visits hop u p ! i) (p ! i) = Some (visits hop u p ! Suc i)"
proof (induction p arbitrary: u i)
  case (Cons l p)
  then obtain x where x: "hop u l = Some x" "follow hop x p = Some v" by (auto split: option.splits)
  obtain vs where "visits hop x p = x # vs" by (cases p) auto
  with x Cons show ?case by (cases i) fastforce+
qed simp

lemma visits_append:
  "follow hop u p = Some x \<Longrightarrow> visits hop u (p @ q) = butlast (visits hop u p) @ visits hop x q"
  by (induction p arbitrary: u) (auto split: option.splits)

lemma visits_snoc:
  assumes "follow hop u p = Some x" "hop x l = Some v"
  shows "visits hop u (p @ [l]) = visits hop u p @ [v]"
proof -
  have "visits hop u (p @ [l]) = butlast (visits hop u p) @ [last (visits hop u p)] @ [v]"
    using assms by (simp add: visits_append last_visits)
  then show ?thesis by (simp only: append_assoc [symmetric]) simp
qed

text \<open>Two hop functions that agree on the links of a path give the same path.\<close>

lemma follow_cong:
  assumes "\<And>l x. l \<in> set p \<Longrightarrow> hop' x l = hop x l"
  shows "follow hop' u p = follow hop u p" and "visits hop' u p = visits hop u p"
  using assms by (induction p arbitrary: u) (auto split: option.splits)

lemma simple_path_cong:
  assumes "\<And>l x. l \<in> set p \<Longrightarrow> hop' x l = hop x l"
  shows "simple_path hop' u p v \<longleftrightarrow> simple_path hop u p v"
  using follow_cong [of p hop' hop u] assms by (simp add: simple_path_def)

lemma simple_path_Nil_iff [simp]: "simple_path hop u [] v \<longleftrightarrow> v = u"
  by (auto simp: simple_path_def)

lemma simple_path_ends_distinct: "simple_path hop u p v \<Longrightarrow> p \<noteq> [] \<Longrightarrow> u \<noteq> v"
  by (cases p) (auto simp: simple_path_def split: option.splits dest: end_visited)

subsection \<open>The interface of an undirected graph\<close>

locale link_graph =
  fixes hop :: "'v \<Rightarrow> 'l \<Rightarrow> 'v option" and weight :: "'l \<Rightarrow> nat"
  assumes hop_sym: "hop u l = Some v \<Longrightarrow> hop v l = Some u"
begin

lemma follow_rev: "follow hop u p = Some v \<Longrightarrow> follow hop v (rev p) = Some u"
proof (induction p arbitrary: u)
  case (Cons l p)
  then obtain x where "hop u l = Some x" "follow hop x p = Some v" by (auto split: option.splits)
  then have "follow hop v (rev p) = Some x" "hop x l = Some u" using Cons.IH hop_sym by blast+
  then show ?case by (simp add: follow_snoc_iff)
qed simp

lemma cheapest_rev: "cheapest hop weight u p v \<Longrightarrow> cheapest hop weight v (rev p) u"
  unfolding cheapest_def using follow_rev path_cost_simps(4) by (metis rev_rev_ident)

lemma visits_rev: "follow hop u p = Some v \<Longrightarrow> visits hop v (rev p) = rev (visits hop u p)"
proof (induction p arbitrary: u)
  case (Cons l p)
  then obtain x where x: "hop u l = Some x" "follow hop x p = Some v" by (auto split: option.splits)
  then show ?case using Cons.IH visits_snoc [OF follow_rev [OF x(2)] hop_sym [OF x(1)]] by simp
qed simp

lemma simple_path_rev: "simple_path hop u p v \<Longrightarrow> simple_path hop v (rev p) u"
  by (auto simp: simple_path_def follow_rev visits_rev)

text \<open>Labels that no hop can improve bound the cost of every path: what is left to show of a shortest-path
  algorithm once its queue is empty.\<close>

lemma relaxed_labels_bound:
  assumes "D u = Some (d::nat)"
    and "\<And>x l y dx. D x = Some dx \<Longrightarrow> hop x l = Some y \<Longrightarrow> \<exists>dy. D y = Some dy \<and> dy \<le> dx + weight l"
    and "follow hop u p = Some v"
  shows "\<exists>dv. D v = Some dv \<and> dv \<le> d + path_cost weight p"
  using assms(1,3)
proof (induction p arbitrary: u d)
  case (Cons l p)
  then obtain x where x: "hop u l = Some x" "follow hop x p = Some v" by (auto split: option.splits)
  then obtain dx where "D x = Some dx" "dx \<le> d + weight l" using assms(2) Cons.prems(1) by blast
  with Cons.IH [OF this(1) x(2)] show ?case by auto
qed simp

end

end
