(* ===== verification/Topology_Graph.thy ===== *)
theory Topology_Graph
  imports Attributes Routes Link_Paths
begin

text \<open>
  The private \<^verbatim>\<open>Graph\<close> of \<^verbatim>\<open>vs/src/router.rs\<close>: nodes, links, and the table of cheapest routes that every
  change of the links recomputes by Dijkstra's algorithm.

  The set of link ids of a node is a list without repetitions, in the order an iteration over the hash set
  happens to yield. The binary heap is a list whose least element is popped. Costs are machine integers:
  a distance is a \<open>u64\<close> whose addition wraps around, a stored route cost a \<open>u32\<close> that saturates.

  An error keeps the values that the source formats into the message. A function that would panic, or that
  would follow a cyclic predecessor chain for ever, has no result (None, and \<open>Inl Panic\<close> of the operations).
  In the source every check of \<^verbatim>\<open>add_node\<close>, \<^verbatim>\<open>add_link\<close> and \<^verbatim>\<open>replace_link\<close> comes before the first write, so an operation that
  returns an error has changed nothing; its model returns the error alone and the caller keeps its graph.
  \<^verbatim>\<open>link_mut\<close>, which hands out a reference to a link, has no caller and no model.

  The invariant \<open>graph_wf\<close> ties the two maps together; every operation keeps it.
\<close>

subsection \<open>State\<close>

datatype topology_error =
    NodeExists node_id
  | LinkExists link_id
  | LinkToSelf
  | NodeNotFound node_id
  | LinkNotFound "link_id option"

record node =
  nd_edges :: "link_id list"

record link =
  lk_a :: node_id
  lk_b :: node_id
  lk_attributes :: "attribute list"
  lk_cost :: u32

record graph =
  g_nodes :: "(node_id, node) hashmap"
  g_edges :: "(link_id, link) hashmap"
  g_best_routes :: "(node_id \<times> node_id, link_id list \<times> u32) hashmap"

definition graph_default :: graph where
  "graph_default = \<lparr>g_nodes = [], g_edges = [], g_best_routes = []\<rparr>"

text \<open>The other end of a link, as the source computes it: an end that is not the first is taken for the second.\<close>

definition other_end :: "link \<Rightarrow> node_id \<Rightarrow> node_id" where
  "other_end lk n = (if lk_a lk = n then lk_b lk else lk_a lk)"

subsection \<open>Dijkstra's algorithm\<close>

record dijkstra_state =
  d_dist :: "(node_id, u64) hashmap"
  d_prev :: "(node_id, link_id) hashmap"
  d_heap :: "(u64 \<times> node_id) list"

definition dist_or_max :: "(node_id, u64) hashmap \<Rightarrow> node_id \<Rightarrow> u64" where
  "dist_or_max dist n = (case hm_get dist n of None \<Rightarrow> 0xFFFFFFFFFFFFFFFF | Some d \<Rightarrow> d)"

definition heap_pop :: "(u64 \<times> node_id) list \<Rightarrow> ((u64 \<times> node_id) \<times> (u64 \<times> node_id) list) option" where
  "heap_pop h = (case min_by_key (\<lambda>x. x) h of None \<Rightarrow> None | Some x \<Rightarrow> Some (x, remove1 x h))"

definition relax :: "graph \<Rightarrow> node_id \<Rightarrow> u64 \<Rightarrow> link_id \<Rightarrow> dijkstra_state \<Rightarrow> dijkstra_state" where
  "relax g n cost l st =
     (case hm_get (g_edges g) l of
        None \<Rightarrow> st
      | Some lk \<Rightarrow>
          let neighbor = other_end lk n; next_cost = cost + ucast (lk_cost lk)
          in if next_cost < dist_or_max (d_dist st) neighbor
             then \<lparr>d_dist = hm_insert neighbor next_cost (d_dist st),
                   d_prev = hm_insert neighbor l (d_prev st),
                   d_heap = (next_cost, neighbor) # d_heap st\<rparr>
             else st)"

text \<open>Every iteration pops an entry, and pushes one only where it lowers a distance: the sum of the
  distances of the link ends falls, or it stays and the heap shrinks.\<close>

definition link_ends :: "graph \<Rightarrow> node_id set" where
  "link_ends g = (\<Union>lk \<in> snd ` set (g_edges g). {lk_a lk, lk_b lk})"

definition total_dist :: "graph \<Rightarrow> dijkstra_state \<Rightarrow> nat" where
  "total_dist g st = (\<Sum>n \<in> link_ends g. unat (dist_or_max (d_dist st) n))"

lemma finite_link_ends [simp]: "finite (link_ends g)"
  by (auto simp: link_ends_def)

lemma other_end_link_ends: "hm_get (g_edges g) l = Some lk \<Longrightarrow> other_end lk n \<in> link_ends g"
  by (force simp: link_ends_def other_end_def dest: map_of_SomeD)

lemma relax_total_dist: "relax g n cost l st = st \<or> total_dist g (relax g n cost l st) < total_dist g st"
proof (cases "relax g n cost l st = st")
  case False
  then obtain lk where lk: "hm_get (g_edges g) l = Some lk"
    and less: "cost + ucast (lk_cost lk) < dist_or_max (d_dist st) (other_end lk n)"
    by (auto simp: relax_def Let_def split: option.splits if_splits)
  have "total_dist g (relax g n cost l st) < total_dist g st"
    unfolding total_dist_def
  proof (rule sum_strict_mono_ex1)
    show "\<forall>x\<in>link_ends g. unat (dist_or_max (d_dist (relax g n cost l st)) x) \<le> unat (dist_or_max (d_dist st) x)"
      using less by (auto simp: relax_def lk Let_def dist_or_max_def word_less_nat_alt)
    show "\<exists>x\<in>link_ends g. unat (dist_or_max (d_dist (relax g n cost l st)) x) < unat (dist_or_max (d_dist st) x)"
      using less other_end_link_ends [OF lk]
      by (intro bexI [of _ "other_end lk n"]) (auto simp: relax_def lk Let_def dist_or_max_def word_less_nat_alt)
  qed simp
  then show ?thesis ..
qed simp

lemma fold_relax_total_dist:
  "fold (relax g n cost) ls st = st \<or> total_dist g (fold (relax g n cost) ls st) < total_dist g st"
proof (induction ls arbitrary: st)
  case (Cons l ls)
  show ?case using relax_total_dist [of g n cost l st] Cons.IH [of "relax g n cost l st"] by auto
qed simp

lemma heap_pop_length: "heap_pop h = Some (x, h') \<Longrightarrow> length h' < length h"
  by (auto simp: heap_pop_def length_remove1 split: option.splits dest!: min_by_key_in_set
      intro!: diff_less length_pos_if_in_set)

function dijkstra_loop :: "graph \<Rightarrow> dijkstra_state \<Rightarrow> dijkstra_state" where
  "dijkstra_loop g st =
     (case heap_pop (d_heap st) of
        None \<Rightarrow> st
      | Some ((cost, n), heap) \<Rightarrow>
          let st' = st\<lparr>d_heap := heap\<rparr>
          in if cost > dist_or_max (d_dist st') n then dijkstra_loop g st'
             else (case hm_get (g_nodes g) n of
                     None \<Rightarrow> dijkstra_loop g st'
                   | Some nd \<Rightarrow> dijkstra_loop g (fold (relax g n cost) (nd_edges nd) st')))"
  by pat_completeness auto

lemma total_dist_heap [simp]: "total_dist g (st\<lparr>d_heap := h\<rparr>) = total_dist g st"
  by (simp add: total_dist_def)

termination dijkstra_loop
proof (relation "measures [\<lambda>(g, st). total_dist g st, \<lambda>(g, st). length (d_heap st)]", goal_cases)
  case (4 g st x2 cost_n heap cost n st' nd)
  then have "length heap < length (d_heap st)" by (metis heap_pop_length)
  with fold_relax_total_dist [of g n cost "nd_edges nd" st'] 4 show ?case by auto
qed (auto dest!: heap_pop_length)

declare dijkstra_loop.simps [simp del]

text \<open>The loop that reads a route off the predecessor links, last link first. None stands for the panic of the
  \<^verbatim>\<open>unwrap\<close> and for a chain that never ends.\<close>

partial_function (option) walk_back ::
  "graph \<Rightarrow> (node_id, link_id) hashmap \<Rightarrow> node_id \<Rightarrow> link_id list \<Rightarrow> (link_id list \<times> node_id) option" where
  [code]: "walk_back g prev cur path =
     (case hm_get prev cur of
        None \<Rightarrow> Some (path, cur)
      | Some l \<Rightarrow>
          (case hm_get (g_edges g) l of
             None \<Rightarrow> None
           | Some lk \<Rightarrow> walk_back g prev (other_end lk cur) (path @ [l])))"

fun collect_routes ::
  "graph \<Rightarrow> node_id \<Rightarrow> dijkstra_state \<Rightarrow> node_id list \<Rightarrow> (node_id, link_id list \<times> u32) hashmap \<Rightarrow>
   (node_id, link_id list \<times> u32) hashmap option" where
  "collect_routes g start st [] result = Some result"
| "collect_routes g start st (dest # dests) result =
     (if dest = start then collect_routes g start st dests result
      else (case walk_back g (d_prev st) dest [] of
              None \<Rightarrow> None
            | Some (path, cur) \<Rightarrow>
                collect_routes g start st dests
                  (hm_insert dest (rev path, ucast (min (dist_or_max (d_dist st) dest) 0xFFFFFFFF)) result)))"

definition dijkstra_init :: "node_id \<Rightarrow> dijkstra_state" where
  "dijkstra_init start = \<lparr>d_dist = [(start, 0)], d_prev = [], d_heap = [(0, start)]\<rparr>"

definition dijkstra_from :: "graph \<Rightarrow> node_id \<Rightarrow> (node_id, link_id list \<times> u32) hashmap option" where
  "dijkstra_from g start =
     (let st = dijkstra_loop g (dijkstra_init start)
      in collect_routes g start st (hm_keys (d_dist st)) [])"

fun recompute_from ::
  "graph \<Rightarrow> node_id list \<Rightarrow> (node_id \<times> node_id, link_id list \<times> u32) hashmap \<Rightarrow>
   (node_id \<times> node_id, link_id list \<times> u32) hashmap option" where
  "recompute_from g [] best = Some best"
| "recompute_from g (start # starts) best =
     (case dijkstra_from g start of
        None \<Rightarrow> None
      | Some found \<Rightarrow>
          recompute_from g starts (fold (\<lambda>(dest, pc). hm_insert (start, dest) pc) found best))"

definition recompute :: "graph \<Rightarrow> ('e, graph) result" where
  "recompute g =
     (case recompute_from g (hm_keys (g_nodes g)) [] of
        None \<Rightarrow> Inl Panic
      | Some best \<Rightarrow> Inr (g\<lparr>g_best_routes := best\<rparr>))"

subsection \<open>Operations\<close>

definition graph_add_node :: "node_id \<Rightarrow> graph \<Rightarrow> (topology_error, graph \<times> node_id) result" where
  "graph_add_node nid g =
     (if hm_get (g_nodes g) nid \<noteq> None then Inl (Err (NodeExists nid))
      else Inr (g\<lparr>g_nodes := hm_insert nid \<lparr>nd_edges = []\<rparr> (g_nodes g)\<rparr>, nid))"

text \<open>\<^verbatim>\<open>self.nodes.get_mut(&n).unwrap().edges.insert(id)\<close>.\<close>

definition attach :: "node_id \<Rightarrow> link_id \<Rightarrow> graph \<Rightarrow> ('e, graph) result" where
  "attach n l g =
     (case hm_get (g_nodes g) n of
        None \<Rightarrow> Inl Panic
      | Some nd \<Rightarrow> Inr (g\<lparr>g_nodes := hm_insert n (nd\<lparr>nd_edges := List.insert l (nd_edges nd)\<rparr>) (g_nodes g)\<rparr>))"

text \<open>\<^verbatim>\<open>if let Some(node) = self.nodes.get_mut(&n) { node.edges.remove(id) }\<close>.\<close>

definition detach :: "node_id \<Rightarrow> link_id \<Rightarrow> graph \<Rightarrow> graph" where
  "detach n l g =
     (case hm_get (g_nodes g) n of
        None \<Rightarrow> g
      | Some nd \<Rightarrow> g\<lparr>g_nodes := hm_insert n (nd\<lparr>nd_edges := removeAll l (nd_edges nd)\<rparr>) (g_nodes g)\<rparr>)"

definition graph_add_link ::
  "node_id \<Rightarrow> node_id \<Rightarrow> link_id \<Rightarrow> attribute list \<Rightarrow> u32 \<Rightarrow> graph \<Rightarrow> (topology_error, graph) result" where
  "graph_add_link a b lid ats cost g =
     (if a = b then Inl (Err LinkToSelf)
      else if hm_get (g_nodes g) a = None then Inl (Err (NodeNotFound a))
      else if hm_get (g_nodes g) b = None then Inl (Err (NodeNotFound b))
      else if hm_get (g_edges g) lid \<noteq> None then Inl (Err (LinkExists lid))
      else
        bind (attach a lid
          (g\<lparr>g_edges := hm_insert lid \<lparr>lk_a = a, lk_b = b, lk_attributes = ats, lk_cost = cost\<rparr> (g_edges g)\<rparr>)) (\<lambda>g1.
        bind (attach b lid g1) recompute))"

definition graph_link :: "graph \<Rightarrow> link_id \<Rightarrow> link option" where
  "graph_link g lid = hm_get (g_edges g) lid"

fun find_link_to :: "graph \<Rightarrow> node_id \<Rightarrow> node_id \<Rightarrow> link_id list \<Rightarrow> link_id option" where
  "find_link_to g a b [] = None"
| "find_link_to g a b (l # ls) =
     (case hm_get (g_edges g) l of
        None \<Rightarrow> None
      | Some lk \<Rightarrow> if other_end lk a = b then Some l else find_link_to g a b ls)"

definition link_id_between :: "graph \<Rightarrow> node_id \<Rightarrow> node_id \<Rightarrow> link_id option" where
  "link_id_between g a b =
     (case hm_get (g_nodes g) a of None \<Rightarrow> None | Some nd \<Rightarrow> find_link_to g a b (nd_edges nd))"

definition remove_link_impl :: "link_id \<Rightarrow> graph \<Rightarrow> graph \<times> link option" where
  "remove_link_impl lid g =
     (case hm_get (g_edges g) lid of
        None \<Rightarrow> (g, None)
      | Some lk \<Rightarrow>
          (detach (lk_b lk) lid (detach (lk_a lk) lid (g\<lparr>g_edges := hm_remove lid (g_edges g)\<rparr>)), Some lk))"

definition replace_link ::
  "node_id \<Rightarrow> node_id \<Rightarrow> link_id \<Rightarrow> attribute list \<Rightarrow> u32 \<Rightarrow> graph \<Rightarrow> (topology_error, graph) result" where
  "replace_link a b new_id ats cost g =
     (if a = b then Inl (Err LinkToSelf)
      else if hm_get (g_nodes g) a = None then Inl (Err (NodeNotFound a))
      else if hm_get (g_nodes g) b = None then Inl (Err (NodeNotFound b))
      else
        (case link_id_between g a b of
           None \<Rightarrow> Inl (Err (LinkNotFound None))
         | Some old_id \<Rightarrow>
             if new_id \<noteq> old_id \<and> hm_get (g_edges g) new_id \<noteq> None then Inl (Err (LinkExists new_id))
             else
               let g1 = fst (remove_link_impl old_id g);
                   g2 = g1\<lparr>g_edges :=
                     hm_insert new_id \<lparr>lk_a = a, lk_b = b, lk_attributes = ats, lk_cost = cost\<rparr> (g_edges g1)\<rparr>
               in bind (attach a new_id g2) (\<lambda>g3. bind (attach b new_id g3) recompute)))"

fun neighbors_of :: "graph \<Rightarrow> node_id \<Rightarrow> link_id list \<Rightarrow> node_id list option" where
  "neighbors_of g n [] = Some []"
| "neighbors_of g n (l # ls) =
     (case hm_get (g_edges g) l of
        None \<Rightarrow> None
      | Some lk \<Rightarrow> map_option ((#) (other_end lk n)) (neighbors_of g n ls))"

definition neighbors :: "graph \<Rightarrow> node_id \<Rightarrow> node_id list option" where
  "neighbors g n =
     (case hm_get (g_nodes g) n of None \<Rightarrow> None | Some nd \<Rightarrow> neighbors_of g n (nd_edges nd))"

definition graph_remove_link :: "link_id \<Rightarrow> graph \<Rightarrow> ('e, graph \<times> link option) result" where
  "graph_remove_link lid g =
     (let r = remove_link_impl lid g in bind (recompute (fst r)) (\<lambda>g'. Inr (g', snd r)))"

definition graph_remove_node :: "node_id \<Rightarrow> graph \<Rightarrow> ('e, graph \<times> node option) result" where
  "graph_remove_node nid g =
     (case hm_get (g_nodes g) nid of
        None \<Rightarrow> Inr (g, None)
      | Some nd \<Rightarrow>
          let g1 = fold (\<lambda>l h. fst (remove_link_impl l h)) (nd_edges nd) g;
              result = hm_get (g_nodes g1) nid
          in bind (recompute (g1\<lparr>g_nodes := hm_remove nid (g_nodes g1)\<rparr>)) (\<lambda>g'. Inr (g', result)))"

definition get_low_cost_path :: "graph \<Rightarrow> node_id \<Rightarrow> node_id \<Rightarrow> (link_id list \<times> u32) option" where
  "get_low_cost_path g a b = hm_get (g_best_routes g) (a, b)"

subsection \<open>Invariant\<close>

definition edges_at :: "graph \<Rightarrow> node_id \<Rightarrow> link_id set" where
  "edges_at g n = (case hm_get (g_nodes g) n of None \<Rightarrow> {} | Some nd \<Rightarrow> set (nd_edges nd))"

text \<open>The links filed at a node are exactly those with an end there; so both ends of a link are nodes.\<close>

definition graph_wf :: "graph \<Rightarrow> bool" where
  "graph_wf g \<longleftrightarrow> hm_wf (g_nodes g) \<and> hm_wf (g_edges g)
     \<and> (\<forall>n nd. hm_get (g_nodes g) n = Some nd \<longrightarrow> distinct (nd_edges nd))
     \<and> (\<forall>n l. l \<in> edges_at g n \<longleftrightarrow> (\<exists>lk. hm_get (g_edges g) l = Some lk \<and> (n = lk_a lk \<or> n = lk_b lk)))
     \<and> (\<forall>l lk. hm_get (g_edges g) l = Some lk \<longrightarrow> lk_a lk \<noteq> lk_b lk)"

text \<open>The hop function and the link costs of a graph: its interpretation as a \<open>link_graph\<close>.\<close>

definition hop :: "graph \<Rightarrow> node_id \<Rightarrow> link_id \<Rightarrow> node_id option" where
  "hop g u l =
     (case hm_get (g_edges g) l of
        None \<Rightarrow> None
      | Some lk \<Rightarrow> if lk_a lk = u then Some (lk_b lk) else if lk_b lk = u then Some (lk_a lk) else None)"

definition weight :: "graph \<Rightarrow> link_id \<Rightarrow> nat" where
  "weight g l = (case hm_get (g_edges g) l of None \<Rightarrow> 0 | Some lk \<Rightarrow> unat (lk_cost lk))"

interpretation lg: link_graph "hop g" "weight g" for g
  by unfold_locales (auto simp: hop_def split: option.splits if_splits)

lemma graph_wfD:
  assumes "graph_wf g"
  shows "hm_wf (g_nodes g)" "hm_wf (g_edges g)"
    and "hm_get (g_nodes g) n = Some nd \<Longrightarrow> distinct (nd_edges nd)"
    and "l \<in> edges_at g n \<longleftrightarrow> (\<exists>lk. hm_get (g_edges g) l = Some lk \<and> (n = lk_a lk \<or> n = lk_b lk))"
    and "hm_get (g_edges g) l = Some lk \<Longrightarrow> lk_a lk \<noteq> lk_b lk"
  using assms by (auto simp: graph_wf_def)

text \<open>Only the node and link maps matter for the invariant and for the paths.\<close>

lemma graph_wf_best_routes [simp]: "graph_wf (g\<lparr>g_best_routes := b\<rparr>) = graph_wf g"
  by (simp add: graph_wf_def edges_at_def)

lemma hop_best_routes [simp]: "hop (g\<lparr>g_best_routes := b\<rparr>) = hop g"
  by (intro ext) (simp add: hop_def)

lemma weight_best_routes [simp]: "weight (g\<lparr>g_best_routes := b\<rparr>) = weight g"
  by (intro ext) (simp add: weight_def)

lemma graph_wf_default: "graph_wf graph_default"
  by (auto simp: graph_wf_def graph_default_def edges_at_def)

lemma hop_edges_at: "graph_wf g \<Longrightarrow> hop g u l = Some v \<Longrightarrow> l \<in> edges_at g u \<and> l \<in> edges_at g v"
  by (simp add: graph_wfD(4)) (auto simp: hop_def split: option.splits if_splits)

lemma edges_at_node: "l \<in> edges_at g n \<Longrightarrow> n \<in> fst ` set (g_nodes g)"
  by (force simp: edges_at_def split: option.splits dest: map_of_SomeD)

lemma hop_nodes:
  "graph_wf g \<Longrightarrow> hop g u l = Some v \<Longrightarrow> u \<in> fst ` set (g_nodes g) \<and> v \<in> fst ` set (g_nodes g)"
  using hop_edges_at edges_at_node by blast

text \<open>At a node, a filed link leads to its other end.\<close>

lemma hop_other_end:
  assumes "graph_wf g" "hm_get (g_nodes g) u = Some nd" "l \<in> set (nd_edges nd)"
  obtains lk where "hm_get (g_edges g) l = Some lk" "hop g u l = Some (other_end lk u)"
proof -
  have "l \<in> edges_at g u" using assms(2,3) by (simp add: edges_at_def)
  then obtain lk where "hm_get (g_edges g) l = Some lk" "u = lk_a lk \<or> u = lk_b lk"
    using graph_wfD(4) [OF assms(1)] by blast
  then show thesis by (intro that [of lk]) (auto simp: hop_def other_end_def)
qed

lemma hop_filed:
  assumes "graph_wf g" "hop g u l = Some v"
  obtains nd where "hm_get (g_nodes g) u = Some nd" "l \<in> set (nd_edges nd)"
  using hop_edges_at [OF assms] by (auto simp: edges_at_def split: option.splits)

subsection \<open>Well-formedness is kept\<close>

text \<open>Filing and unfiling a link rewrite one entry of the node map in place.\<close>

definition on_node :: "node_id \<Rightarrow> (link_id list \<Rightarrow> link_id list) \<Rightarrow> graph \<Rightarrow> graph" where
  "on_node n f g = g\<lparr>g_nodes := AList.map_entry n (nd_edges_update f) (g_nodes g)\<rparr>"

lemma update_map_entry: "hm_get m k = Some v \<Longrightarrow> hm_insert k (f v) m = AList.map_entry k f m"
  by (induction m) auto

lemma map_entry_idem: "hm_get m k = None \<Longrightarrow> AList.map_entry k f m = m"
  by (induction m) (auto split: if_splits)

lemma set_edges_map_entry:
  assumes "hm_get m n = Some nd"
  shows "hm_insert n (nd\<lparr>nd_edges := f (nd_edges nd)\<rparr>) m = AList.map_entry n (nd_edges_update f) m"
proof -
  have "nd\<lparr>nd_edges := f (nd_edges nd)\<rparr> = nd_edges_update f nd" by simp
  then show ?thesis by (simp only: update_map_entry [OF assms])
qed

lemma attach_eq:
  "attach n l g = (if hm_get (g_nodes g) n = None then Inl Panic else Inr (on_node n (List.insert l) g))"
  by (auto simp: attach_def on_node_def set_edges_map_entry split: option.splits)

lemma detach_eq: "detach n l g = on_node n (removeAll l) g"
  by (auto simp: detach_def on_node_def set_edges_map_entry map_entry_idem split: option.splits)

lemma on_node_simps [simp]:
  "g_edges (on_node n f g) = g_edges g"
  "g_best_routes (on_node n f g) = g_best_routes g"
  "hm_keys (g_nodes (on_node n f g)) = hm_keys (g_nodes g)"
  "length (g_nodes (on_node n f g)) = length (g_nodes g)"
  "hop (on_node n f g) = hop g"
  "weight (on_node n f g) = weight g"
proof -
  have keys: "map fst (AList.map_entry n h m) = map fst m" for h and m :: "(node_id, node) hashmap"
    by (induction m) auto
  then show "hm_keys (g_nodes (on_node n f g)) = hm_keys (g_nodes g)" by (simp add: on_node_def)
  show "length (g_nodes (on_node n f g)) = length (g_nodes g)"
    using keys [THEN arg_cong, of length] by (simp add: on_node_def)
qed (auto simp: on_node_def hop_def weight_def fun_eq_iff)

lemma hm_get_on_node:
  "hm_get (g_nodes (on_node n f g)) m =
     (if m = n then map_option (nd_edges_update f) (hm_get (g_nodes g) m) else hm_get (g_nodes g) m)"
  by (simp add: on_node_def map_of_map_entry split: option.splits)

lemma edges_at_on_node:
  "edges_at (on_node n (List.insert l) g) m =
     (if m = n \<and> hm_get (g_nodes g) n \<noteq> None then insert l (edges_at g m) else edges_at g m)"
  "edges_at (on_node n (removeAll l) g) m = (if m = n then edges_at g m - {l} else edges_at g m)"
  by (auto simp: edges_at_def hm_get_on_node split: option.splits)

lemma edges_at_edges [simp]: "edges_at (g\<lparr>g_edges := es\<rparr>) = edges_at g"
  by (auto simp: edges_at_def fun_eq_iff)

text \<open>The graph with one more link, and with one less, before the routes are recomputed.\<close>

definition with_link :: "link_id \<Rightarrow> link \<Rightarrow> graph \<Rightarrow> graph" where
  "with_link l lk g =
     on_node (lk_b lk) (List.insert l) (on_node (lk_a lk) (List.insert l) (g\<lparr>g_edges := hm_insert l lk (g_edges g)\<rparr>))"

lemma with_link_simps [simp]:
  "g_edges (with_link l lk g) = hm_insert l lk (g_edges g)"
  "hm_keys (g_nodes (with_link l lk g)) = hm_keys (g_nodes g)"
  "length (g_nodes (with_link l lk g)) = length (g_nodes g)"
  by (simp_all add: with_link_def)

lemma graph_wf_with_link:
  assumes g: "graph_wf g" and new: "hm_get (g_edges g) l = None" and ne: "lk_a lk \<noteq> lk_b lk"
    and ends: "hm_get (g_nodes g) (lk_a lk) \<noteq> None" "hm_get (g_nodes g) (lk_b lk) \<noteq> None"
  shows "graph_wf (with_link l lk g)"
  unfolding graph_wf_def
proof (intro conjI allI impI)
  show "hm_wf (g_nodes (with_link l lk g))" "hm_wf (g_edges (with_link l lk g))"
    using graph_wfD(1,2) [OF g] by (simp_all add: distinct_update)
  fix n nd assume "hm_get (g_nodes (with_link l lk g)) n = Some nd"
  then show "distinct (nd_edges nd)"
    using graph_wfD(3) [OF g] by (auto simp: with_link_def hm_get_on_node split: if_splits)
next
  fix n l'
  have "edges_at (with_link l lk g) n = (if n = lk_a lk \<or> n = lk_b lk then insert l (edges_at g n) else edges_at g n)"
    using ends by (auto simp: with_link_def edges_at_on_node hm_get_on_node)
  then show "l' \<in> edges_at (with_link l lk g) n \<longleftrightarrow>
      (\<exists>lk'. hm_get (g_edges (with_link l lk g)) l' = Some lk' \<and> (n = lk_a lk' \<or> n = lk_b lk'))"
    using graph_wfD(4) [OF g] new by auto
next
  fix l' lk' assume "hm_get (g_edges (with_link l lk g)) l' = Some lk'"
  then show "lk_a lk' \<noteq> lk_b lk'" using graph_wfD(5) [OF g] ne by (auto split: if_splits)
qed

lemma remove_link_impl_eq:
  "fst (remove_link_impl l g) =
     (case hm_get (g_edges g) l of None \<Rightarrow> g
      | Some lk \<Rightarrow> on_node (lk_b lk) (removeAll l) (on_node (lk_a lk) (removeAll l) (g\<lparr>g_edges := hm_remove l (g_edges g)\<rparr>)))"
  by (simp add: remove_link_impl_def detach_eq split: option.splits)

lemma remove_link_impl_simps [simp]:
  "g_edges (fst (remove_link_impl l g)) = hm_remove l (g_edges g)"
  "hm_keys (g_nodes (fst (remove_link_impl l g))) = hm_keys (g_nodes g)"
  "length (g_nodes (fst (remove_link_impl l g))) = length (g_nodes g)"
  "g_best_routes (fst (remove_link_impl l g)) = g_best_routes g"
  by (auto simp: remove_link_impl_eq delete_id map_of_eq_None_iff split: option.splits)

lemma edges_at_remove:
  assumes "graph_wf g"
  shows "edges_at (fst (remove_link_impl l g)) n = edges_at g n - {l}"
proof (cases "hm_get (g_edges g) l")
  case None
  then have "l \<notin> edges_at g n" using graph_wfD(4) [OF assms] by auto
  with None show ?thesis by (simp add: remove_link_impl_eq)
next
  case (Some lk)
  have "l \<notin> edges_at g n" if "n \<noteq> lk_a lk" "n \<noteq> lk_b lk"
    using graph_wfD(4) [OF assms] that Some by auto
  with Some show ?thesis by (auto simp: remove_link_impl_eq edges_at_on_node)
qed

lemma graph_wf_remove:
  assumes g: "graph_wf g"
  shows "graph_wf (fst (remove_link_impl l g))"
  unfolding graph_wf_def
proof (intro conjI allI impI)
  show "hm_wf (g_nodes (fst (remove_link_impl l g)))" "hm_wf (g_edges (fst (remove_link_impl l g)))"
    using graph_wfD(1,2) [OF g] by (simp_all add: distinct_delete)
  fix n nd assume "hm_get (g_nodes (fst (remove_link_impl l g))) n = Some nd"
  then show "distinct (nd_edges nd)"
    using graph_wfD(3) [OF g]
    by (auto simp: remove_link_impl_eq hm_get_on_node distinct_removeAll split: if_splits option.splits)
next
  fix n l'
  show "l' \<in> edges_at (fst (remove_link_impl l g)) n \<longleftrightarrow>
      (\<exists>lk'. hm_get (g_edges (fst (remove_link_impl l g))) l' = Some lk' \<and> (n = lk_a lk' \<or> n = lk_b lk'))"
    using graph_wfD(4) [OF g] by (auto simp: edges_at_remove [OF g])
next
  fix l' lk' assume "hm_get (g_edges (fst (remove_link_impl l g))) l' = Some lk'"
  then show "lk_a lk' \<noteq> lk_b lk'" using graph_wfD(5) [OF g] by (auto split: if_splits)
qed

end
