(* ===== verification/Shortest_Paths.thy ===== *)
theory Shortest_Paths
  imports Topology_Graph
begin

text \<open>
  Dijkstra's algorithm of \<^verbatim>\<open>vs/src/router.rs\<close> is correct: in a well-formed graph of at most \<open>2^32\<close> nodes the
  \<open>u64\<close> additions do not wrap around, the predecessor chains end at the start node, and the table of best
  routes holds a cheapest path for every pair of connected nodes and nothing else.

  The invariant \<open>dijkstra_inv\<close> speaks of the set \<open>S\<close> of settled nodes and of the set \<open>R\<close> of hops that have
  been relaxed; both are ghosts.
\<close>

subsection \<open>Predecessor chains\<close>

text \<open>\<open>chain g prev S start v p\<close>: the predecessor links lead from \<open>v\<close> back to \<open>start\<close> along the path \<open>p\<close>, through
  settled nodes only and without meeting a node twice.\<close>

inductive chain ::
  "graph \<Rightarrow> (node_id, link_id) hashmap \<Rightarrow> node_id set \<Rightarrow> node_id \<Rightarrow> node_id \<Rightarrow> link_id list \<Rightarrow> bool"
  for g prev S start where
  chain_start: "hm_get prev start = None \<Longrightarrow> chain g prev S start start []"
| chain_hop: "chain g prev S start u p \<Longrightarrow> u \<in> S \<Longrightarrow> hm_get prev v = Some l \<Longrightarrow> hop g u l = Some v
    \<Longrightarrow> v \<notin> set (visits (hop g) start p) \<Longrightarrow> chain g prev S start v (p @ [l])"

lemma chain_follow: "chain g prev S start v p \<Longrightarrow> follow (hop g) start p = Some v"
  by (induction rule: chain.induct) (auto simp: follow_snoc_iff)

lemma chain_simple: "chain g prev S start v p \<Longrightarrow> simple_path (hop g) start p v"
proof (induction rule: chain.induct)
  case (chain_hop u p v l)
  then have "visits (hop g) start (p @ [l]) = visits (hop g) start p @ [v]"
    by (auto simp: simple_path_def intro: visits_snoc)
  with chain_hop show ?case by (auto simp: simple_path_def follow_snoc_iff)
qed simp

lemma chain_visits:
  "chain g prev S start v p \<Longrightarrow> set (visits (hop g) start p) \<subseteq> insert v S"
proof (induction rule: chain.induct)
  case (chain_hop u p v l)
  then show ?case using chain_follow [OF chain_hop.hyps(1)] by (auto simp: visits_snoc)
qed simp

lemma chain_mono: "chain g prev S start v p \<Longrightarrow> S \<subseteq> S' \<Longrightarrow> chain g prev S' start v p"
  by (induction rule: chain.induct) (auto intro: chain.intros)

text \<open>A new predecessor of a node that is not settled disturbs no other chain.\<close>

lemma chain_update:
  "chain g prev S start w p \<Longrightarrow> v \<notin> S \<Longrightarrow> w \<noteq> v \<Longrightarrow> start \<noteq> v \<Longrightarrow>
   chain g (hm_insert v l prev) S start w p"
proof (induction rule: chain.induct)
  case (chain_hop u p w k)
  then have "u \<noteq> v" by auto
  with chain_hop show ?case by (intro chain.chain_hop [of _ _ _ _ u]) auto
qed (auto intro: chain_start)

lemma chain_walk_back:
  assumes "chain g prev S start v p"
  shows "walk_back g prev v path = Some (path @ rev p, start)"
  using assms
proof (induction arbitrary: path rule: chain.induct)
  case chain_start
  then show ?case by (simp add: walk_back.simps)
next
  case (chain_hop u p v l)
  then obtain lk where "hm_get (g_edges g) l = Some lk" "other_end lk v = u"
    by (auto simp: hop_def other_end_def split: option.splits if_splits)
  with chain_hop show ?case by (simp add: walk_back.simps [of g prev v])
qed

lemma path_cost_bound: "path_cost (weight g) p \<le> length p * (2 ^ 32 - 1)"
proof (induction p)
  case (Cons l p)
  have "weight g l < 2 ^ 32" using u32_less by (auto simp: weight_def split: option.splits)
  with Cons show ?case by simp
qed simp

subsection \<open>The invariant of the loop\<close>

text \<open>Every label is the cost of a predecessor chain through settled nodes.\<close>

definition labels_ok :: "graph \<Rightarrow> node_id \<Rightarrow> node_id set \<Rightarrow> dijkstra_state \<Rightarrow> bool" where
  "labels_ok g start S st \<longleftrightarrow>
     hm_wf (d_dist st) \<and> hm_get (d_dist st) start = Some 0 \<and> hm_get (d_prev st) start = None
   \<and> S \<subseteq> fst ` set (d_dist st) \<and> fst ` set (d_dist st) \<subseteq> fst ` set (g_nodes g)
   \<and> (\<forall>v d. hm_get (d_dist st) v = Some d \<longrightarrow>
        (\<exists>p. chain g (d_prev st) S start v p \<and> path_cost (weight g) p = unat d \<and> length p \<le> card S))"

text \<open>A relaxed hop cannot improve a label.\<close>

definition relaxed_ok :: "graph \<Rightarrow> (node_id \<times> link_id) set \<Rightarrow> dijkstra_state \<Rightarrow> bool" where
  "relaxed_ok g R st \<longleftrightarrow>
     (\<forall>u l v du. (u, l) \<in> R \<longrightarrow> hop g u l = Some v \<longrightarrow> hm_get (d_dist st) u = Some du \<longrightarrow>
        (\<exists>dv. hm_get (d_dist st) v = Some dv \<and> unat dv \<le> unat du + weight g l))"

text \<open>The settled nodes are the closest ones; the others wait in the heap.\<close>

definition heap_ok :: "node_id set \<Rightarrow> dijkstra_state \<Rightarrow> bool" where
  "heap_ok S st \<longleftrightarrow>
     (\<forall>u v du dv. u \<in> S \<longrightarrow> v \<notin> S \<longrightarrow> hm_get (d_dist st) u = Some du \<longrightarrow> hm_get (d_dist st) v = Some dv \<longrightarrow> du \<le> dv)
   \<and> (\<forall>v d. hm_get (d_dist st) v = Some d \<longrightarrow> v \<notin> S \<longrightarrow> (d, v) \<in> set (d_heap st))
   \<and> (\<forall>c v. (c, v) \<in> set (d_heap st) \<longrightarrow> (\<exists>d. hm_get (d_dist st) v = Some d \<and> d \<le> c))"

definition dijkstra_inv ::
  "graph \<Rightarrow> node_id \<Rightarrow> node_id set \<Rightarrow> (node_id \<times> link_id) set \<Rightarrow> dijkstra_state \<Rightarrow> bool" where
  "dijkstra_inv g start S R st \<longleftrightarrow> labels_ok g start S st \<and> relaxed_ok g R st \<and> heap_ok S st \<and> fst ` R \<subseteq> S"

lemma labels_okD:
  assumes "labels_ok g start S st"
  shows "hm_wf (d_dist st)" "hm_get (d_dist st) start = Some 0" "hm_get (d_prev st) start = None"
    and "S \<subseteq> fst ` set (d_dist st)" "fst ` set (d_dist st) \<subseteq> fst ` set (g_nodes g)"
    and "hm_get (d_dist st) v = Some d \<Longrightarrow>
        \<exists>p. chain g (d_prev st) S start v p \<and> path_cost (weight g) p = unat d \<and> length p \<le> card S"
  using assms unfolding labels_ok_def by blast+

lemma relaxed_okD:
  "relaxed_ok g R st \<Longrightarrow> (u, l) \<in> R \<Longrightarrow> hop g u l = Some v \<Longrightarrow> hm_get (d_dist st) u = Some du \<Longrightarrow>
     \<exists>dv. hm_get (d_dist st) v = Some dv \<and> unat dv \<le> unat du + weight g l"
  unfolding relaxed_ok_def by blast

lemma heap_okD:
  assumes "heap_ok S st"
  shows "u \<in> S \<Longrightarrow> v \<notin> S \<Longrightarrow> hm_get (d_dist st) u = Some du \<Longrightarrow> hm_get (d_dist st) v = Some dv \<Longrightarrow> du \<le> dv"
    and "hm_get (d_dist st) v = Some d \<Longrightarrow> v \<notin> S \<Longrightarrow> (d, v) \<in> set (d_heap st)"
    and "(c, v) \<in> set (d_heap st) \<Longrightarrow> \<exists>d. hm_get (d_dist st) v = Some d \<and> d \<le> c"
  using assms unfolding heap_ok_def by blast+

lemma dijkstra_inv_R:
  assumes "dijkstra_inv g start S R st" "\<And>u l v. (u, l) \<in> R' \<Longrightarrow> hop g u l = Some v \<Longrightarrow> (u, l) \<in> R"
    and "fst ` R' \<subseteq> S"
  shows "dijkstra_inv g start S R' st"
proof -
  have "relaxed_ok g R' st" using assms(1,2) unfolding dijkstra_inv_def relaxed_ok_def by metis
  with assms(1,3) show ?thesis by (simp add: dijkstra_inv_def)
qed

lemma dijkstra_inv_init:
  assumes "start \<in> fst ` set (g_nodes g)"
  shows "dijkstra_inv g start {} {} (dijkstra_init start)"
  using assms unfolding dijkstra_inv_def
  by (auto simp: labels_ok_def relaxed_ok_def heap_ok_def dijkstra_init_def
      intro!: chain_start exI [of _ "[]"])

text \<open>Settled nodes are few enough for their distances to stay below \<open>2^64\<close>.\<close>

lemma dijkstra_no_wrap:
  assumes "path_cost (weight g) p = unat (cost :: u64)" "length p \<le> k" "k \<le> 2 ^ 32"
    and "hm_get (g_edges g) l = Some lk"
  shows "unat (cost + ucast (lk_cost lk)) = unat cost + weight g l"
proof -
  have "unat cost \<le> 2 ^ 32 * (2 ^ 32 - 1)"
    using path_cost_bound [of g p] assms(1-3) by (metis le_trans mult_le_mono1)
  moreover have "unat (ucast (lk_cost lk) :: u64) = weight g l"
    using assms(4) by (simp add: weight_def u32_to_u64)
  moreover have "weight g l < 2 ^ 32" using u32_less assms(4) by (auto simp: weight_def)
  ultimately show ?thesis using u64_add_no_wrap [of cost "ucast (lk_cost lk)"] by simp
qed

text \<open>The node \<open>u\<close> that is being settled: it is the farthest of the settled nodes, along the chain \<open>p\<close>.\<close>

definition settling ::
  "graph \<Rightarrow> node_id \<Rightarrow> node_id set \<Rightarrow> node_id \<Rightarrow> u64 \<Rightarrow> link_id list \<Rightarrow> dijkstra_state \<Rightarrow> bool" where
  "settling g start S u cost p st \<longleftrightarrow> u \<in> S \<and> hm_get (d_dist st) u = Some cost
     \<and> (\<forall>s ds. s \<in> S \<longrightarrow> hm_get (d_dist st) s = Some ds \<longrightarrow> ds \<le> cost)
     \<and> chain g (d_prev st) S start u p \<and> path_cost (weight g) p = unat cost \<and> length p < card S"

lemma relax_improves:
  assumes inv: "dijkstra_inv g start S R st" and settling: "settling g start S u cost p st"
    and hop: "hop g u l = Some v" and v: "v \<in> fst ` set (g_nodes g)"
    and nc: "unat nc = unat cost + weight g l" and less: "nc < dist_or_max (d_dist st) v"
  shows "dijkstra_inv g start S (insert (u, l) R)
      \<lparr>d_dist = hm_insert v nc (d_dist st), d_prev = hm_insert v l (d_prev st), d_heap = (nc, v) # d_heap st\<rparr>"
    and "v \<notin> S" and "v \<noteq> start"
proof -
  have u: "u \<in> S" "hm_get (d_dist st) u = Some cost"
    and closest: "\<And>s ds. s \<in> S \<Longrightarrow> hm_get (d_dist st) s = Some ds \<Longrightarrow> ds \<le> cost"
    and p: "chain g (d_prev st) S start u p" "path_cost (weight g) p = unat cost" "length p < card S"
    using settling by (auto simp: settling_def)
  note lab = labels_okD [OF inv [unfolded dijkstra_inv_def, THEN conjunct1]]
  note hp = heap_okD [OF inv [unfolded dijkstra_inv_def, THEN conjunct2, THEN conjunct2, THEN conjunct1]]
  have RS: "fst ` R \<subseteq> S" using inv by (simp add: dijkstra_inv_def)
  have cost_nc: "cost \<le> nc" using nc by (simp add: word_le_nat_alt)
  show vS: "v \<notin> S"
  proof
    assume "v \<in> S"
    then have "v \<in> set (hm_keys (d_dist st))" using lab(4) by auto
    then obtain dv where dv: "hm_get (d_dist st) v = Some dv" unfolding hm_key_iff by auto
    have "dv \<le> nc" by (rule order_trans [OF closest [OF \<open>v \<in> S\<close> dv] cost_nc])
    with less dv show False by (simp add: dist_or_max_def)
  qed
  show start: "v \<noteq> start" using less lab(2) by (auto simp: dist_or_max_def)
  let ?st = "\<lparr>d_dist = hm_insert v nc (d_dist st), d_prev = hm_insert v l (d_prev st), d_heap = (nc, v) # d_heap st\<rparr>"
  have lower: "hm_get (d_dist st) v = Some dv \<Longrightarrow> nc < dv" for dv using less by (simp add: dist_or_max_def)
  have chain_v: "chain g (d_prev ?st) S start v (p @ [l])"
  proof (rule chain_hop)
    show "chain g (d_prev ?st) S start u p" using chain_update [OF p(1) vS] u(1) vS start by auto
    show "v \<notin> set (visits (hop g) start p)" using chain_visits [OF p(1)] u(1) vS by auto
  qed (use u(1) hop in auto)
  have "labels_ok g start S ?st"
    unfolding labels_ok_def
  proof (intro conjI allI impI)
    fix w d assume w: "hm_get (d_dist ?st) w = Some d"
    show "\<exists>p. chain g (d_prev ?st) S start w p \<and> path_cost (weight g) p = unat d \<and> length p \<le> card S"
    proof (cases "w = v")
      case True
      then show ?thesis using chain_v w p nc by (intro exI [of _ "p @ [l]"]) simp
    next
      case False
      then have "hm_get (d_dist st) w = Some d" using w by simp
      then obtain q where q: "chain g (d_prev st) S start w q" "path_cost (weight g) q = unat d" "length q \<le> card S"
        using lab(6) by blast
      then show ?thesis using chain_update [OF q(1) vS False] start by auto
    qed
  qed (use lab(1-5) start v in \<open>auto simp: distinct_update\<close>)
  moreover have "relaxed_ok g (insert (u, l) R) ?st"
    unfolding relaxed_ok_def
  proof (intro allI impI)
    fix u' l' v' du' assume *: "(u', l') \<in> insert (u, l) R" "hop g u' l' = Some v'" "hm_get (d_dist ?st) u' = Some du'"
    show "\<exists>dv. hm_get (d_dist ?st) v' = Some dv \<and> unat dv \<le> unat du' + weight g l'"
    proof (cases "(u', l') = (u, l)")
      case True
      then have "v' = v" "du' = cost" using * u hop vS by (auto split: if_splits)
      with True nc show ?thesis by simp
    next
      case False
      then have "(u', l') \<in> R" "u' \<noteq> v" using * RS vS by force+
      then have "hm_get (d_dist st) u' = Some du'" using *(3) by simp
      from relaxed_okD [OF inv [unfolded dijkstra_inv_def, THEN conjunct2, THEN conjunct1]
          \<open>(u', l') \<in> R\<close> *(2) this]
      obtain dv where dv: "hm_get (d_dist st) v' = Some dv" "unat dv \<le> unat du' + weight g l'" by blast
      then show ?thesis
        using lower [of dv] by (cases "v' = v") (auto simp: word_less_nat_alt)
    qed
  qed
  moreover have "heap_ok S ?st"
    unfolding heap_ok_def
  proof (intro conjI allI impI)
    fix s w ds dw
    assume *: "s \<in> S" "w \<notin> S" "hm_get (d_dist ?st) s = Some ds" "hm_get (d_dist ?st) w = Some dw"
    then have s: "hm_get (d_dist st) s = Some ds" using vS by (auto split: if_splits)
    have "ds \<le> nc" by (rule order_trans [OF closest [OF *(1) s] cost_nc])
    with s * show "ds \<le> dw" using hp(1) by (cases "w = v") auto
  next
    fix w d assume "hm_get (d_dist ?st) w = Some d" "w \<notin> S"
    then show "(d, w) \<in> set (d_heap ?st)" using hp(2) by (auto split: if_splits)
  next
    fix c w assume "(c, w) \<in> set (d_heap ?st)"
    then consider "c = nc" "w = v" | d where "hm_get (d_dist st) w = Some d" "d \<le> c" using hp(3) by auto
    then show "\<exists>d. hm_get (d_dist ?st) w = Some d \<and> d \<le> c"
    proof cases
      case (2 d)
      then show ?thesis using lower [of d] by (cases "w = v") auto
    qed simp
  qed
  moreover have "fst ` insert (u, l) R \<subseteq> S" using RS u by simp
  ultimately show "dijkstra_inv g start S (insert (u, l) R) ?st" by (simp add: dijkstra_inv_def)
qed

lemma relax_step:
  assumes inv: "dijkstra_inv g start S R st" and settling: "settling g start S u cost p st"
    and wf: "graph_wf g" and hop: "hop g u l = Some v" and small: "card S \<le> 2 ^ 32"
  shows "dijkstra_inv g start S (insert (u, l) R) (relax g u cost l st)"
    and "settling g start S u cost p (relax g u cost l st)"
proof -
  from hop obtain lk where lk: "hm_get (g_edges g) l = Some lk" and v: "other_end lk u = v"
    by (auto simp: hop_def other_end_def split: option.splits if_splits)
  let ?nc = "cost + ucast (lk_cost lk)"
  have p: "path_cost (weight g) p = unat cost" "length p < card S" using settling by (auto simp: settling_def)
  then have nc: "unat ?nc = unat cost + weight g l" using small lk by (intro dijkstra_no_wrap) auto
  have "unat cost + weight g l \<le> card S * (2 ^ 32 - 1)"
  proof -
    have "unat cost + weight g l = path_cost (weight g) (p @ [l])" using p by simp
    also have "\<dots> \<le> length (p @ [l]) * (2 ^ 32 - 1)" by (rule path_cost_bound)
    also have "\<dots> \<le> card S * (2 ^ 32 - 1)" using p by (intro mult_le_mono1) simp
    finally show ?thesis .
  qed
  then have fits: "?nc < 0xFFFFFFFFFFFFFFFF" using nc small by (simp add: word_less_nat_alt)
  have "dijkstra_inv g start S (insert (u, l) R) (relax g u cost l st) \<and>
    settling g start S u cost p (relax g u cost l st)"
  proof (cases "?nc < dist_or_max (d_dist st) v")
    case True
    let ?st = "\<lparr>d_dist = hm_insert v ?nc (d_dist st), d_prev = hm_insert v l (d_prev st),
      d_heap = (?nc, v) # d_heap st\<rparr>"
    have st: "relax g u cost l st = ?st" using True by (simp add: relax_def lk v Let_def)
    have vn: "v \<in> fst ` set (g_nodes g)" using hop_nodes [OF wf hop] ..
    note imp = relax_improves [OF inv settling hop vn nc True]
    have "settling g start S u cost p ?st"
      using settling imp(2,3) by (auto simp: settling_def intro!: chain_update)
    with imp(1) st show ?thesis by simp
  next
    case False
    then have st: "relax g u cost l st = st" by (simp add: relax_def lk v Let_def)
    from False fits obtain dv where "hm_get (d_dist st) v = Some dv" "dv \<le> ?nc"
      by (cases "hm_get (d_dist st) v") (auto simp: dist_or_max_def)
    then have "relaxed_ok g (insert (u, l) R) st"
      using inv settling hop nc
      by (auto simp: dijkstra_inv_def relaxed_ok_def settling_def word_le_nat_alt)
    with st inv settling show ?thesis by (simp add: dijkstra_inv_def settling_def)
  qed
  then show "dijkstra_inv g start S (insert (u, l) R) (relax g u cost l st)"
    "settling g start S u cost p (relax g u cost l st)" by blast+
qed

lemma fold_relax:
  assumes "dijkstra_inv g start S R st" "settling g start S u cost p st"
    and "graph_wf g" "card S \<le> 2 ^ 32" "\<forall>l \<in> set ls. hop g u l \<noteq> None"
  shows "dijkstra_inv g start S (R \<union> {u} \<times> set ls) (fold (relax g u cost) ls st)"
  using assms
proof (induction ls arbitrary: R st)
  case (Cons l ls)
  then obtain v where "hop g u l = Some v" by auto
  note step = relax_step [OF Cons.prems(1,2,3) this Cons.prems(4)]
  have "dijkstra_inv g start S (insert (u, l) R \<union> {u} \<times> set ls) (fold (relax g u cost) ls (relax g u cost l st))"
    by (rule Cons.IH [OF step Cons.prems(3,4)]) (use Cons.prems(5) in auto)
  moreover have "insert (u, l) R \<union> {u} \<times> set ls = R \<union> {u} \<times> set (l # ls)" by auto
  ultimately show ?case by simp
qed simp

text \<open>Relaxing the hops of a node that is settled already changes nothing.\<close>

lemma relax_settled:
  assumes inv: "dijkstra_inv g start S (S \<times> UNIV) st" and "u \<in> S" "hm_get (d_dist st) u = Some cost"
    and small: "card S \<le> 2 ^ 32" and hop: "hop g u l = Some v"
  shows "relax g u cost l st = st"
proof -
  from hop obtain lk where lk: "hm_get (g_edges g) l = Some lk" and v: "other_end lk u = v"
    by (auto simp: hop_def other_end_def split: option.splits if_splits)
  from labels_okD(6) [OF inv [unfolded dijkstra_inv_def, THEN conjunct1] assms(3)]
  obtain p where "path_cost (weight g) p = unat cost" "length p \<le> card S" by blast
  then have "unat (cost + ucast (lk_cost lk)) = unat cost + weight g l" using small lk by (rule dijkstra_no_wrap)
  moreover obtain dv where "hm_get (d_dist st) v = Some dv" "unat dv \<le> unat cost + weight g l"
    using relaxed_okD [OF inv [unfolded dijkstra_inv_def, THEN conjunct2, THEN conjunct1] _ hop assms(3)] assms(2)
    by blast
  ultimately show ?thesis by (simp add: relax_def lk v Let_def dist_or_max_def word_less_nat_alt)
qed

lemma fold_relax_settled:
  assumes "dijkstra_inv g start S (S \<times> UNIV) st" "u \<in> S" "hm_get (d_dist st) u = Some cost"
    and "card S \<le> 2 ^ 32" "\<forall>l \<in> set ls. hop g u l \<noteq> None"
  shows "fold (relax g u cost) ls st = st"
  using assms by (induction ls) (auto simp: relax_settled)

subsection \<open>The loop\<close>

lemma heap_pop_None_iff: "heap_pop h = None \<longleftrightarrow> h = []"
  by (auto simp: heap_pop_def split: option.splits)

lemma heap_pop_SomeD:
  assumes "heap_pop h = Some ((c, n), h')"
  shows "(c, n) \<in> set h" "set h' \<subseteq> set h" "set h \<subseteq> insert (c, n) (set h')"
    and "(c', v) \<in> set h \<Longrightarrow> c \<le> c'"
proof -
  have min: "min_by_key (\<lambda>x. x) h = Some (c, n)" and h': "h' = remove1 (c, n) h"
    using assms by (auto simp: heap_pop_def split: option.splits)
  show "(c, n) \<in> set h" using min by (rule min_by_key_in_set)
  show "set h' \<subseteq> set h" using h' by (simp add: set_remove1_subset)
  show "set h \<subseteq> insert (c, n) (set h')" 
    using in_set_remove1 [of _ "(c, n)" h] h' by blast
  show "c \<le> c'" if "(c', v) \<in> set h" using min_by_key_le [OF min that] by auto
qed

lemma dijkstra_inv_heap:
  assumes "dijkstra_inv g start S R st" "set h \<subseteq> set (d_heap st)"
    and "\<And>v d. hm_get (d_dist st) v = Some d \<Longrightarrow> v \<notin> S \<Longrightarrow> (d, v) \<in> set h"
  shows "dijkstra_inv g start S R (st\<lparr>d_heap := h\<rparr>)"
proof -
  have "heap_ok S (st\<lparr>d_heap := h\<rparr>)"
    unfolding heap_ok_def
    using heap_okD [OF assms(1) [unfolded dijkstra_inv_def, THEN conjunct2, THEN conjunct2, THEN conjunct1]]
      assms(2,3) by (simp add: subset_iff)
  with assms(1) show ?thesis by (simp add: dijkstra_inv_def labels_ok_def relaxed_ok_def)
qed

lemma dijkstra_settle:
  assumes inv: "dijkstra_inv g start S (S \<times> UNIV) st" and n: "n \<notin> S" "hm_get (d_dist st) n = Some cost"
    and closest: "\<And>v d. hm_get (d_dist st) v = Some d \<Longrightarrow> v \<notin> S \<Longrightarrow> cost \<le> d" and fin: "finite S"
  obtains p where "dijkstra_inv g start (insert n S) (S \<times> UNIV) st" "settling g start (insert n S) n cost p st"
proof -
  note lab = labels_okD [OF inv [unfolded dijkstra_inv_def, THEN conjunct1]]
  note hp = heap_okD [OF inv [unfolded dijkstra_inv_def, THEN conjunct2, THEN conjunct2, THEN conjunct1]]
  have card: "card (insert n S) = Suc (card S)" using n fin by simp
  have grow: "\<exists>q. chain g (d_prev st) (insert n S) start v q \<and> path_cost (weight g) q = unat d \<and> length q \<le> card (insert n S)"
    if d: "hm_get (d_dist st) v = Some d" for v d
  proof -
    from lab(6) [OF d] obtain q where
      "chain g (d_prev st) S start v q" "path_cost (weight g) q = unat d" "length q \<le> card S" by blast
    then show ?thesis
      using card chain_mono [of g "d_prev st" S start v q "insert n S"] by (intro exI [of _ q]) auto
  qed
  have "labels_ok g start (insert n S) st"
    unfolding labels_ok_def
  proof (intro conjI allI impI)
    show "insert n S \<subseteq> fst ` set (d_dist st)" using lab(4) map_of_SomeD [OF n(2)] by force
  qed (use lab(1-3,5) grow in auto)
  moreover have "heap_ok (insert n S) st"
    unfolding heap_ok_def using hp closest n by auto
  ultimately have 1: "dijkstra_inv g start (insert n S) (S \<times> UNIV) st" using inv by (auto simp: dijkstra_inv_def)
  from lab(6) [OF n(2)] obtain p where
    p: "chain g (d_prev st) S start n p" "path_cost (weight g) p = unat cost" "length p \<le> card S" by blast
  have "settling g start (insert n S) n cost p st"
    unfolding settling_def using p chain_mono [OF p(1), of "insert n S"] n card hp(1) by auto
  with 1 show thesis by (rule that)
qed

lemma settled_few:
  assumes "dijkstra_inv g start S R st" "length (g_nodes g) \<le> 2 ^ 32"
  shows "finite S" "card S \<le> 2 ^ 32"
proof -
  note lab = labels_okD [OF assms(1) [unfolded dijkstra_inv_def, THEN conjunct1]]
  have S: "S \<subseteq> fst ` set (g_nodes g)" using lab(4,5) by blast
  then show "finite S" by (rule finite_subset) simp
  have "card S \<le> card (fst ` set (g_nodes g))" using S by (intro card_mono) auto
  also have "\<dots> \<le> length (g_nodes g)" by (metis card_length length_map list.set_map)
  finally show "card S \<le> 2 ^ 32" using assms(2) by simp
qed

lemma dijkstra_process:
  assumes wf: "graph_wf g" and small: "length (g_nodes g) \<le> 2 ^ 32"
    and inv: "dijkstra_inv g start S (S \<times> UNIV) st" and nd: "hm_get (g_nodes g) n = Some nd"
    and n: "hm_get (d_dist st) n = Some cost"
    and closest: "\<And>v d. hm_get (d_dist st) v = Some d \<Longrightarrow> v \<notin> S \<Longrightarrow> cost \<le> d"
    and heap: "set h \<subseteq> set (d_heap st)"
      "\<And>v d. hm_get (d_dist st) v = Some d \<Longrightarrow> v \<notin> insert n S \<Longrightarrow> (d, v) \<in> set h"
  shows "\<exists>T. dijkstra_inv g start T (T \<times> UNIV) (fold (relax g n cost) (nd_edges nd) (st\<lparr>d_heap := h\<rparr>))"
proof -
  have hops: "\<forall>l \<in> set (nd_edges nd). hop g n l \<noteq> None" using hop_other_end [OF wf nd] by blast
  show ?thesis
  proof (cases "n \<in> S")
    case True
    have "dijkstra_inv g start S (S \<times> UNIV) (st\<lparr>d_heap := h\<rparr>)"
      by (rule dijkstra_inv_heap [OF inv heap(1)]) (use heap(2) True in auto)
    moreover from this have "fold (relax g n cost) (nd_edges nd) (st\<lparr>d_heap := h\<rparr>) = st\<lparr>d_heap := h\<rparr>"
      using True n settled_few(2) [OF inv small] hops by (intro fold_relax_settled) auto
    ultimately show ?thesis by auto
  next
    case False
    let ?S = "insert n S"
    obtain p where 1: "dijkstra_inv g start ?S (S \<times> UNIV) st" "settling g start ?S n cost p st"
      by (rule dijkstra_settle [OF inv False n closest settled_few(1) [OF inv small]])
    have 2: "dijkstra_inv g start ?S (S \<times> UNIV) (st\<lparr>d_heap := h\<rparr>)"
      by (rule dijkstra_inv_heap [OF 1(1) heap])
    have "settling g start ?S n cost p (st\<lparr>d_heap := h\<rparr>)" using 1(2) by (simp add: settling_def)
    from fold_relax [OF 2 this wf settled_few(2) [OF 1(1) small] hops]
    have "dijkstra_inv g start ?S (S \<times> UNIV \<union> {n} \<times> set (nd_edges nd))
        (fold (relax g n cost) (nd_edges nd) (st\<lparr>d_heap := h\<rparr>))" .
    then have "dijkstra_inv g start ?S (?S \<times> UNIV) (fold (relax g n cost) (nd_edges nd) (st\<lparr>d_heap := h\<rparr>))"
    proof (rule dijkstra_inv_R)
      fix u l v assume "(u, l) \<in> ?S \<times> UNIV" "hop g u l = Some v"
      then show "(u, l) \<in> S \<times> UNIV \<union> {n} \<times> set (nd_edges nd)" using hop_filed [OF wf] nd by fastforce
    qed auto
    then show ?thesis ..
  qed
qed

lemma dijkstra_loop_inv:
  assumes wf: "graph_wf g" and small: "length (g_nodes g) \<le> 2 ^ 32"
    and inv: "dijkstra_inv g start S (S \<times> UNIV) st"
  shows "\<exists>S'. dijkstra_inv g start S' (S' \<times> UNIV) (dijkstra_loop g st) \<and> d_heap (dijkstra_loop g st) = []"
  using assms
proof (induction g st arbitrary: S rule: dijkstra_loop.induct)
  case (1 g st)
  show ?case
  proof (cases "heap_pop (d_heap st)")
    case None
    then have "dijkstra_loop g st = st" by (simp add: dijkstra_loop.simps [of g st])
    moreover have "d_heap st = []" using None by (simp add: heap_pop_None_iff)
    ultimately show ?thesis using "1.prems"(3) by auto
  next
    case (Some popped)
    obtain cost n heap where popped: "popped = ((cost, n), heap)" by (metis prod.collapse)
    note pop = Some [unfolded popped]
    note loop = dijkstra_loop.simps [of g st, unfolded pop option.case prod.case Let_def]
    let ?st = "st\<lparr>d_heap := heap\<rparr>"
    note inv = "1.prems"(3)
    note lab = labels_okD [OF inv [unfolded dijkstra_inv_def, THEN conjunct1]]
    note hp = heap_okD [OF inv [unfolded dijkstra_inv_def, THEN conjunct2, THEN conjunct2, THEN conjunct1]]
    obtain d where d: "hm_get (d_dist st) n = Some d" "d \<le> cost" using hp(3) [OF heap_pop_SomeD(1) [OF pop]] by blast
    have dom: "(dv, v) \<in> set heap" if "hm_get (d_dist st) v = Some dv" "v \<notin> S" "(dv, v) \<noteq> (cost, n)" for v dv
      using hp(2) [OF that(1,2)] heap_pop_SomeD(3) [OF pop] that(3) by auto
    show ?thesis
    proof (cases "d < cost")
      case True
      then have "dijkstra_loop g st = dijkstra_loop g ?st" using loop d by (simp add: dist_or_max_def)
      moreover have "dijkstra_inv g start S (S \<times> UNIV) ?st"
        by (rule dijkstra_inv_heap [OF inv heap_pop_SomeD(2) [OF pop]]) (rule dom, use d True in auto)
      moreover have "dist_or_max (d_dist ?st) n < cost" using d True by (simp add: dist_or_max_def)
      ultimately show ?thesis using "1.IH"(1) [OF pop refl refl refl _ "1.prems"(1,2)] by simp
    next
      case False
      with d have cost: "d = cost" by simp
      have "n \<in> fst ` set (g_nodes g)" using lab(5) map_of_SomeD [OF d(1)] by force
      then obtain nd where nd: "hm_get (g_nodes g) n = Some nd" unfolding hm_key_get by blast
      let ?st' = "fold (relax g n cost) (nd_edges nd) ?st"
      have loop': "dijkstra_loop g st = dijkstra_loop g ?st'" using loop d cost nd by (simp add: dist_or_max_def)
      have "\<exists>T. dijkstra_inv g start T (T \<times> UNIV) ?st'"
      proof (rule dijkstra_process [OF "1.prems"(1,2) inv nd d(1) [unfolded cost] _ heap_pop_SomeD(2) [OF pop]])
        show "cost \<le> dv" if "hm_get (d_dist st) v = Some dv" "v \<notin> S" for v dv
          using heap_pop_SomeD(4) [OF pop hp(2) [OF that]] .
        show "(dv, v) \<in> set heap" if "hm_get (d_dist st) v = Some dv" "v \<notin> insert n S" for v dv
          using dom that by auto
      qed
      then obtain T where T: "dijkstra_inv g start T (T \<times> UNIV) ?st'" ..
      have "\<not> dist_or_max (d_dist ?st) n < cost" using d cost by (simp add: dist_or_max_def)
      from "1.IH"(3) [OF pop refl refl refl this nd "1.prems"(1,2) T] loop' show ?thesis by simp
    qed
  qed
qed

subsection \<open>The result\<close>

text \<open>A route entry: a cheapest and simple path with its cost, cut off at the largest \<open>u32\<close>.\<close>

definition route_ok :: "graph \<Rightarrow> node_id \<Rightarrow> node_id \<Rightarrow> (link_id list \<times> u32) option \<Rightarrow> bool" where
  "route_ok g a b r \<longleftrightarrow>
     (case r of
        None \<Rightarrow> a = b \<or> (\<forall>p. follow (hop g) a p \<noteq> Some b)
      | Some (p, c) \<Rightarrow> a \<noteq> b \<and> cheapest (hop g) (weight g) a p b \<and> simple_path (hop g) a p b
          \<and> unat c = min (path_cost (weight g) p) (2 ^ 32 - 1))"

lemma dijkstra_labels:
  assumes "graph_wf g" "length (g_nodes g) \<le> 2 ^ 32" "start \<in> fst ` set (g_nodes g)"
  defines "st \<equiv> dijkstra_loop g (dijkstra_init start)"
  shows "hm_wf (d_dist st)"
    and "follow (hop g) start q = Some v \<Longrightarrow> \<exists>d. hm_get (d_dist st) v = Some d \<and> unat d \<le> path_cost (weight g) q"
    and "hm_get (d_dist st) v = Some d \<Longrightarrow> \<exists>p. walk_back g (d_prev st) v [] = Some (rev p, start)
           \<and> simple_path (hop g) start p v \<and> path_cost (weight g) p = unat d"
proof -
  have "\<exists>S. dijkstra_inv g start S (S \<times> UNIV) st \<and> d_heap st = []"
    unfolding st_def by (rule dijkstra_loop_inv [OF assms(1,2), of _ "{}"]) (simp add: dijkstra_inv_init assms(3))
  then obtain S where inv: "dijkstra_inv g start S (S \<times> UNIV) st" and empty: "d_heap st = []" by blast
  note lab = labels_okD [OF inv [unfolded dijkstra_inv_def, THEN conjunct1]]
  note hp = heap_okD [OF inv [unfolded dijkstra_inv_def, THEN conjunct2, THEN conjunct2, THEN conjunct1]]
  show "hm_wf (d_dist st)" by (rule lab(1))
  show "\<exists>p. walk_back g (d_prev st) v [] = Some (rev p, start) \<and> simple_path (hop g) start p v
      \<and> path_cost (weight g) p = unat d" if "hm_get (d_dist st) v = Some d"
    using lab(6) [OF that] chain_walk_back [where path = "[]"] chain_simple by fastforce
  show "\<exists>d. hm_get (d_dist st) v = Some d \<and> unat d \<le> path_cost (weight g) q"
    if q: "follow (hop g) start q = Some v"
  proof -
    have "\<exists>dv. map_option unat (hm_get (d_dist st) v) = Some dv \<and> dv \<le> 0 + path_cost (weight g) q"
    proof (rule lg.relaxed_labels_bound [OF _ _ q])
      show "map_option unat (hm_get (d_dist st) start) = Some 0" using lab(2) by simp
      fix x l y dx assume x: "map_option unat (hm_get (d_dist st) x) = Some dx" and hop: "hop g x l = Some y"
      then obtain du where du: "hm_get (d_dist st) x = Some du" "dx = unat du" by auto
      then have "x \<in> S" using hp(2) empty by fastforce
      then show "\<exists>dy. map_option unat (hm_get (d_dist st) y) = Some dy \<and> dy \<le> dx + weight g l"
        using relaxed_okD [OF inv [unfolded dijkstra_inv_def, THEN conjunct2, THEN conjunct1] _ hop du(1)] du(2) by auto
    qed
    then show ?thesis by auto
  qed
qed

lemma collect_routes_spec:
  assumes "\<And>v. v \<in> set vs \<Longrightarrow> \<exists>p. walk_back g (d_prev st) v [] = Some (rev p, start) \<and> P v p"
  shows "\<exists>res. collect_routes g start st vs acc = Some res \<and>
    (\<forall>v. v \<in> set vs \<longrightarrow> v \<noteq> start \<longrightarrow>
       (\<exists>p. P v p \<and> hm_get res v = Some (p, ucast (min (dist_or_max (d_dist st) v) 0xFFFFFFFF)))) \<and>
    (\<forall>v. v \<notin> set vs \<or> v = start \<longrightarrow> hm_get res v = hm_get acc v)"
  using assms
proof (induction vs arbitrary: acc)
  case (Cons w vs)
  obtain p where p: "walk_back g (d_prev st) w [] = Some (rev p, start)" "P w p"
    using Cons.prems [of w] by auto
  let ?c = "\<lambda>v. ucast (min (dist_or_max (d_dist st) v) 0xFFFFFFFF) :: u32"
  let ?acc = "if w = start then acc else hm_insert w (p, ?c w) acc"
  have "\<exists>p. walk_back g (d_prev st) v [] = Some (rev p, start) \<and> P v p" if "v \<in> set vs" for v
    using Cons.prems [of v] that by simp
  from Cons.IH [OF this, of ?acc] obtain res where res: "collect_routes g start st vs ?acc = Some res"
    and new: "\<And>v. v \<in> set vs \<Longrightarrow> v \<noteq> start \<Longrightarrow> \<exists>p. P v p \<and> hm_get res v = Some (p, ?c v)"
    and old: "\<And>v. v \<notin> set vs \<or> v = start \<Longrightarrow> hm_get res v = hm_get ?acc v" by blast
  have "collect_routes g start st (w # vs) acc = Some res" using res p(1) by (cases "w = start") auto
  moreover have "\<exists>p. P v p \<and> hm_get res v = Some (p, ?c v)" if "v \<in> set (w # vs)" "v \<noteq> start" for v
  proof (cases "v \<in> set vs")
    case False
    then show ?thesis using that old [of v] p(2) by auto
  qed (use new that in blast)
  moreover have "hm_get res v = hm_get acc v" if "v \<notin> set (w # vs) \<or> v = start" for v
    using that old [of v] by (cases "w = start") auto
  ultimately show ?case by blast
qed simp

lemma collect_routes_wf: "collect_routes g start st vs acc = Some res \<Longrightarrow> hm_wf acc \<Longrightarrow> hm_wf res"
  by (induction vs arbitrary: acc) (auto simp: distinct_update split: if_splits option.splits)

lemma dijkstra_from_spec:
  assumes "graph_wf g" "length (g_nodes g) \<le> 2 ^ 32" "start \<in> fst ` set (g_nodes g)"
  shows "\<exists>res. dijkstra_from g start = Some res \<and> hm_wf res \<and> (\<forall>v. route_ok g start v (hm_get res v))"
proof -
  let ?st = "dijkstra_loop g (dijkstra_init start)"
  note lab = dijkstra_labels [OF assms]
  let ?P = "\<lambda>v p. simple_path (hop g) start p v \<and> path_cost (weight g) p = unat (dist_or_max (d_dist ?st) v)"
  have "\<exists>p. walk_back g (d_prev ?st) v [] = Some (rev p, start) \<and> ?P v p" if "v \<in> set (hm_keys (d_dist ?st))" for v
  proof -
    from that obtain d where d: "hm_get (d_dist ?st) v = Some d" unfolding hm_key_iff by blast
    then have "dist_or_max (d_dist ?st) v = d" by (simp add: dist_or_max_def)
    with lab(3) [OF d] show ?thesis by metis
  qed
  from collect_routes_spec [where P = ?P and vs = "hm_keys (d_dist ?st)" and acc = "[]", OF this]
  obtain res where res: "collect_routes g start ?st (hm_keys (d_dist ?st)) [] = Some res"
    and new: "\<And>v. v \<in> set (hm_keys (d_dist ?st)) \<Longrightarrow> v \<noteq> start \<Longrightarrow>
      \<exists>p. ?P v p \<and> hm_get res v = Some (p, ucast (min (dist_or_max (d_dist ?st) v) 0xFFFFFFFF))"
    and old: "\<And>v. v \<notin> set (hm_keys (d_dist ?st)) \<or> v = start \<Longrightarrow> hm_get res v = hm_get [] v"
    by blast
  have "route_ok g start v (hm_get res v)" for v
  proof (cases "v \<in> set (hm_keys (d_dist ?st)) \<and> v \<noteq> start")
    case True
    with new obtain p where p: "?P v p" "hm_get res v = Some (p, ucast (min (dist_or_max (d_dist ?st) v) 0xFFFFFFFF))"
      by blast
    have cheap: "path_cost (weight g) p \<le> path_cost (weight g) q" if "follow (hop g) start q = Some v" for q
      using lab(2) [OF that] p(1) by (auto simp: dist_or_max_def)
    with p cheap True show ?thesis
      by (auto simp: route_ok_def cheapest_def simple_path_def u64_saturate_u32)
  next
    case False
    then have "v = start \<or> (\<forall>q. follow (hop g) start q \<noteq> Some v)" using lab(2) unfolding hm_key_iff by blast
    moreover have "hm_get res v = None" using old [of v] False by auto
    ultimately show ?thesis by (auto simp: route_ok_def)
  qed
  moreover have "dijkstra_from g start = Some res" using res by (simp add: dijkstra_from_def)
  moreover have "hm_wf res" using collect_routes_wf [OF res] by simp
  ultimately show ?thesis by blast
qed

subsection \<open>The table of best routes\<close>

definition routes_ok :: "graph \<Rightarrow> bool" where
  "routes_ok g \<longleftrightarrow> (\<forall>a b. route_ok g a b (get_low_cost_path g a b))"

lemma fold_insert_get:
  "hm_wf found \<Longrightarrow> hm_get (fold (\<lambda>(dest, pc). hm_insert (start, dest) pc) found best) (a, b) =
     (if a = start \<and> hm_get found b \<noteq> None then hm_get found b else hm_get best (a, b))"
proof (induction found arbitrary: best)
  case (Cons e found)
  obtain dest pc where e: "e = (dest, pc)" by (cases e)
  with Cons.prems have "hm_get found dest = None" by (simp add: map_of_eq_None_iff)
  with Cons e show ?case by auto
qed simp

lemma recompute_from_spec:
  assumes "\<And>a. a \<in> set starts \<Longrightarrow> \<exists>res. dijkstra_from g a = Some res \<and> hm_wf res \<and> (\<forall>b. route_ok g a b (hm_get res b))"
    and "\<And>a b. a \<in> set starts \<Longrightarrow> hm_get best (a, b) = None" and "distinct starts"
  shows "\<exists>best'. recompute_from g starts best = Some best'
    \<and> (\<forall>a b. a \<in> set starts \<longrightarrow> route_ok g a b (hm_get best' (a, b)))
    \<and> (\<forall>a b. a \<notin> set starts \<longrightarrow> hm_get best' (a, b) = hm_get best (a, b))"
  using assms
proof (induction starts arbitrary: best)
  case (Cons s starts)
  then obtain res where res: "dijkstra_from g s = Some res" "hm_wf res" "\<forall>b. route_ok g s b (hm_get res b)"
    by (metis list.set_intros(1))
  let ?best = "fold (\<lambda>(dest, pc). hm_insert (s, dest) pc) res best"
  note get = fold_insert_get [OF res(2), of s best]
  have "\<exists>best'. recompute_from g starts ?best = Some best'
    \<and> (\<forall>a b. a \<in> set starts \<longrightarrow> route_ok g a b (hm_get best' (a, b)))
    \<and> (\<forall>a b. a \<notin> set starts \<longrightarrow> hm_get best' (a, b) = hm_get ?best (a, b))"
    by (rule Cons.IH) (use Cons.prems get in auto)
  then obtain best' where best': "recompute_from g starts ?best = Some best'"
    "\<forall>a b. a \<in> set starts \<longrightarrow> route_ok g a b (hm_get best' (a, b))"
    "\<forall>a b. a \<notin> set starts \<longrightarrow> hm_get best' (a, b) = hm_get ?best (a, b)" by blast
  have s: "hm_get best' (s, b) = hm_get res b" for b
    using best'(3) Cons.prems(2,3) get by (cases "hm_get res b") auto
  have "route_ok g a b (hm_get best' (a, b))" if "a \<in> set (s # starts)" for a b
    using that best'(2) res(3) s by auto
  moreover have "hm_get best' (a, b) = hm_get best (a, b)" if "a \<notin> set (s # starts)" for a b
    using that best'(3) get by auto
  moreover have "recompute_from g (s # starts) best = Some best'" using res(1) best'(1) by simp
  ultimately show ?case by blast
qed simp

lemma route_ok_cong: "hop g = hop h \<Longrightarrow> weight g = weight h \<Longrightarrow> route_ok g = route_ok h"
  by (intro ext) (simp add: route_ok_def split: option.splits)

lemma route_ok_best_routes [simp]: "route_ok (g\<lparr>g_best_routes := b\<rparr>) = route_ok g"
  by (rule route_ok_cong) simp_all

lemma unlinked_route: "graph_wf g \<Longrightarrow> a \<notin> fst ` set (g_nodes g) \<Longrightarrow> route_ok g a b None"
  unfolding route_ok_def using hop_nodes
  by (auto elim!: follow.elims split: option.splits)

lemma recompute_spec:
  assumes "graph_wf g" "length (g_nodes g) \<le> 2 ^ 32"
  obtains best where "recompute g = Inr (g\<lparr>g_best_routes := best\<rparr>)" "routes_ok (g\<lparr>g_best_routes := best\<rparr>)"
proof -
  have "\<exists>best. recompute_from g (hm_keys (g_nodes g)) [] = Some best
    \<and> (\<forall>a b. a \<in> set (hm_keys (g_nodes g)) \<longrightarrow> route_ok g a b (hm_get best (a, b)))
    \<and> (\<forall>a b. a \<notin> set (hm_keys (g_nodes g)) \<longrightarrow> hm_get best (a, b) = hm_get [] (a, b))"
    using dijkstra_from_spec [OF assms] graph_wfD(1) [OF assms(1)] by (intro recompute_from_spec) auto
  then obtain best where best: "recompute_from g (hm_keys (g_nodes g)) [] = Some best"
    "\<And>a b. a \<in> set (hm_keys (g_nodes g)) \<Longrightarrow> route_ok g a b (hm_get best (a, b))"
    "\<And>a b. a \<notin> set (hm_keys (g_nodes g)) \<Longrightarrow> hm_get best (a, b) = None" by auto
  have "route_ok g a b (hm_get best (a, b))" for a b
    using best(2,3) unlinked_route [OF assms(1)] by (cases "a \<in> set (hm_keys (g_nodes g))") auto
  with best(1) show thesis by (intro that [of best]) (simp_all add: recompute_def routes_ok_def get_low_cost_path_def)
qed

subsection \<open>The operations\<close>

text \<open>What every operation keeps: a well-formed graph whose table of best routes is right. The bound on the number
  of nodes keeps the distances below \<open>2^64\<close>.\<close>

definition graph_inv :: "graph \<Rightarrow> bool" where
  "graph_inv g \<longleftrightarrow> graph_wf g \<and> routes_ok g \<and> length (g_nodes g) \<le> 2 ^ 32"

lemma graph_invD: "graph_inv g \<Longrightarrow> graph_wf g" "graph_inv g \<Longrightarrow> routes_ok g" "graph_inv g \<Longrightarrow> length (g_nodes g) \<le> 2 ^ 32"
  by (simp_all add: graph_inv_def)

text \<open>A recomputed graph has the same nodes and links.\<close>

definition same_links :: "graph \<Rightarrow> graph \<Rightarrow> bool" where
  "same_links g h \<longleftrightarrow> g_nodes g = g_nodes h \<and> g_edges g = g_edges h"

lemma recompute_inv:
  assumes "graph_wf g" "length (g_nodes g) \<le> 2 ^ 32"
  obtains g' where "recompute g = (Inr g' :: ('e, graph) result)" "graph_inv g'" "same_links g' g"
proof -
  obtain best where "recompute g = (Inr (g\<lparr>g_best_routes := best\<rparr>) :: ('e, graph) result)"
    "routes_ok (g\<lparr>g_best_routes := best\<rparr>)" by (rule recompute_spec [OF assms])
  with assms show thesis
    by (intro that [of "g\<lparr>g_best_routes := best\<rparr>"]) (simp_all add: graph_inv_def same_links_def)
qed

lemma same_links_hop: "same_links g h \<Longrightarrow> hop g = hop h"
  by (intro ext) (simp add: same_links_def hop_def)

lemma graph_inv_default: "graph_inv graph_default"
proof -
  have "hop graph_default u l = None" for u l by (simp add: hop_def graph_default_def)
  then have "follow (hop graph_default) a p = Some b \<Longrightarrow> a = b" for a b p by (cases p) auto
  moreover have "get_low_cost_path graph_default a b = None" for a b
    by (simp add: get_low_cost_path_def graph_default_def)
  moreover have "length (g_nodes graph_default) = 0" by (simp add: graph_default_def)
  ultimately show ?thesis by (auto simp: graph_inv_def graph_wf_default routes_ok_def route_ok_def)
qed

lemma graph_add_node_spec:
  assumes "graph_inv g" "length (g_nodes g) < 2 ^ 32" "hm_get (g_nodes g) n = None"
  obtains g' where "graph_add_node n g = Inr (g', n)" "graph_inv g'" "g_edges g' = g_edges g"
    "fst ` set (g_nodes g') = insert n (fst ` set (g_nodes g))"
proof -
  let ?g = "g\<lparr>g_nodes := hm_insert n \<lparr>nd_edges = []\<rparr> (g_nodes g)\<rparr>"
  have hop: "hop ?g = hop g" "weight ?g = weight g" by (auto simp: hop_def weight_def fun_eq_iff)
  have len: "length (hm_insert n nd (g_nodes g)) = Suc (length (g_nodes g))" for nd
    using assms(3) update_keys [of n nd "g_nodes g", THEN arg_cong, of length] by (simp add: map_of_eq_None_iff)
  have at: "edges_at ?g m = edges_at g m" for m using assms(3) by (auto simp: edges_at_def)
  note wf = graph_wfD [OF graph_invD(1) [OF assms(1)]]
  have "graph_wf ?g"
    unfolding graph_wf_def at using wf by (auto simp: distinct_update split: if_splits)
  moreover have "routes_ok ?g"
    using graph_invD(2) [OF assms(1)] 
    by (simp add: routes_ok_def route_ok_cong [OF hop] get_low_cost_path_def)
  ultimately have "graph_inv ?g" using assms(2) len by (simp add: graph_inv_def)
  then show thesis using assms(3) by (intro that [of ?g]) (simp_all add: graph_add_node_def)
qed

lemma with_link_attach:
  assumes "hm_get (g_nodes g) (lk_a lk) \<noteq> None" "hm_get (g_nodes g) (lk_b lk) \<noteq> None"
  shows "bind (attach (lk_a lk) l (g\<lparr>g_edges := hm_insert l lk (g_edges g)\<rparr>)) (\<lambda>g1. bind (attach (lk_b lk) l g1) f)
     = f (with_link l lk g)"
  using assms by (auto simp: attach_eq with_link_def hm_get_on_node)

lemma graph_add_link_spec:
  assumes inv: "graph_inv g" and ok: "a \<noteq> b" "hm_get (g_nodes g) a \<noteq> None" "hm_get (g_nodes g) b \<noteq> None"
    "hm_get (g_edges g) l = None"
  obtains g' where "graph_add_link a b l ats cost g = Inr g'" "graph_inv g'"
    "g_edges g' = hm_insert l \<lparr>lk_a = a, lk_b = b, lk_attributes = ats, lk_cost = cost\<rparr> (g_edges g)"
    "hm_keys (g_nodes g') = hm_keys (g_nodes g)"
proof -
  let ?lk = "\<lparr>lk_a = a, lk_b = b, lk_attributes = ats, lk_cost = cost\<rparr>"
  have eq: "graph_add_link a b l ats cost g = recompute (with_link l ?lk g)"
    using ok with_link_attach [of g ?lk l recompute] by (auto simp: graph_add_link_def)
  have "graph_wf (with_link l ?lk g)" using ok by (intro graph_wf_with_link graph_invD(1) inv) auto
  then obtain g' where "recompute (with_link l ?lk g) = (Inr g' :: (topology_error, graph) result)"
    "graph_inv g'" "same_links g' (with_link l ?lk g)"
    by (rule recompute_inv) (use graph_invD(3) [OF inv] in simp)
  then show thesis using eq by (intro that [of g']) (auto simp: same_links_def)
qed

lemma graph_add_link_cases:
  assumes "graph_inv g"
  obtains (error) e where "graph_add_link a b l ats cost g = Inl (Err e)"
  | (ok) g' where "graph_add_link a b l ats cost g = Inr g'" "graph_inv g'" "hm_get (g_edges g) l = None"
    "g_edges g' = hm_insert l \<lparr>lk_a = a, lk_b = b, lk_attributes = ats, lk_cost = cost\<rparr> (g_edges g)"
    "hm_keys (g_nodes g') = hm_keys (g_nodes g)"
proof (cases "a \<noteq> b \<and> hm_get (g_nodes g) a \<noteq> None \<and> hm_get (g_nodes g) b \<noteq> None \<and> hm_get (g_edges g) l = None")
  case True
  then obtain g' where "graph_add_link a b l ats cost g = Inr g'" "graph_inv g'"
    "g_edges g' = hm_insert l \<lparr>lk_a = a, lk_b = b, lk_attributes = ats, lk_cost = cost\<rparr> (g_edges g)"
    "hm_keys (g_nodes g') = hm_keys (g_nodes g)"
    using graph_add_link_spec [OF assms, of a b l ats cost] by blast
  with True show thesis using ok by blast
next
  case False
  then have "\<exists>e. graph_add_link a b l ats cost g = Inl (Err e)" by (auto simp: graph_add_link_def)
  then show thesis using error by blast
qed

lemma graph_remove_link_spec:
  assumes inv: "graph_inv g"
  obtains g' where "graph_remove_link l g = (Inr (g', hm_get (g_edges g) l) :: ('e, graph \<times> link option) result)"
    "graph_inv g'"
    "g_edges g' = hm_remove l (g_edges g)" "hm_keys (g_nodes g') = hm_keys (g_nodes g)"
proof -
  obtain g' where "recompute (fst (remove_link_impl l g)) = (Inr g' :: ('e, graph) result)"
    "graph_inv g'" "same_links g' (fst (remove_link_impl l g))"
    by (rule recompute_inv [OF graph_wf_remove [OF graph_invD(1) [OF inv]]]) (use graph_invD(3) [OF inv] in simp)
  moreover have "snd (remove_link_impl l g) = hm_get (g_edges g) l"
    by (simp add: remove_link_impl_def split: option.splits)
  ultimately show thesis by (intro that [of g']) (auto simp: graph_remove_link_def Let_def same_links_def)
qed

lemma fold_remove:
  assumes "graph_wf g"
  defines "g1 \<equiv> \<lambda>ls. fold (\<lambda>l h. fst (remove_link_impl l h)) ls g"
  shows "graph_wf (g1 ls)" "hm_get (g_edges (g1 ls)) l = (if l \<in> set ls then None else hm_get (g_edges g) l)"
    and "hm_keys (g_nodes (g1 ls)) = hm_keys (g_nodes g)" "edges_at (g1 ls) n = edges_at g n - set ls"
proof -
  have "graph_wf (g1 ls) \<and> hm_get (g_edges (g1 ls)) l = (if l \<in> set ls then None else hm_get (g_edges g) l)
    \<and> hm_keys (g_nodes (g1 ls)) = hm_keys (g_nodes g) \<and> edges_at (g1 ls) n = edges_at g n - set ls"
    unfolding g1_def using assms(1)
    by (induction ls arbitrary: g) (auto simp: graph_wf_remove edges_at_remove)
  then show "graph_wf (g1 ls)" "hm_get (g_edges (g1 ls)) l = (if l \<in> set ls then None else hm_get (g_edges g) l)"
    "hm_keys (g_nodes (g1 ls)) = hm_keys (g_nodes g)" "edges_at (g1 ls) n = edges_at g n - set ls" by blast+
qed

lemma graph_remove_node_spec:
  assumes inv: "graph_inv g"
  obtains g' r where "graph_remove_node n g = (Inr (g', r) :: ('e, graph \<times> node option) result)" "graph_inv g'"
    "\<And>l. hm_get (g_edges g') l = (if l \<in> edges_at g n then None else hm_get (g_edges g) l)"
    "set (hm_keys (g_nodes g')) = set (hm_keys (g_nodes g)) - {n}" "r = None \<longleftrightarrow> hm_get (g_nodes g) n = None"
proof (cases "hm_get (g_nodes g) n")
  case None
  moreover from this have "n \<notin> set (hm_keys (g_nodes g))" unfolding hm_key_iff by simp
  ultimately show thesis
    using inv by (intro that [of g None]) (auto simp: graph_remove_node_def edges_at_def)
next
  case (Some nd)
  let ?g1 = "fold (\<lambda>l h. fst (remove_link_impl l h)) (nd_edges nd) g"
  let ?g2 = "?g1\<lparr>g_nodes := hm_remove n (g_nodes ?g1)\<rparr>"
  note g1 = fold_remove [OF graph_invD(1) [OF inv], of "nd_edges nd"]
  have at_n: "edges_at g n = set (nd_edges nd)" using Some by (simp add: edges_at_def)
  have at: "edges_at ?g2 m = edges_at ?g1 m" for m
  proof (cases "m = n")
    case True
    then show ?thesis using g1(4) [of n] at_n by (simp add: edges_at_def)
  qed (simp add: edges_at_def)
  have wf: "graph_wf ?g2"
    unfolding graph_wf_def at using graph_wfD [OF g1(1)] by (auto simp: distinct_delete split: if_splits)
  have len1: "length (g_nodes ?g1) = length (g_nodes g)" using g1(3) by (metis length_map)
  have "length (g_nodes ?g2) \<le> length (g_nodes g)" using length_delete_le [of n "g_nodes ?g1"] len1 by simp
  then have len: "length (g_nodes ?g2) \<le> 2 ^ 32" using graph_invD(3) [OF inv] by simp
  obtain g' where g': "recompute ?g2 = (Inr g' :: ('e, graph) result)" "graph_inv g'" "same_links g' ?g2"
    by (rule recompute_inv [OF wf len])
  have "n \<in> set (hm_keys (g_nodes ?g1))" using Some by (simp add: g1(3) hm_key_get)
  then have "hm_get (g_nodes ?g1) n \<noteq> None" unfolding hm_key_iff .
  with g' Some at_n show thesis
    by (intro that [of g' "hm_get (g_nodes ?g1) n"])
      (auto simp: graph_remove_node_def Let_def same_links_def g1(2) g1(3) [THEN arg_cong [of _ _ set], simplified])
qed

lemma find_link_to_spec:
  assumes "graph_wf g" "\<forall>l \<in> set ls. \<exists>lk. hm_get (g_edges g) l = Some lk \<and> hop g a l = Some (other_end lk a)"
  shows "find_link_to g a b ls = Some l \<Longrightarrow> l \<in> set ls \<and> hop g a l = Some b"
    and "find_link_to g a b ls = None \<Longrightarrow> k \<in> set ls \<Longrightarrow> hop g a k \<noteq> Some b"
  using assms(2) by (induction ls) (auto split: option.splits if_splits)

lemma link_id_between_spec:
  assumes wf: "graph_wf g"
  shows "link_id_between g a b = Some l \<Longrightarrow> hop g a l = Some b"
    and "link_id_between g a b = None \<Longrightarrow> hop g a k \<noteq> Some b"
proof -
  have ends: "\<forall>l \<in> set (nd_edges nd). \<exists>lk. hm_get (g_edges g) l = Some lk \<and> hop g a l = Some (other_end lk a)"
    if "hm_get (g_nodes g) a = Some nd" for nd
    using hop_other_end [OF wf that] by metis
  show "hop g a l = Some b" if "link_id_between g a b = Some l"
    using that find_link_to_spec(1) [OF wf ends] by (auto simp: link_id_between_def split: option.splits)
  show "hop g a k \<noteq> Some b" if none: "link_id_between g a b = None"
  proof
    assume k: "hop g a k = Some b"
    then obtain nd where "hm_get (g_nodes g) a = Some nd" "k \<in> set (nd_edges nd)" by (rule hop_filed [OF wf])
    with none k find_link_to_spec(2) [OF wf ends] show False by (auto simp: link_id_between_def)
  qed
qed

lemma replace_link_spec:
  assumes inv: "graph_inv g" and ok: "a \<noteq> b" "hm_get (g_nodes g) a \<noteq> None" "hm_get (g_nodes g) b \<noteq> None"
    "link_id_between g a b = Some old" "l = old \<or> hm_get (g_edges g) l = None"
  obtains g' where "replace_link a b l ats cost g = Inr g'" "graph_inv g'"
    "g_edges g' = hm_insert l \<lparr>lk_a = a, lk_b = b, lk_attributes = ats, lk_cost = cost\<rparr> (hm_remove old (g_edges g))"
    "hm_keys (g_nodes g') = hm_keys (g_nodes g)"
proof -
  let ?lk = "\<lparr>lk_a = a, lk_b = b, lk_attributes = ats, lk_cost = cost\<rparr>"
  let ?g1 = "fst (remove_link_impl old g)"
  have nodes: "hm_get (g_nodes ?g1) n \<noteq> None \<longleftrightarrow> hm_get (g_nodes g) n \<noteq> None" for n
    unfolding hm_key_iff [symmetric] by simp
  have eq: "replace_link a b l ats cost g = recompute (with_link l ?lk ?g1)"
    using ok with_link_attach [of ?g1 ?lk l recompute] nodes by (auto simp: replace_link_def Let_def)
  have "graph_wf (with_link l ?lk ?g1)"
    using ok nodes by (intro graph_wf_with_link graph_wf_remove graph_invD(1) inv) auto
  then obtain g' where "recompute (with_link l ?lk ?g1) = (Inr g' :: (topology_error, graph) result)"
    "graph_inv g'" "same_links g' (with_link l ?lk ?g1)"
    by (rule recompute_inv) (use graph_invD(3) [OF inv] in simp)
  then show thesis using eq by (intro that [of g']) (auto simp: same_links_def)
qed

lemma replace_link_cases:
  assumes "graph_inv g"
  obtains (error) e where "replace_link a b l ats cost g = Inl (Err e)"
  | (ok) g' where "replace_link a b l ats cost g = Inr g'" "graph_inv g'"
proof (cases "a \<noteq> b \<and> hm_get (g_nodes g) a \<noteq> None \<and> hm_get (g_nodes g) b \<noteq> None \<and>
      (\<exists>old. link_id_between g a b = Some old \<and> (l = old \<or> hm_get (g_edges g) l = None))")
  case True
  then show thesis using replace_link_spec [OF assms, of a b _ l ats cost] ok by blast
next
  case False
  then have "\<exists>e. replace_link a b l ats cost g = Inl (Err e)" by (auto simp: replace_link_def split: option.splits)
  then show thesis using error by blast
qed

subsection \<open>Properties\<close>

text \<open>A triangle in which the detour is cheaper than the direct link.\<close>

definition node_a :: node_id where "node_a = NodeId (V4 1)"
definition node_b :: node_id where "node_b = NodeId (V4 2)"
definition node_c :: node_id where "node_c = NodeId (V4 3)"

definition triangle :: graph where
  "triangle = \<lparr>
     g_nodes = [(node_a, \<lparr>nd_edges = [LinkId ''ab'', LinkId ''ac'']\<rparr>),
                (node_b, \<lparr>nd_edges = [LinkId ''ab'', LinkId ''bc'']\<rparr>),
                (node_c, \<lparr>nd_edges = [LinkId ''bc'', LinkId ''ac'']\<rparr>)],
     g_edges = [(LinkId ''ab'', \<lparr>lk_a = node_a, lk_b = node_b, lk_attributes = [], lk_cost = 5\<rparr>),
                (LinkId ''bc'', \<lparr>lk_a = node_b, lk_b = node_c, lk_attributes = [], lk_cost = 1\<rparr>),
                (LinkId ''ac'', \<lparr>lk_a = node_a, lk_b = node_c, lk_attributes = [], lk_cost = 10\<rparr>)],
     g_best_routes = []\<rparr>"

lemma triangle_wf: "graph_wf triangle"
  unfolding graph_wf_def
proof (intro conjI allI impI)
  fix n l
  show "l \<in> edges_at triangle n \<longleftrightarrow>
      (\<exists>lk. hm_get (g_edges triangle) l = Some lk \<and> (n = lk_a lk \<or> n = lk_b lk))"
    by (simp add: triangle_def edges_at_def node_a_def node_b_def node_c_def)
qed (auto simp: triangle_def node_a_def node_b_def node_c_def split: if_splits)

text \<open>C21. Dijkstra's algorithm is correct. From any node of a well-formed graph of at most \<open>2^32\<close> nodes it ends
  without panic and gives every other reachable node, and no other, a path that is cheapest among all paths
  and visits no node twice, with its cost cut off at the largest \<open>u32\<close>.\<close>

theorem dijkstra_from_correct:
  assumes "graph_wf g" "length (g_nodes g) \<le> 2 ^ 32" "start \<in> set (hm_keys (g_nodes g))"
  shows "\<exists>res. dijkstra_from g start = Some res \<and>
    (\<forall>v. case hm_get res v of
           None \<Rightarrow> v = start \<or> (\<forall>p. follow (hop g) start p \<noteq> Some v)
         | Some (p, c) \<Rightarrow> v \<noteq> start \<and> cheapest (hop g) (weight g) start p v \<and> simple_path (hop g) start p v
             \<and> unat c = min (path_cost (weight g) p) (2 ^ 32 - 1))"
proof -
  from dijkstra_from_spec [OF assms(1,2)] assms(3) obtain res where
    res: "dijkstra_from g start = Some res" "\<And>v. route_ok g start v (hm_get res v)" by auto
  show ?thesis
  proof (intro exI conjI allI)
    fix v
    show "case hm_get res v of
        None \<Rightarrow> v = start \<or> (\<forall>p. follow (hop g) start p \<noteq> Some v)
      | Some (p, c) \<Rightarrow> v \<noteq> start \<and> cheapest (hop g) (weight g) start p v \<and> simple_path (hop g) start p v
          \<and> unat c = min (path_cost (weight g) p) (2 ^ 32 - 1)"
      using res(2) [of v] by (auto simp: route_ok_def split: option.splits)
  qed (rule res(1))
qed

theorem dijkstra_from_correct_witness:
  "\<exists>res p c. dijkstra_from triangle node_a = Some res \<and> hm_get res node_c = Some (p, c)
     \<and> cheapest (hop triangle) (weight triangle) node_a p node_c"
proof -
  have start: "node_a \<in> set (hm_keys (g_nodes triangle))" "length (g_nodes triangle) \<le> 2 ^ 32"
    by (simp_all add: triangle_def)
  have reach: "follow (hop triangle) node_a [LinkId ''ac''] = Some node_c"
    by (simp add: hop_def triangle_def node_a_def node_c_def)
  have ne: "node_c \<noteq> node_a" by (simp add: node_a_def node_c_def)
  from dijkstra_from_correct [OF triangle_wf start(2,1)] obtain res where
    res: "dijkstra_from triangle node_a = Some res"
    and "case hm_get res node_c of
           None \<Rightarrow> node_c = node_a \<or> (\<forall>p. follow (hop triangle) node_a p \<noteq> Some node_c)
         | Some (p, c) \<Rightarrow> node_c \<noteq> node_a \<and> cheapest (hop triangle) (weight triangle) node_a p node_c
             \<and> simple_path (hop triangle) node_a p node_c \<and> unat c = min (path_cost (weight triangle) p) (2 ^ 32 - 1)"
    by blast
  with reach ne show ?thesis by (auto simp del: follow.simps split: option.splits)
qed

text \<open>C22. Adding a node or a link, replacing a link and removing a link or a node keep the invariant: the links filed at each node stay exact and the table of best
  routes stays right, so \<open>get_low_cost_path\<close> always returns a cheapest path. None of them panics; an operation fails
  only for the documented reasons, a link that was added or replaced connects its two nodes, and the links of a
  removed node or a removed link are gone.\<close>

theorem graph_operations_keep_invariant:
  assumes "graph_inv g" "length (g_nodes g) < 2 ^ 32"
  shows "(case graph_add_node n g of Inl f \<Rightarrow> f = Err (NodeExists n) | Inr (g', m) \<Rightarrow> m = n \<and> graph_inv g')
   \<and> (case graph_add_link a b l ats c g of
        Inl f \<Rightarrow> f \<in> {Err LinkToSelf, Err (NodeNotFound a), Err (NodeNotFound b), Err (LinkExists l)}
      | Inr g' \<Rightarrow> graph_inv g' \<and> hop g' a l = Some b)
   \<and> (case replace_link a b l ats c g of
        Inl f \<Rightarrow> f \<in> {Err LinkToSelf, Err (NodeNotFound a), Err (NodeNotFound b), Err (LinkNotFound None), Err (LinkExists l)}
      | Inr g' \<Rightarrow> graph_inv g' \<and> hop g' a l = Some b)
   \<and> (\<exists>g' r. graph_remove_link l g = (Inr (g', r) :: (topology_error, graph \<times> link option) result)
        \<and> graph_inv g' \<and> (\<forall>u. hop g' u l = None))
   \<and> (\<exists>g' r. graph_remove_node n g = (Inr (g', r) :: (topology_error, graph \<times> node option) result)
        \<and> graph_inv g' \<and> n \<notin> set (hm_keys (g_nodes g')) \<and> (\<forall>k. hop g' n k = None))"
proof (intro conjI)
  note inv = assms(1)
  show "case graph_add_node n g of Inl f \<Rightarrow> f = Err (NodeExists n) | Inr (g', m) \<Rightarrow> m = n \<and> graph_inv g'"
  proof (cases "hm_get (g_nodes g) n")
    case None
    then obtain g' where "graph_add_node n g = Inr (g', n)" "graph_inv g'" by (rule graph_add_node_spec [OF assms])
    then show ?thesis by simp
  qed (simp add: graph_add_node_def)
  show "case graph_add_link a b l ats c g of
      Inl f \<Rightarrow> f \<in> {Err LinkToSelf, Err (NodeNotFound a), Err (NodeNotFound b), Err (LinkExists l)}
    | Inr g' \<Rightarrow> graph_inv g' \<and> hop g' a l = Some b"
  proof (cases "a \<noteq> b \<and> hm_get (g_nodes g) a \<noteq> None \<and> hm_get (g_nodes g) b \<noteq> None \<and> hm_get (g_edges g) l = None")
    case True
    obtain g' where "graph_add_link a b l ats c g = Inr g'" "graph_inv g'"
      "g_edges g' = hm_insert l \<lparr>lk_a = a, lk_b = b, lk_attributes = ats, lk_cost = c\<rparr> (g_edges g)"
      by (rule graph_add_link_spec [OF inv, of a b l ats c]) (use True in blast)+
    then show ?thesis by (simp add: hop_def)
  qed (auto simp: graph_add_link_def)
  show "case replace_link a b l ats c g of
      Inl f \<Rightarrow> f \<in> {Err LinkToSelf, Err (NodeNotFound a), Err (NodeNotFound b), Err (LinkNotFound None), Err (LinkExists l)}
    | Inr g' \<Rightarrow> graph_inv g' \<and> hop g' a l = Some b"
  proof (cases "a \<noteq> b \<and> hm_get (g_nodes g) a \<noteq> None \<and> hm_get (g_nodes g) b \<noteq> None \<and>
      (\<exists>old. link_id_between g a b = Some old \<and> (l = old \<or> hm_get (g_edges g) l = None))")
    case True
    then obtain old where old: "link_id_between g a b = Some old" "l = old \<or> hm_get (g_edges g) l = None" by blast
    obtain g' where "replace_link a b l ats c g = Inr g'" "graph_inv g'"
      "g_edges g' = hm_insert l \<lparr>lk_a = a, lk_b = b, lk_attributes = ats, lk_cost = c\<rparr> (hm_remove old (g_edges g))"
      by (rule replace_link_spec [OF inv _ _ _ old, where ats = ats and cost = c]) (use True in blast)+
    then show ?thesis by (simp add: hop_def)
  qed (auto simp: replace_link_def split: option.splits)
  show "\<exists>g' r. graph_remove_link l g = (Inr (g', r) :: (topology_error, graph \<times> link option) result)
      \<and> graph_inv g' \<and> (\<forall>u. hop g' u l = None)"
    by (rule graph_remove_link_spec [OF inv, of l]) (auto simp: hop_def)
  show "\<exists>g' r. graph_remove_node n g = (Inr (g', r) :: (topology_error, graph \<times> node option) result)
      \<and> graph_inv g' \<and> n \<notin> set (hm_keys (g_nodes g')) \<and> (\<forall>k. hop g' n k = None)"
  proof (rule graph_remove_node_spec [OF inv, of n])
    fix g' r assume *: "graph_remove_node n g = (Inr (g', r) :: (topology_error, graph \<times> node option) result)"
      "graph_inv g'" "set (hm_keys (g_nodes g')) = set (hm_keys (g_nodes g)) - {n}"
    moreover have "hop g' n k = None" for k
      using hop_nodes [OF graph_invD(1) [OF *(2)], of n k] *(3) by (cases "hop g' n k") auto
    ultimately show ?thesis by auto
  qed
qed

theorem graph_operations_keep_invariant_witness:
  "\<exists>g'. graph_add_node node_a graph_default = Inr (g', node_a) \<and> graph_inv g'"
proof -
  have "graph_add_node node_a graph_default = Inr (graph_default\<lparr>g_nodes := [(node_a, \<lparr>nd_edges = []\<rparr>)]\<rparr>, node_a)"
    by (simp add: graph_add_node_def graph_default_def)
  moreover have "length (g_nodes graph_default) < 2 ^ 32" by (simp add: graph_default_def)
  ultimately show ?thesis
    using graph_operations_keep_invariant [OF graph_inv_default, where n = node_a, THEN conjunct1] by simp
qed

end
