(* ===== verification/All_Paths.thy ===== *)
theory All_Paths
  imports Shortest_Paths
begin

text \<open>
  \<^verbatim>\<open>Graph::get_all_paths\<close> of \<^verbatim>\<open>vs/src/router.rs\<close>: a depth-first search with an explicit stack that lists every simple
  path between two nodes. The search is total, and its result is exactly the set of simple paths, each once.

  The stack grows at the front of the list, the remaining edges of a frame are taken from the end of theirs.
\<close>

subsection \<open>The search\<close>

record frame =
  fr_current :: node_id
  fr_remaining :: "link_id list"
  fr_entered_via :: "link_id option"
  fr_entered_neighbor :: "node_id option"
  fr_cost :: u32

record search =
  sr_results :: "(link_id list \<times> u32) list"
  sr_visited :: "node_id list"
  sr_path :: "link_id list"
  sr_stack :: "frame list"

definition saturating_add :: "u32 \<Rightarrow> u32 \<Rightarrow> u32" where
  "saturating_add x y = (if x + y < x then 0xFFFFFFFF else x + y)"

definition leave_path :: "frame \<Rightarrow> link_id list \<Rightarrow> link_id list" where
  "leave_path f path = (if fr_entered_via f = None then path else butlast path)"

definition leave_visited :: "frame \<Rightarrow> node_id list \<Rightarrow> node_id list" where
  "leave_visited f visited = (case fr_entered_neighbor f of None \<Rightarrow> visited | Some n \<Rightarrow> removeAll n visited)"

text \<open>The work left: an entry per frame and per remaining edge, weighted by the number of nodes not yet visited
  when that frame is on top. Descending replaces one entry by lighter ones.\<close>

fun work :: "graph \<Rightarrow> node_id list \<Rightarrow> frame list \<Rightarrow> nat multiset" where
  "work g visited [] = {#}"
| "work g visited (f # fs) =
     replicate_mset (Suc (length (fr_remaining f))) (card (fst ` set (g_nodes g) - set visited))
     + work g (leave_visited f visited) fs"

function all_paths_loop :: "graph \<Rightarrow> node_id \<Rightarrow> search \<Rightarrow> (link_id list \<times> u32) list" where
  "all_paths_loop g e st =
     (case sr_stack st of
        [] \<Rightarrow> sr_results st
      | f # fs \<Rightarrow>
          if fr_remaining f = [] then
            all_paths_loop g e (st\<lparr>sr_stack := fs, sr_path := leave_path f (sr_path st),
              sr_visited := leave_visited f (sr_visited st)\<rparr>)
          else
            let l = last (fr_remaining f);
                f' = f\<lparr>fr_remaining := butlast (fr_remaining f)\<rparr>;
                st' = st\<lparr>sr_stack := f' # fs\<rparr>
            in (case hm_get (g_edges g) l of
                  None \<Rightarrow> all_paths_loop g e st'
                | Some lk \<Rightarrow>
                    let neighbor = other_end lk (fr_current f)
                    in if neighbor \<in> set (sr_visited st) then all_paths_loop g e st'
                       else let new_cost = saturating_add (fr_cost f) (lk_cost lk)
                         in if neighbor = e then
                              all_paths_loop g e (st'\<lparr>sr_results := sr_results st @ [(sr_path st @ [l], new_cost)]\<rparr>)
                            else (case hm_get (g_nodes g) neighbor of
                                    None \<Rightarrow> all_paths_loop g e st'
                                  | Some nd \<Rightarrow>
                                      all_paths_loop g e (st'\<lparr>
                                        sr_visited := List.insert neighbor (sr_visited st),
                                        sr_path := sr_path st @ [l],
                                        sr_stack := \<lparr>fr_current = neighbor, fr_remaining = nd_edges nd,
                                          fr_entered_via = Some l, fr_entered_neighbor = Some neighbor,
                                          fr_cost = new_cost\<rparr> # f' # fs\<rparr>))))"
  by pat_completeness auto

lemma work_pop: "(work g (leave_visited f visited) fs, work g visited (f # fs)) \<in> mult less_than"
  using one_step_implies_mult [of "replicate_mset (Suc (length (fr_remaining f))) (card (fst ` set (g_nodes g) - set visited))"
      "{#}" less_than "work g (leave_visited f visited) fs"]
  by (simp add: add.commute)

lemma work_next:
  assumes "fr_remaining f \<noteq> []"
  shows "work g visited (f # fs) = work g visited (f\<lparr>fr_remaining := butlast (fr_remaining f)\<rparr> # fs)
    + {#card (fst ` set (g_nodes g) - set visited)#}"
proof -
  have "length (fr_remaining f) = Suc (length (butlast (fr_remaining f)))" using assms by simp
  then show ?thesis by (simp add: leave_visited_def)
qed

lemma work_edge:
  assumes "fr_remaining f \<noteq> []"
  shows "(work g visited (f\<lparr>fr_remaining := butlast (fr_remaining f)\<rparr> # fs), work g visited (f # fs)) \<in> mult less_than"
  using one_step_implies_mult [of "{#card (fst ` set (g_nodes g) - set visited)#}" "{#}" less_than
      "work g visited (f\<lparr>fr_remaining := butlast (fr_remaining f)\<rparr> # fs)"]
  unfolding work_next [OF assms] by (simp del: work.simps)

lemma work_descend:
  assumes "fr_remaining f \<noteq> []" "n \<notin> set visited" "n \<in> fst ` set (g_nodes g)" "fr_entered_neighbor f' = Some n"
  shows "(work g (n # visited) (f' # f\<lparr>fr_remaining := butlast (fr_remaining f)\<rparr> # fs),
    work g visited (f # fs)) \<in> mult less_than"
proof -
  let ?free = "\<lambda>vs. card (fst ` set (g_nodes g) - set vs)"
  have "leave_visited f' (n # visited) = visited"
    using assms(2,4) by (simp add: leave_visited_def)
  then have eq: "work g (n # visited) (f' # f\<lparr>fr_remaining := butlast (fr_remaining f)\<rparr> # fs) =
      work g visited (f\<lparr>fr_remaining := butlast (fr_remaining f)\<rparr> # fs)
      + replicate_mset (Suc (length (fr_remaining f'))) (?free (n # visited))"
    by (simp only: work.simps(2) [of _ _ f'] add.commute)
  have "?free (n # visited) < ?free visited"
    using assms(2,3) by (intro psubset_card_mono) auto
  then show ?thesis
    unfolding eq work_next [OF assms(1), of g visited fs]
    by (intro one_step_implies_mult) auto
qed

termination all_paths_loop
proof (relation "inv_image (mult less_than) (\<lambda>(g, e, st). work g (sr_visited st) (sr_stack st))", goal_cases)
  case 1
  show ?case by (simp add: wf_mult)
next
  case 2
  then show ?case by (simp add: work_pop del: work.simps)
qed (auto simp: work_edge hm_key_get intro!: work_descend simp del: work.simps)

declare all_paths_loop.simps [simp del]

definition get_all_paths :: "graph \<Rightarrow> node_id \<Rightarrow> node_id \<Rightarrow> (link_id list \<times> u32) list" where
  "get_all_paths g start e =
     (if start = e then [([], 0)]
      else (case hm_get (g_nodes g) start of
              None \<Rightarrow> []
            | Some nd \<Rightarrow>
                all_paths_loop g e \<lparr>sr_results = [], sr_visited = [start], sr_path = [],
                  sr_stack = [\<lparr>fr_current = start, fr_remaining = nd_edges nd, fr_entered_via = None,
                    fr_entered_neighbor = None, fr_cost = 0\<rparr>]\<rparr>))"

subsection \<open>The paths still to be found\<close>

text \<open>\<open>extends g e V u p\<close>: the path \<open>p\<close> leads from \<open>u\<close> to \<open>e\<close>, has a link, and meets no node of \<open>V\<close> nor any node twice
  on its way.\<close>

definition extends :: "graph \<Rightarrow> node_id \<Rightarrow> node_id set \<Rightarrow> node_id \<Rightarrow> link_id list \<Rightarrow> bool" where
  "extends g e V u p \<longleftrightarrow> p \<noteq> [] \<and> follow (hop g) u p = Some e \<and> distinct (tl (visits (hop g) u p))
     \<and> set (tl (visits (hop g) u p)) \<inter> V = {}"

lemma extends_Cons_iff:
  "extends g e V u (l # q) \<longleftrightarrow>
     (\<exists>v. hop g u l = Some v \<and> v \<notin> V \<and> (if v = e then q = [] else extends g e (insert v V) v q))"
proof (cases "hop g u l")
  case None
  then show ?thesis by (simp add: extends_def)
next
  case (Some v)
  obtain vs where vs: "visits (hop g) v q = v # vs" by (cases q) auto
  have "v = e \<Longrightarrow> follow (hop g) v q = Some e \<Longrightarrow> q \<noteq> [] \<Longrightarrow> e \<in> set vs"
    using last_visits [of "hop g" v q e] length_visits [of "hop g" v q e] vs
    by (cases vs) (auto split: if_splits)
  with Some vs show ?thesis by (cases q) (auto simp: extends_def)
qed

lemma extends_start: "start \<noteq> e \<Longrightarrow> extends g e {start} start p \<longleftrightarrow> simple_path (hop g) start p e"
  by (cases p) (auto simp: extends_def simple_path_def split: option.splits)

definition frame_paths :: "graph \<Rightarrow> node_id \<Rightarrow> node_id set \<Rightarrow> frame \<Rightarrow> link_id list \<Rightarrow> link_id list set" where
  "frame_paths g e V f path =
     {path @ l # q | l q. l \<in> set (fr_remaining f) \<and> extends g e V (fr_current f) (l # q)}"

fun pending :: "graph \<Rightarrow> node_id \<Rightarrow> node_id list \<Rightarrow> link_id list \<Rightarrow> frame list \<Rightarrow> link_id list set" where
  "pending g e visited path [] = {}"
| "pending g e visited path (f # fs) =
     frame_paths g e (set visited) f path \<union> pending g e (leave_visited f visited) (leave_path f path) fs"

text \<open>The shape of the stack: every frame but the first was entered over a link that the frame below it no longer
  has to try.\<close>

inductive stack_ok :: "graph \<Rightarrow> node_id list \<Rightarrow> link_id list \<Rightarrow> frame list \<Rightarrow> bool" for g where
  stack_empty: "stack_ok g visited path []"
| stack_bottom: "fr_entered_via f = None \<Longrightarrow> fr_entered_neighbor f = None \<Longrightarrow> distinct (fr_remaining f) \<Longrightarrow>
    \<forall>l \<in> set (fr_remaining f). hop g (fr_current f) l \<noteq> None \<Longrightarrow>
    unat (fr_cost f) = min (path_cost (weight g) path) (2 ^ 32 - 1) \<Longrightarrow> stack_ok g visited path [f]"
| stack_push: "stack_ok g visited path (f # fs) \<Longrightarrow> l \<notin> set (fr_remaining f) \<Longrightarrow> n \<notin> set visited \<Longrightarrow>
    fr_entered_via f' = Some l \<Longrightarrow> fr_entered_neighbor f' = Some n \<Longrightarrow> distinct (fr_remaining f') \<Longrightarrow>
    \<forall>l \<in> set (fr_remaining f'). hop g (fr_current f') l \<noteq> None \<Longrightarrow>
    unat (fr_cost f') = min (path_cost (weight g) (path @ [l])) (2 ^ 32 - 1) \<Longrightarrow>
    stack_ok g (n # visited) (path @ [l]) (f' # f # fs)"

inductive_cases stack_okE: "stack_ok g visited path (f # fs)"

lemma stack_ok_frame:
  assumes "stack_ok g visited path (f # fs)"
  shows "distinct (fr_remaining f)" "l \<in> set (fr_remaining f) \<Longrightarrow> hop g (fr_current f) l \<noteq> None"
    and "unat (fr_cost f) = min (path_cost (weight g) path) (2 ^ 32 - 1)"
  using assms by (auto elim: stack_okE)

lemma stack_ok_pop:
  "stack_ok g visited path (f # fs) \<Longrightarrow> stack_ok g (leave_visited f visited) (leave_path f path) fs"
  by (erule stack_okE) (auto simp: leave_visited_def leave_path_def stack_empty)

lemma stack_ok_next:
  "stack_ok g visited path (f # fs) \<Longrightarrow> stack_ok g visited path (f\<lparr>fr_remaining := butlast (fr_remaining f)\<rparr> # fs)"
  by (erule stack_okE)
    (fastforce intro!: stack_bottom stack_push simp: distinct_butlast dest: in_set_butlastD)+

text \<open>No path that a lower frame still has to find begins with the current path.\<close>

lemma pending_below:
  "stack_ok g visited path (f # fs) \<Longrightarrow>
   x \<in> pending g e (leave_visited f visited) (leave_path f path) fs \<Longrightarrow> x \<noteq> path @ q"
proof (induction visited path "f # fs" arbitrary: f fs x q rule: stack_ok.induct)
  case (stack_push visited path f fs l n f')
  have "leave_visited f' (n # visited) = visited" "leave_path f' (path @ [l]) = path"
    using stack_push.hyps by (simp_all add: leave_visited_def leave_path_def)
  with stack_push.prems
  have "x \<in> frame_paths g e (set visited) f path \<union> pending g e (leave_visited f visited) (leave_path f path) fs"
    by simp
  then show ?case
    using stack_push.hyps(3) stack_push.hyps(2) [of x "l # q"] by (auto simp: frame_paths_def)
qed (simp add: leave_visited_def leave_path_def)

lemma saturating_add_unat: "unat (saturating_add x y) = min (unat x + unat y) (2 ^ 32 - 1)"
proof (cases "unat x + unat y < 2 ^ 32")
  case True
  then have "unat (x + y) = unat x + unat y" by (simp add: unat_word_ariths)
  with True show ?thesis by (simp add: saturating_add_def word_less_nat_alt)
next
  case False
  then have "unat (x + y) = unat x + unat y - 2 ^ 32"
    using u32_less [of x] u32_less [of y] by (simp add: unat_word_ariths mod_if)
  with False have "x + y < x" using u32_less [of y] by (simp add: word_less_nat_alt)
  with False show ?thesis by (simp add: saturating_add_def)
qed

lemma frame_paths_next:
  assumes "fr_remaining f \<noteq> []"
  shows "frame_paths g e V f path = frame_paths g e V (f\<lparr>fr_remaining := butlast (fr_remaining f)\<rparr>) path
    \<union> {path @ last (fr_remaining f) # q | q. extends g e V (fr_current f) (last (fr_remaining f) # q)}"
proof -
  have "set (fr_remaining f) = insert (last (fr_remaining f)) (set (butlast (fr_remaining f)))"
    using assms by (metis append_butlast_last_id list.simps(15) rotate1.simps(2) set_rotate1)
  then show ?thesis unfolding frame_paths_def by (simp, blast)
qed

definition costs_ok :: "graph \<Rightarrow> (link_id list \<times> u32) list \<Rightarrow> bool" where
  "costs_ok g rs \<longleftrightarrow> (\<forall>(p, c) \<in> set rs. unat c = min (path_cost (weight g) p) (2 ^ 32 - 1))"

text \<open>The search finds what is pending, each path once.\<close>

definition search_ok :: "graph \<Rightarrow> node_id \<Rightarrow> search \<Rightarrow> bool" where
  "search_ok g e st \<longleftrightarrow> stack_ok g (sr_visited st) (sr_path st) (sr_stack st)
     \<and> distinct (map fst (sr_results st)) \<and> costs_ok g (sr_results st)
     \<and> fst ` set (sr_results st) \<inter> pending g e (sr_visited st) (sr_path st) (sr_stack st) = {}"

definition to_find :: "graph \<Rightarrow> node_id \<Rightarrow> search \<Rightarrow> link_id list set" where
  "to_find g e st = fst ` set (sr_results st) \<union> pending g e (sr_visited st) (sr_path st) (sr_stack st)"

lemma search_pop:
  assumes "search_ok g e st" "sr_stack st = f # fs" "fr_remaining f = []"
  defines "st' \<equiv> st\<lparr>sr_stack := fs, sr_path := leave_path f (sr_path st), sr_visited := leave_visited f (sr_visited st)\<rparr>"
  shows "search_ok g e st' \<and> to_find g e st' = to_find g e st"
proof -
  have "pending g e (sr_visited st) (sr_path st) (sr_stack st) =
      pending g e (sr_visited st') (sr_path st') (sr_stack st')"
    using assms(2,3) by (simp add: st'_def frame_paths_def)
  moreover have "stack_ok g (sr_visited st') (sr_path st') (sr_stack st')"
    using assms(1,2) stack_ok_pop by (simp add: st'_def search_ok_def)
  ultimately show ?thesis using assms(1) by (simp add: search_ok_def to_find_def st'_def)
qed

text \<open>The top frame takes its last edge; what remains is pending together with the extensions over that edge.\<close>

lemma pending_next:
  assumes "sr_stack st = f # fs" "fr_remaining f \<noteq> []"
  defines "st' \<equiv> st\<lparr>sr_stack := f\<lparr>fr_remaining := butlast (fr_remaining f)\<rparr> # fs\<rparr>"
  shows "pending g e (sr_visited st) (sr_path st) (sr_stack st) =
    pending g e (sr_visited st') (sr_path st') (sr_stack st')
    \<union> {sr_path st @ last (fr_remaining f) # q | q. extends g e (set (sr_visited st)) (fr_current f) (last (fr_remaining f) # q)}"
proof -
  have "leave_visited (f\<lparr>fr_remaining := butlast (fr_remaining f)\<rparr>) = leave_visited f"
    "leave_path (f\<lparr>fr_remaining := butlast (fr_remaining f)\<rparr>) = leave_path f"
    by (simp_all add: leave_visited_def leave_path_def fun_eq_iff)
  then show ?thesis using frame_paths_next [OF assms(2)] assms(1) by (simp add: st'_def Un_ac)
qed

lemma pending_next_disjoint:
  assumes "search_ok g e st" "sr_stack st = f # fs" "fr_remaining f \<noteq> []"
  defines "st' \<equiv> st\<lparr>sr_stack := f\<lparr>fr_remaining := butlast (fr_remaining f)\<rparr> # fs\<rparr>"
  shows "sr_path st @ last (fr_remaining f) # q \<notin> pending g e (sr_visited st') (sr_path st') (sr_stack st')"
proof -
  have ok: "stack_ok g (sr_visited st) (sr_path st) (f # fs)" using assms(1,2) by (simp add: search_ok_def)
  have "last (fr_remaining f) \<notin> set (butlast (fr_remaining f))"
    using stack_ok_frame(1) [OF ok] assms(3) by (metis append_butlast_last_id distinct_append insert_disjoint(1)
        inf_sup_aci(1) list.set(2))
  moreover have "sr_path st @ last (fr_remaining f) # q \<notin> pending g e (leave_visited f (sr_visited st)) (leave_path f (sr_path st)) fs"
    using pending_below [OF ok] by blast
  ultimately show ?thesis by (auto simp: st'_def frame_paths_def leave_visited_def leave_path_def)
qed

lemma search_skip:
  assumes ok: "search_ok g e st" and st: "sr_stack st = f # fs" "fr_remaining f \<noteq> []"
    and none: "\<And>q. \<not> extends g e (set (sr_visited st)) (fr_current f) (last (fr_remaining f) # q)"
  defines "st' \<equiv> st\<lparr>sr_stack := f\<lparr>fr_remaining := butlast (fr_remaining f)\<rparr> # fs\<rparr>"
  shows "search_ok g e st' \<and> to_find g e st' = to_find g e st"
proof -
  have "pending g e (sr_visited st) (sr_path st) (sr_stack st) = pending g e (sr_visited st') (sr_path st') (sr_stack st')"
    using pending_next [OF st, of g e] none by (simp add: st'_def)
  moreover have "stack_ok g (sr_visited st') (sr_path st') (sr_stack st')"
    using ok st stack_ok_next by (simp add: st'_def search_ok_def)
  ultimately show ?thesis using ok by (simp add: search_ok_def to_find_def st'_def)
qed

lemma search_found:
  assumes ok: "search_ok g e st" and st: "sr_stack st = f # fs" "fr_remaining f \<noteq> []"
    and hop: "hop g (fr_current f) (last (fr_remaining f)) = Some e" "e \<notin> set (sr_visited st)"
    and cost: "unat c = min (path_cost (weight g) (sr_path st @ [last (fr_remaining f)])) (2 ^ 32 - 1)"
  defines "st' \<equiv> st\<lparr>sr_stack := f\<lparr>fr_remaining := butlast (fr_remaining f)\<rparr> # fs,
      sr_results := sr_results st @ [(sr_path st @ [last (fr_remaining f)], c)]\<rparr>"
  shows "search_ok g e st' \<and> to_find g e st' = to_find g e st"
proof -
  have ext: "{sr_path st @ last (fr_remaining f) # q | q. extends g e (set (sr_visited st)) (fr_current f) (last (fr_remaining f) # q)}
      = {sr_path st @ [last (fr_remaining f)]}"
    using hop by (auto simp: extends_Cons_iff split: if_splits)
  have p: "pending g e (sr_visited st) (sr_path st) (sr_stack st) =
      insert (sr_path st @ [last (fr_remaining f)]) (pending g e (sr_visited st') (sr_path st') (sr_stack st'))"
    using pending_next [OF st, of g e] ext by (simp add: st'_def)
  have new: "sr_path st @ [last (fr_remaining f)] \<notin> pending g e (sr_visited st') (sr_path st') (sr_stack st')"
    using pending_next_disjoint [OF ok st, of "[]"] by (simp add: st'_def)
  have "stack_ok g (sr_visited st') (sr_path st') (sr_stack st')"
    using ok st stack_ok_next by (simp add: st'_def search_ok_def)
  moreover have "costs_ok g (sr_results st')" using ok cost by (auto simp: search_ok_def costs_ok_def st'_def)
  moreover have "distinct (map fst (sr_results st'))"
    using ok p by (auto simp: search_ok_def st'_def)
  moreover have "fst ` set (sr_results st') \<inter> pending g e (sr_visited st') (sr_path st') (sr_stack st') = {}"
    using ok p new unfolding search_ok_def by (simp add: st'_def)
  moreover have "to_find g e st' = to_find g e st" unfolding to_find_def p by (auto simp: st'_def)
  ultimately show ?thesis by (simp add: search_ok_def)
qed

lemma search_descend:
  assumes ok: "search_ok g e st" and st: "sr_stack st = f # fs" "fr_remaining f \<noteq> []" and wf: "graph_wf g"
    and hop: "hop g (fr_current f) (last (fr_remaining f)) = Some n" "n \<notin> set (sr_visited st)" "n \<noteq> e"
    and cost: "unat c = min (path_cost (weight g) (sr_path st @ [last (fr_remaining f)])) (2 ^ 32 - 1)"
    and nd: "hm_get (g_nodes g) n = Some nd"
  defines "st' \<equiv> st\<lparr>sr_visited := n # sr_visited st, sr_path := sr_path st @ [last (fr_remaining f)],
      sr_stack := \<lparr>fr_current = n, fr_remaining = nd_edges nd, fr_entered_via = Some (last (fr_remaining f)),
        fr_entered_neighbor = Some n, fr_cost = c\<rparr> # f\<lparr>fr_remaining := butlast (fr_remaining f)\<rparr> # fs\<rparr>"
  shows "search_ok g e st' \<and> to_find g e st' = to_find g e st"
proof -
  let ?l = "last (fr_remaining f)"
  let ?f = "f\<lparr>fr_remaining := butlast (fr_remaining f)\<rparr>"
  let ?f' = "\<lparr>fr_current = n, fr_remaining = nd_edges nd, fr_entered_via = Some ?l,
        fr_entered_neighbor = Some n, fr_cost = c\<rparr>"
  have stack: "stack_ok g (sr_visited st) (sr_path st) (f # fs)" using ok st by (simp add: search_ok_def)
  have "?l \<notin> set (fr_remaining ?f)"
    using stack_ok_frame(1) [OF stack] st(2) distinct_append [of "butlast (fr_remaining f)" "[?l]"] by simp
  moreover have "\<forall>l \<in> set (nd_edges nd). hop g n l \<noteq> None" using hop_other_end [OF wf nd] by blast
  ultimately have "stack_ok g (n # sr_visited st) (sr_path st @ [?l]) (?f' # ?f # fs)"
    using graph_wfD(3) [OF wf nd] cost hop(2) by (intro stack_push stack_ok_next [OF stack]) auto
  then have 1: "stack_ok g (sr_visited st') (sr_path st') (sr_stack st')" by (simp add: st'_def)
  have "frame_paths g e (set (n # sr_visited st)) ?f' (sr_path st @ [?l])
      = {sr_path st @ ?l # q | q. extends g e (set (sr_visited st)) (fr_current f) (?l # q)}"
  proof -
    have *: "extends g e (set (sr_visited st)) (fr_current f) (?l # q) \<longleftrightarrow> extends g e (insert n (set (sr_visited st))) n q" for q
      using hop by (simp add: extends_Cons_iff)
    have "\<exists>k q'. q = k # q' \<and> k \<in> set (nd_edges nd)" if ext: "extends g e V n q" for V q
    proof (cases q)
      case (Cons k q')
      then obtain v where "hop g n k = Some v" using ext by (auto simp: extends_def split: option.splits)
      then show ?thesis using hop_filed [OF wf] nd Cons by fastforce
    qed (use ext in \<open>simp add: extends_def\<close>)
    then show ?thesis unfolding * by (fastforce simp: frame_paths_def)
  qed
  moreover have "leave_visited ?f' (n # sr_visited st) = sr_visited st" "leave_path ?f' (sr_path st @ [?l]) = sr_path st"
    using hop(2) by (simp_all add: leave_visited_def leave_path_def)
  ultimately have 2: "pending g e (sr_visited st') (sr_path st') (sr_stack st')
      = pending g e (sr_visited st) (sr_path st) (sr_stack st)"
    using pending_next [OF st, of g e] by (auto simp: st'_def)
  from 1 2 ok show ?thesis by (simp add: search_ok_def to_find_def st'_def)
qed

lemma all_paths_loop_spec:
  assumes "graph_wf g" "search_ok g e st"
  shows "distinct (map fst (all_paths_loop g e st)) \<and> fst ` set (all_paths_loop g e st) = to_find g e st
    \<and> costs_ok g (all_paths_loop g e st)"
  using assms
proof (induction g e st rule: all_paths_loop.induct)
  case (1 g e st)
  note loop = all_paths_loop.simps [of g e st]
  show ?case
  proof (cases "sr_stack st")
    case Nil
    then show ?thesis using "1.prems" loop by (simp add: search_ok_def to_find_def)
  next
    case (Cons f fs)
    show ?thesis
    proof (cases "fr_remaining f = []")
      case True
      then show ?thesis
        using search_pop [OF "1.prems"(2) Cons True] "1.IH"(1) [OF Cons True "1.prems"(1)] loop Cons by simp
    next
      case False
      note skip = search_skip [OF "1.prems"(2) Cons False]
      have stack: "stack_ok g (sr_visited st) (sr_path st) (f # fs)" using "1.prems"(2) Cons by (simp add: search_ok_def)
      let ?l = "last (fr_remaining f)"
      have "hop g (fr_current f) ?l \<noteq> None" using stack_ok_frame(2) [OF stack] False by simp
      then obtain lk where lk: "hm_get (g_edges g) ?l = Some lk"
        and hop: "hop g (fr_current f) ?l = Some (other_end lk (fr_current f))"
        by (auto simp: hop_def other_end_def split: option.splits if_splits)
      let ?n = "other_end lk (fr_current f)" and ?c = "saturating_add (fr_cost f) (lk_cost lk)"
      have cost: "unat ?c = min (path_cost (weight g) (sr_path st @ [?l])) (2 ^ 32 - 1)"
        using stack_ok_frame(3) [OF stack] lk by (auto simp: saturating_add_unat weight_def min_def)
      let ?f = "f\<lparr>fr_remaining := butlast (fr_remaining f)\<rparr>"
      let ?st = "st\<lparr>sr_stack := ?f # fs\<rparr>"
      from hop_nodes [OF "1.prems"(1) hop] obtain nd where nd: "hm_get (g_nodes g) ?n = Some nd"
        unfolding hm_key_get by blast
      show ?thesis
      proof (cases "?n \<in> set (sr_visited st)")
        case True
        have "\<not> extends g e (set (sr_visited st)) (fr_current f) (?l # q)" for q
          using hop True by (simp add: extends_Cons_iff)
        note step = search_skip [OF "1.prems"(2) Cons False this]
        have "all_paths_loop g e st = all_paths_loop g e ?st" by (subst loop) (simp add: Cons False lk True Let_def)
        with step "1.IH"(3) [OF Cons False refl refl refl lk refl True "1.prems"(1)] show ?thesis by simp
      next
        case new: False
        show ?thesis
        proof (cases "?n = e")
          case True
          let ?st' = "?st\<lparr>sr_results := sr_results st @ [(sr_path st @ [?l], ?c)]\<rparr>"
          have "search_ok g e ?st' \<and> to_find g e ?st' = to_find g e st"
            using search_found [OF "1.prems"(2) Cons False hop [unfolded True] new [unfolded True] cost] by simp
          moreover have "all_paths_loop g e st = all_paths_loop g e ?st'"
            by (subst loop) (use new in \<open>simp add: Cons False lk True Let_def\<close>)
          ultimately show ?thesis
            using "1.IH"(4) [OF Cons False refl refl refl lk refl new refl True "1.prems"(1)] by simp
        next
          case far: False
          let ?st' = "?st\<lparr>sr_visited := List.insert ?n (sr_visited st), sr_path := sr_path st @ [?l],
            sr_stack := \<lparr>fr_current = ?n, fr_remaining = nd_edges nd, fr_entered_via = Some ?l,
              fr_entered_neighbor = Some ?n, fr_cost = ?c\<rparr> # ?f # fs\<rparr>"
          have "search_ok g e ?st' \<and> to_find g e ?st' = to_find g e st"
            using search_descend [OF "1.prems"(2) Cons False "1.prems"(1) hop new far cost nd] new by simp
          moreover have "all_paths_loop g e st = all_paths_loop g e ?st'"
            by (subst loop) (use new far in \<open>simp add: Cons False lk nd Let_def\<close>)
          ultimately show ?thesis
            using "1.IH"(6) [OF Cons False refl refl refl lk refl new refl far nd "1.prems"(1)] by simp
        qed
      qed
    qed
  qed
qed

subsection \<open>Properties\<close>

lemma get_all_paths_spec:
  assumes wf: "graph_wf g"
  shows "distinct (map fst (get_all_paths g a b))" "fst ` set (get_all_paths g a b) = {p. simple_path (hop g) a p b}"
    and "costs_ok g (get_all_paths g a b)"
proof -
  have "distinct (map fst (get_all_paths g a b)) \<and> fst ` set (get_all_paths g a b) = {p. simple_path (hop g) a p b}
      \<and> costs_ok g (get_all_paths g a b)"
  proof (cases "a = b")
    case True
    have "simple_path (hop g) b p b \<longleftrightarrow> p = []" for p using simple_path_ends_distinct by fastforce
    with True show ?thesis by (simp add: get_all_paths_def costs_ok_def)
  next
    case ne: False
    show ?thesis
    proof (cases "hm_get (g_nodes g) a")
      case None
      have "\<not> simple_path (hop g) a p b" for p
        using None ne hop_nodes [OF wf, of a] by (cases p) (auto simp: simple_path_def hm_key_get split: option.splits)
      with None ne show ?thesis by (simp add: get_all_paths_def costs_ok_def)
    next
      case (Some nd)
      let ?f = "\<lparr>fr_current = a, fr_remaining = nd_edges nd, fr_entered_via = None, fr_entered_neighbor = None, fr_cost = 0\<rparr>"
      let ?st = "\<lparr>sr_results = [], sr_visited = [a], sr_path = [], sr_stack = [?f]\<rparr>"
      have hops: "\<forall>l \<in> set (nd_edges nd). hop g a l \<noteq> None" using hop_other_end [OF wf Some] by blast
      then have "search_ok g b ?st"
        using graph_wfD(3) [OF wf Some] by (auto simp: search_ok_def costs_ok_def intro!: stack_bottom)
      moreover have "to_find g b ?st = {p. simple_path (hop g) a p b}"
      proof -
        have "p \<noteq> []" "hop g a (hd p) \<noteq> None" if "extends g b {a} a p" for p
          using that by (cases p; auto simp: extends_def split: option.splits)+
        then have "extends g b {a} a p \<Longrightarrow> \<exists>l q. p = l # q \<and> l \<in> set (nd_edges nd)" for p
          using hop_filed [OF wf, of a] Some by (cases p) fastforce+
        then have "frame_paths g b {a} ?f [] = {p. extends g b {a} a p}"
          unfolding frame_paths_def by fastforce
        then show ?thesis using extends_start [OF ne] by (simp add: to_find_def)
      qed
      ultimately show ?thesis
        using all_paths_loop_spec [OF wf, of b ?st] ne Some by (simp add: get_all_paths_def)
    qed
  qed
  then show "distinct (map fst (get_all_paths g a b))" "fst ` set (get_all_paths g a b) = {p. simple_path (hop g) a p b}"
    "costs_ok g (get_all_paths g a b)" by blast+
qed

lemma get_all_paths_mem:
  assumes "graph_wf g"
  shows "(p, c) \<in> set (get_all_paths g a b) \<longleftrightarrow>
    simple_path (hop g) a p b \<and> unat c = min (path_cost (weight g) p) (2 ^ 32 - 1)"
proof
  note spec = get_all_paths_spec [OF assms, of a b]
  show "simple_path (hop g) a p b \<and> unat c = min (path_cost (weight g) p) (2 ^ 32 - 1)"
    if "(p, c) \<in> set (get_all_paths g a b)"
    using that spec(2,3) by (force simp: costs_ok_def)
  assume *: "simple_path (hop g) a p b \<and> unat c = min (path_cost (weight g) p) (2 ^ 32 - 1)"
  then obtain c' where c': "(p, c') \<in> set (get_all_paths g a b)" using spec(2) by force
  then have "unat c' = unat c" using spec(3) * by (auto simp: costs_ok_def)
  with c' show "(p, c) \<in> set (get_all_paths g a b)" by (simp add: word_unat_eq_iff [symmetric])
qed

text \<open>C23. The search for all paths is sound and complete: in a well-formed graph it ends, and it lists exactly the
  simple paths from one node to the other, each of them once, with the sum of its link costs cut off at the
  largest \<open>u32\<close>.\<close>

theorem get_all_paths_correct:
  assumes "graph_wf g"
  shows "distinct (map fst (get_all_paths g a b)) \<and>
    (\<forall>p c. (p, c) \<in> set (get_all_paths g a b) \<longleftrightarrow>
       simple_path (hop g) a p b \<and> unat c = min (path_cost (weight g) p) (2 ^ 32 - 1))"
  using get_all_paths_spec(1) [OF assms] get_all_paths_mem [OF assms] by blast

theorem get_all_paths_correct_witness:
  "([LinkId ''ab'', LinkId ''bc''], 6) \<in> set (get_all_paths triangle node_a node_c)
   \<and> ([LinkId ''ac''], 10) \<in> set (get_all_paths triangle node_a node_c)"
  using get_all_paths_correct [OF triangle_wf, of node_a node_c]
  by (simp add: simple_path_def hop_def weight_def triangle_def node_a_def node_b_def node_c_def)

end
