(* ===== verification/Route_Cache.thy ===== *)
theory Route_Cache
  imports All_Paths
begin

text \<open>
  The public \<^verbatim>\<open>Router\<close> of \<^verbatim>\<open>vs/src/router.rs\<close>: the topology graph with a cache of the routes between pairs of nodes, a
  reverse index from links to cache keys, and a generation counter.

  An operation that takes the write lock is a function from the locked state to the new state and the value returned;
  an operation under the read lock is a function of the state. \<^verbatim>\<open>get_routes\<close> takes the locks twice, so it is two
  functions, between which other threads may run: the step relation \<open>router_step\<close> interleaves them.

  The invariant \<open>router_inv\<close> says that the cached routes are those of the current topology and that the reverse index is
  exact; it is what makes the targeted eviction of \<^verbatim>\<open>remove_link\<close> and \<^verbatim>\<open>remove_node\<close> sound.
\<close>

subsection \<open>State\<close>

record route_cache_key =
  ck_a :: node_id
  ck_b :: node_id
  ck_hint :: "route_hint option"

record router_inner =
  ri_topology :: graph
  ri_route_cache :: "(route_cache_key, route list) hashmap"
  ri_link_to_cache_keys :: "(link_id, route_cache_key list) hashmap"
  ri_topo_generation :: u64

record router_link =
  rl_a :: ip_addr
  rl_b :: ip_addr
  rl_id :: link_id
  rl_attributes :: "attribute list"
  rl_cost :: u32

record link_spec =
  ls_a :: ip_addr
  ls_b :: ip_addr
  ls_id :: link_id
  ls_attributes :: "attribute list"
  ls_cost :: u32

definition router_new :: router_inner where
  "router_new = \<lparr>ri_topology = graph_default, ri_route_cache = [], ri_link_to_cache_keys = [], ri_topo_generation = 0\<rparr>"

subsection \<open>Eviction\<close>

definition unindex :: "route_cache_key \<Rightarrow> link_id \<Rightarrow> router_inner \<Rightarrow> router_inner" where
  "unindex key l inner =
     (case hm_get (ri_link_to_cache_keys inner) l of
        None \<Rightarrow> inner
      | Some s \<Rightarrow>
          let s' = removeAll key s
          in inner\<lparr>ri_link_to_cache_keys :=
               (if s' = [] then hm_remove l (ri_link_to_cache_keys inner)
                else hm_insert l s' (ri_link_to_cache_keys inner))\<rparr>)"

definition invalidate_key :: "route_cache_key \<Rightarrow> router_inner \<Rightarrow> router_inner" where
  "invalidate_key key inner =
     (case hm_get (ri_route_cache inner) key of
        None \<Rightarrow> inner
      | Some routes \<Rightarrow>
          let affected_links = remdups (concat (map rt_links routes))
          in fold (unindex key) affected_links (inner\<lparr>ri_route_cache := hm_remove key (ri_route_cache inner)\<rparr>))"

definition invalidate_keys :: "route_cache_key list \<Rightarrow> router_inner \<Rightarrow> router_inner" where
  "invalidate_keys ks inner = fold invalidate_key ks inner"

definition flush :: "router_inner \<Rightarrow> router_inner" where
  "flush inner = inner\<lparr>ri_route_cache := [], ri_link_to_cache_keys := []\<rparr>"

definition bump :: "router_inner \<Rightarrow> router_inner" where
  "bump inner = inner\<lparr>ri_topo_generation := ri_topo_generation inner + 1\<rparr>"

subsection \<open>Operations under the write lock\<close>

definition router_add_node :: "ip_addr \<Rightarrow> router_inner \<Rightarrow> router_inner \<times> (topology_error, unit) result" where
  "router_add_node addr inner =
     (case graph_add_node (NodeId addr) (ri_topology inner) of
        Inl e \<Rightarrow> (inner, Inl e)
      | Inr (g, _) \<Rightarrow> (bump (inner\<lparr>ri_topology := g\<rparr>), Inr ()))"

definition router_remove_node :: "ip_addr \<Rightarrow> router_inner \<Rightarrow> router_inner \<times> (topology_error, unit) result" where
  "router_remove_node addr inner =
     (let nid = NodeId addr;
          incident = (case hm_get (g_nodes (ri_topology inner)) nid of None \<Rightarrow> [] | Some nd \<Rightarrow> nd_edges nd);
          ks = remdups (concat (map (\<lambda>l. case hm_get (ri_link_to_cache_keys inner) l of None \<Rightarrow> [] | Some s \<Rightarrow> s) incident));
          inner1 = invalidate_keys ks inner;
          endpoint_keys = filter (\<lambda>k. ck_a k = nid \<or> ck_b k = nid) (hm_keys (ri_route_cache inner1));
          inner2 = invalidate_keys endpoint_keys inner1
      in (case graph_remove_node nid (ri_topology inner2) of
            Inl e \<Rightarrow> (inner2, Inl e)
          | Inr (g, _) \<Rightarrow> (bump (inner2\<lparr>ri_topology := g\<rparr>), Inr ())))"

definition router_add_link ::
  "ip_addr \<Rightarrow> ip_addr \<Rightarrow> link_id \<Rightarrow> attribute list \<Rightarrow> u32 \<Rightarrow> router_inner \<Rightarrow> router_inner \<times> (topology_error, unit) result" where
  "router_add_link a b l ats cost inner =
     (let inner1 = flush inner
      in (case graph_add_link (NodeId a) (NodeId b) l ats cost (ri_topology inner1) of
            Inl e \<Rightarrow> (inner1, Inl e)
          | Inr g \<Rightarrow> (bump (inner1\<lparr>ri_topology := g\<rparr>), Inr ())))"

fun remove_links :: "link_id list \<Rightarrow> graph \<Rightarrow> (topology_error, graph) result" where
  "remove_links [] g = Inr g"
| "remove_links (l # ls) g = bind (graph_remove_link l g) (\<lambda>(g', _). remove_links ls g')"

text \<open>The loop over the additions: on an error the links added so far are removed again, the latest first.\<close>

fun install_links :: "link_spec list \<Rightarrow> link_id list \<Rightarrow> graph \<Rightarrow> graph \<times> (topology_error, unit) result" where
  "install_links [] added g = (g, Inr ())"
| "install_links (s # ss) added g =
     (case graph_add_link (NodeId (ls_a s)) (NodeId (ls_b s)) (ls_id s) (ls_attributes s) (ls_cost s) g of
        Inl e \<Rightarrow>
          (case remove_links (rev added) g of
             Inl _ \<Rightarrow> (g, Inl Panic)
           | Inr g' \<Rightarrow> (g', Inl e))
      | Inr g' \<Rightarrow> install_links ss (added @ [ls_id s]) g')"

definition apply_link_batch ::
  "link_id list \<Rightarrow> link_spec list \<Rightarrow> router_inner \<Rightarrow> router_inner \<times> (topology_error, unit) result" where
  "apply_link_batch removals additions inner =
     (case remove_links removals (ri_topology inner) of
        Inl e \<Rightarrow> (inner, Inl e)
      | Inr g \<Rightarrow>
          (case install_links additions [] g of
             (g', r) \<Rightarrow> (bump (flush (inner\<lparr>ri_topology := g'\<rparr>)), r)))"

definition router_remove_link :: "link_id \<Rightarrow> router_inner \<Rightarrow> router_inner \<times> (topology_error, unit) result" where
  "router_remove_link l inner =
     (let ks = (case hm_get (ri_link_to_cache_keys inner) l of None \<Rightarrow> [] | Some s \<Rightarrow> s);
          inner1 = invalidate_keys ks inner;
          inner2 = inner1\<lparr>ri_link_to_cache_keys := hm_remove l (ri_link_to_cache_keys inner1)\<rparr>
      in (case graph_remove_link l (ri_topology inner2) of
            Inl e \<Rightarrow> (inner2, Inl e)
          | Inr (g, _) \<Rightarrow> (bump (inner2\<lparr>ri_topology := g\<rparr>), Inr ())))"

definition replace_link_between ::
  "ip_addr \<Rightarrow> ip_addr \<Rightarrow> link_id \<Rightarrow> attribute list \<Rightarrow> u32 \<Rightarrow> router_inner \<Rightarrow> router_inner \<times> (topology_error, unit) result" where
  "replace_link_between a b l ats cost inner =
     (case replace_link (NodeId a) (NodeId b) l ats cost (ri_topology inner) of
        Inl e \<Rightarrow> (inner, Inl e)
      | Inr g \<Rightarrow> (bump (flush (inner\<lparr>ri_topology := g\<rparr>)), Inr ()))"

subsection \<open>Operations under the read lock\<close>

definition has_node :: "router_inner \<Rightarrow> ip_addr \<Rightarrow> bool" where
  "has_node inner addr \<longleftrightarrow> hm_get (g_nodes (ri_topology inner)) (NodeId addr) \<noteq> None"

fun walk_links :: "graph \<Rightarrow> link_id list \<Rightarrow> node_id \<Rightarrow> node_id list \<Rightarrow> (topology_error, node_id list) result" where
  "walk_links g [] current path = Inr path"
| "walk_links g (l # ls) current path =
     (case graph_link g l of
        None \<Rightarrow> Inl (Err (LinkNotFound (Some l)))
      | Some lk \<Rightarrow>
          if lk_a lk = current then walk_links g ls (lk_b lk) (path @ [lk_b lk])
          else if lk_b lk = current then walk_links g ls (lk_a lk) (path @ [lk_a lk])
          else Inl (Err (NodeNotFound current)))"

definition route_to_path :: "router_inner \<Rightarrow> route \<Rightarrow> node_id \<Rightarrow> (topology_error, node_id list) result" where
  "route_to_path inner r start =
     (case rt_kind r of
        DirectSameNode nid \<Rightarrow> if nid \<noteq> start then Inl (Err (NodeNotFound start)) else Inr [start]
      | Multihop \<Rightarrow> walk_links (ri_topology inner) (rt_links r) start [start])"

definition router_link_of :: "link_id \<Rightarrow> link \<Rightarrow> router_link" where
  "router_link_of l lk = \<lparr>rl_a = node_ip (lk_a lk), rl_b = node_ip (lk_b lk), rl_id = l,
     rl_attributes = lk_attributes lk, rl_cost = lk_cost lk\<rparr>"

definition link_between :: "router_inner \<Rightarrow> ip_addr \<Rightarrow> ip_addr \<Rightarrow> router_link option" where
  "link_between inner a b =
     (case link_id_between (ri_topology inner) (NodeId a) (NodeId b) of
        None \<Rightarrow> None
      | Some l \<Rightarrow> map_option (router_link_of l) (hm_get (g_edges (ri_topology inner)) l))"

definition link_snapshot :: "router_inner \<Rightarrow> router_link list" where
  "link_snapshot inner = map (\<lambda>(l, lk). router_link_of l lk) (g_edges (ri_topology inner))"

definition get_peers :: "router_inner \<Rightarrow> ip_addr \<Rightarrow> ip_addr list" where
  "get_peers inner addr =
     (case neighbors (ri_topology inner) (NodeId addr) of None \<Rightarrow> [] | Some ns \<Rightarrow> map node_ip ns)"

definition get_best_route :: "router_inner \<Rightarrow> ip_addr \<Rightarrow> ip_addr \<Rightarrow> route option" where
  "get_best_route inner addr_a addr_b =
     (let a = NodeId addr_a; b = NodeId addr_b
      in if a = b then Some \<lparr>rt_kind = DirectSameNode a, rt_links = [], rt_cost = 0\<rparr>
         else map_option (\<lambda>(links, cost). \<lparr>rt_kind = Multihop, rt_links = links, rt_cost = cost\<rparr>)
           (get_low_cost_path (ri_topology inner) a b))"

definition compute_routes :: "graph \<Rightarrow> ip_addr \<Rightarrow> ip_addr \<Rightarrow> route_hint option \<Rightarrow> route list" where
  "compute_routes g addr_a addr_b hint =
     (let a = NodeId addr_a; b = NodeId addr_b
      in if a = b then [\<lparr>rt_kind = DirectSameNode a, rt_links = [], rt_cost = 0\<rparr>]
         else map (\<lambda>(links, cost). \<lparr>rt_kind = Multihop, rt_links = links, rt_cost = cost\<rparr>) (get_all_paths g a b))"

subsection \<open>Looking up routes\<close>

text \<open>The first half of \<^verbatim>\<open>get_routes\<close>, under the read lock: a cache hit, or the routes computed at a generation.\<close>

datatype route_lookup = RouteHit "route list" | RouteMiss u64 "route list"

definition cache_key :: "ip_addr \<Rightarrow> ip_addr \<Rightarrow> route_hint option \<Rightarrow> route_cache_key" where
  "cache_key a b hint = \<lparr>ck_a = NodeId a, ck_b = NodeId b, ck_hint = hint\<rparr>"

definition get_routes_read :: "router_inner \<Rightarrow> ip_addr \<Rightarrow> ip_addr \<Rightarrow> route_hint option \<Rightarrow> route_lookup" where
  "get_routes_read inner a b hint =
     (case hm_get (ri_route_cache inner) (cache_key a b hint) of
        Some routes \<Rightarrow> RouteHit routes
      | None \<Rightarrow> RouteMiss (ri_topo_generation inner) (compute_routes (ri_topology inner) a b hint))"

text \<open>\<^verbatim>\<open>link_to_cache_keys.entry(l).or_default().insert(key)\<close>.\<close>

definition index_link ::
  "route_cache_key \<Rightarrow> link_id \<Rightarrow> (link_id, route_cache_key list) hashmap \<Rightarrow> (link_id, route_cache_key list) hashmap" where
  "index_link key l m = hm_insert l (List.insert key (case hm_get m l of None \<Rightarrow> [] | Some s \<Rightarrow> s)) m"

text \<open>The second half, under the write lock.\<close>

definition get_routes_commit ::
  "ip_addr \<Rightarrow> ip_addr \<Rightarrow> route_hint option \<Rightarrow> u64 \<Rightarrow> route list \<Rightarrow> router_inner \<Rightarrow> router_inner \<times> route list" where
  "get_routes_commit a b hint topo_gen computed inner =
     (let key = cache_key a b hint
      in if ri_topo_generation inner \<noteq> topo_gen then (inner, compute_routes (ri_topology inner) a b hint)
         else (case hm_get (ri_route_cache inner) key of
                 Some routes \<Rightarrow> (inner, routes)
               | None \<Rightarrow>
                   (inner\<lparr>ri_link_to_cache_keys :=
                        fold (\<lambda>r m. fold (index_link key) (rt_links r) m) computed (ri_link_to_cache_keys inner),
                      ri_route_cache := hm_insert key computed (ri_route_cache inner)\<rparr>, computed)))"

subsection \<open>The routes of a topology\<close>

definition routes_of :: "graph \<Rightarrow> node_id \<Rightarrow> node_id \<Rightarrow> route set" where
  "routes_of g a b =
     (if a = b then {new_direct a}
      else {\<lparr>rt_kind = Multihop, rt_links = p, rt_cost = c\<rparr> | p c.
              simple_path (hop g) a p b \<and> unat c = min (path_cost (weight g) p) (2 ^ 32 - 1)})"

definition correct_routes :: "graph \<Rightarrow> node_id \<Rightarrow> node_id \<Rightarrow> route list \<Rightarrow> bool" where
  "correct_routes g a b rs \<longleftrightarrow> distinct rs \<and> set rs = routes_of g a b"

lemma compute_routes_correct:
  assumes "graph_wf g"
  shows "correct_routes g (NodeId a) (NodeId b) (compute_routes g a b hint)"
proof (cases "a = b")
  case True
  then show ?thesis by (simp add: correct_routes_def compute_routes_def routes_of_def new_direct_def)
next
  case False
  have "inj_on (\<lambda>(links, cost). \<lparr>rt_kind = Multihop, rt_links = links, rt_cost = cost\<rparr>) A" for A
    by (auto simp: inj_on_def)
  moreover have "distinct (get_all_paths g (NodeId a) (NodeId b))"
    using get_all_paths_spec(1) [OF assms] by (rule distinct_map [THEN iffD1, THEN conjunct1])
  ultimately have "distinct (compute_routes g a b hint)"
    using False by (simp add: compute_routes_def distinct_map)
  moreover have "set (compute_routes g a b hint) = {\<lparr>rt_kind = Multihop, rt_links = p, rt_cost = c\<rparr> | p c.
      (p, c) \<in> set (get_all_paths g (NodeId a) (NodeId b))}"
    using False by (force simp: compute_routes_def)
  ultimately show ?thesis
    using False by (simp add: correct_routes_def routes_of_def get_all_paths_mem [OF assms])
qed

text \<open>Removing links removes the routes over them and leaves all others as they are.\<close>

lemma simple_path_without:
  assumes "\<And>u l. hop g' u l = (if l \<in> L then None else hop g u l)"
  shows "simple_path (hop g') a p b \<longleftrightarrow> simple_path (hop g) a p b \<and> set p \<inter> L = {}"
proof (cases "set p \<inter> L = {}")
  case True
  then have "l \<in> set p \<Longrightarrow> hop g' x l = hop g x l" for x l using assms by auto
  with True simple_path_cong [of p "hop g'" "hop g" a b] show ?thesis by blast
next
  case False
  then have "follow (hop g') u p = None" for u
    by (induction p arbitrary: u) (fastforce simp: assms split: option.splits)+
  with False show ?thesis by (simp add: simple_path_def)
qed

lemma routes_of_without:
  assumes "\<And>u l. hop g' u l = (if l \<in> L then None else hop g u l)" "\<And>l. l \<notin> L \<Longrightarrow> weight g' l = weight g l"
  shows "routes_of g' a b = {r \<in> routes_of g a b. set (rt_links r) \<inter> L = {}}"
proof -
  have "path_cost (weight g') p = path_cost (weight g) p" if "set p \<inter> L = {}" for p
    using that assms(2) by (induction p) auto
  then show ?thesis
    by (auto simp: routes_of_def simple_path_without [OF assms(1)] new_direct_def)
qed

subsection \<open>Cache and index\<close>

definition indexed :: "(link_id, route_cache_key list) hashmap \<Rightarrow> link_id \<Rightarrow> route_cache_key list" where
  "indexed m l = (case hm_get m l of None \<Rightarrow> [] | Some s \<Rightarrow> s)"

definition links_of :: "route list \<Rightarrow> link_id set" where
  "links_of rs = (\<Union>r \<in> set rs. set (rt_links r))"

text \<open>The reverse index is exact: it never misses a cached route and never keeps a key that was evicted.\<close>

definition index_ok :: "router_inner \<Rightarrow> bool" where
  "index_ok inner \<longleftrightarrow> hm_wf (ri_route_cache inner) \<and>
     (\<forall>l key. key \<in> set (indexed (ri_link_to_cache_keys inner) l) \<longleftrightarrow>
        (\<exists>rs. hm_get (ri_route_cache inner) key = Some rs \<and> l \<in> links_of rs))"

lemma index_okD:
  "index_ok inner \<Longrightarrow> key \<in> set (indexed (ri_link_to_cache_keys inner) l) \<longleftrightarrow>
     (\<exists>rs. hm_get (ri_route_cache inner) key = Some rs \<and> l \<in> links_of rs)"
  by (simp add: index_ok_def)

text \<open>The cached routes are the routes of a topology.\<close>

definition cache_ok :: "graph \<Rightarrow> router_inner \<Rightarrow> bool" where
  "cache_ok g inner \<longleftrightarrow>
     (\<forall>key rs. hm_get (ri_route_cache inner) key = Some rs \<longrightarrow> correct_routes g (ck_a key) (ck_b key) rs)"

lemma cache_okD:
  "cache_ok g inner \<Longrightarrow> hm_get (ri_route_cache inner) key = Some rs \<Longrightarrow> correct_routes g (ck_a key) (ck_b key) rs"
  by (simp add: cache_ok_def)

definition router_inv :: "router_inner \<Rightarrow> bool" where
  "router_inv inner \<longleftrightarrow> graph_inv (ri_topology inner) \<and> index_ok inner \<and> cache_ok (ri_topology inner) inner"

text \<open>What eviction and lookup leave alone.\<close>

definition same_topology :: "router_inner \<Rightarrow> router_inner \<Rightarrow> bool" where
  "same_topology inner inner' \<longleftrightarrow> ri_topology inner' = ri_topology inner \<and> ri_topo_generation inner' = ri_topo_generation inner"

lemma unindex_simps [simp]:
  "ri_route_cache (unindex key l inner) = ri_route_cache inner"
  "ri_topology (unindex key l inner) = ri_topology inner"
  "ri_topo_generation (unindex key l inner) = ri_topo_generation inner"
  "set (indexed (ri_link_to_cache_keys (unindex key l inner)) k) =
     (if k = l then set (indexed (ri_link_to_cache_keys inner) k) - {key} else set (indexed (ri_link_to_cache_keys inner) k))"
  by (auto simp: unindex_def indexed_def Let_def split: option.splits)
    (metis DiffI empty_iff insert_iff list.set(1) set_removeAll)+

lemma fold_unindex_simps [simp]:
  "ri_route_cache (fold (unindex key) ls inner) = ri_route_cache inner"
  "ri_topology (fold (unindex key) ls inner) = ri_topology inner"
  "ri_topo_generation (fold (unindex key) ls inner) = ri_topo_generation inner"
  "set (indexed (ri_link_to_cache_keys (fold (unindex key) ls inner)) k) =
     (if k \<in> set ls then set (indexed (ri_link_to_cache_keys inner) k) - {key} else set (indexed (ri_link_to_cache_keys inner) k))"
  by (induction ls arbitrary: inner) auto

lemma invalidate_key_spec:
  assumes "index_ok inner"
  shows "index_ok (invalidate_key key inner)" "same_topology inner (invalidate_key key inner)"
    and "hm_get (ri_route_cache (invalidate_key key inner)) k = (if k = key then None else hm_get (ri_route_cache inner) k)"
proof -
  show "same_topology inner (invalidate_key key inner)"
    by (simp add: invalidate_key_def same_topology_def Let_def split: option.splits)
  show "hm_get (ri_route_cache (invalidate_key key inner)) k = (if k = key then None else hm_get (ri_route_cache inner) k)" for k
    by (simp add: invalidate_key_def Let_def split: option.splits)
  show "index_ok (invalidate_key key inner)"
  proof (cases "hm_get (ri_route_cache inner) key")
    case None
    then show ?thesis using assms by (simp add: invalidate_key_def)
  next
    case (Some rs)
    have "key' \<in> set (indexed (ri_link_to_cache_keys (invalidate_key key inner)) l) \<longleftrightarrow>
        (\<exists>rs. hm_get (ri_route_cache (invalidate_key key inner)) key' = Some rs \<and> l \<in> links_of rs)" for l key'
      using assms Some by (auto simp: invalidate_key_def index_ok_def Let_def links_of_def)
    moreover have "hm_wf (ri_route_cache (invalidate_key key inner))"
      using assms Some by (simp add: invalidate_key_def index_ok_def Let_def distinct_delete)
    ultimately show ?thesis by (simp add: index_ok_def)
  qed
qed

lemma invalidate_keys_spec:
  assumes "index_ok inner"
  shows "index_ok (invalidate_keys ks inner)" "same_topology inner (invalidate_keys ks inner)"
    and "hm_get (ri_route_cache (invalidate_keys ks inner)) k = (if k \<in> set ks then None else hm_get (ri_route_cache inner) k)"
proof -
  have "index_ok (invalidate_keys ks inner) \<and> same_topology inner (invalidate_keys ks inner)
    \<and> hm_get (ri_route_cache (invalidate_keys ks inner)) k = (if k \<in> set ks then None else hm_get (ri_route_cache inner) k)"
    unfolding invalidate_keys_def using assms
    by (induction ks arbitrary: inner) (auto simp: invalidate_key_spec same_topology_def dest: invalidate_key_spec(2))
  then show "index_ok (invalidate_keys ks inner)" "same_topology inner (invalidate_keys ks inner)"
    "hm_get (ri_route_cache (invalidate_keys ks inner)) k = (if k \<in> set ks then None else hm_get (ri_route_cache inner) k)"
    by blast+
qed

subsection \<open>The write operations keep the invariant\<close>

lemma cache_ok_without:
  assumes "cache_ok g inner" "\<And>u l. hop g' u l = (if l \<in> L then None else hop g u l)"
    and "\<And>l. l \<notin> L \<Longrightarrow> weight g' l = weight g l"
    and "\<And>key rs. hm_get (ri_route_cache inner) key = Some rs \<Longrightarrow> links_of rs \<inter> L = {}"
  shows "cache_ok g' inner"
  unfolding cache_ok_def
proof (intro allI impI)
  fix key rs assume rs: "hm_get (ri_route_cache inner) key = Some rs"
  then have *: "distinct rs" "set rs = routes_of g (ck_a key) (ck_b key)"
    using assms(1) by (auto simp: cache_ok_def correct_routes_def)
  have "routes_of g' (ck_a key) (ck_b key) = {r \<in> set rs. set (rt_links r) \<inter> L = {}}"
    unfolding *(2) by (rule routes_of_without [OF assms(2,3)])
  also have "\<dots> = set rs" using assms(4) [OF rs] by (auto simp: links_of_def)
  finally show "correct_routes g' (ck_a key) (ck_b key) rs" using * by (simp add: correct_routes_def)
qed

lemma hop_weight_without:
  assumes "\<And>l. hm_get (g_edges g') l = (if l \<in> L then None else hm_get (g_edges g) l)"
  shows "hop g' u l = (if l \<in> L then None else hop g u l)" "l \<notin> L \<Longrightarrow> weight g' l = weight g l"
  by (simp_all add: hop_def weight_def assms)

lemma evicted_links:
  assumes "index_ok inner" "\<And>l. l \<in> L \<Longrightarrow> set (indexed (ri_link_to_cache_keys inner) l) \<subseteq> set ks"
    and "hm_get (ri_route_cache (invalidate_keys ks inner)) key = Some rs"
  shows "links_of rs \<inter> L = {}"
  using assms invalidate_keys_spec(3) [OF assms(1)] by (fastforce simp: index_ok_def split: if_splits)

lemma router_inv_flush: "graph_inv g \<Longrightarrow> router_inv (bump (flush (inner\<lparr>ri_topology := g\<rparr>)))"
  by (simp add: router_inv_def bump_def flush_def index_ok_def cache_ok_def indexed_def)

lemma remove_links_spec:
  assumes "graph_inv g"
  shows "\<exists>g'. remove_links ls g = Inr g' \<and> graph_inv g' \<and> hm_keys (g_nodes g') = hm_keys (g_nodes g)
    \<and> (\<forall>l. hm_get (g_edges g') l = (if l \<in> set ls then None else hm_get (g_edges g) l))"
  using assms
proof (induction ls arbitrary: g)
  case (Cons l ls)
  obtain g1 where g1: "graph_remove_link l g = (Inr (g1, hm_get (g_edges g) l) :: (topology_error, graph \<times> link option) result)"
    "graph_inv g1" "g_edges g1 = hm_remove l (g_edges g)" "hm_keys (g_nodes g1) = hm_keys (g_nodes g)"
    by (rule graph_remove_link_spec [OF Cons.prems])
  from Cons.IH [OF g1(2)] obtain g' where "remove_links ls g1 = Inr g'" "graph_inv g'"
    "hm_keys (g_nodes g') = hm_keys (g_nodes g1)"
    "\<forall>l. hm_get (g_edges g') l = (if l \<in> set ls then None else hm_get (g_edges g1) l)" by blast
  with g1 show ?case by auto
qed simp

definition spec_link :: "link_spec \<Rightarrow> link" where
  "spec_link s = \<lparr>lk_a = NodeId (ls_a s), lk_b = NodeId (ls_b s), lk_attributes = ls_attributes s, lk_cost = ls_cost s\<rparr>"

lemma install_links_spec:
  assumes "graph_inv g"
  shows "\<exists>g' r. install_links ss added g = (g', r) \<and> graph_inv g' \<and> hm_keys (g_nodes g') = hm_keys (g_nodes g)
    \<and> (case r of
         Inl f \<Rightarrow> f \<noteq> Panic \<and> (\<forall>l. hm_get (g_edges g') l = (if l \<in> set added then None else hm_get (g_edges g) l))
       | Inr _ \<Rightarrow> distinct (map ls_id ss)
           \<and> (\<forall>l. hm_get (g_edges g') l =
                (case find (\<lambda>s. ls_id s = l) ss of Some s \<Rightarrow> Some (spec_link s) | None \<Rightarrow> hm_get (g_edges g) l))
           \<and> (\<forall>s \<in> set ss. hm_get (g_edges g) (ls_id s) = None))"
  using assms
proof (induction ss arbitrary: added g)
  case (Cons s ss)
  let ?add = "graph_add_link (NodeId (ls_a s)) (NodeId (ls_b s)) (ls_id s) (ls_attributes s) (ls_cost s) g"
  consider (error) e where "?add = Inl (Err e)"
    | (ok) g1 where "?add = Inr g1" "graph_inv g1" "hm_get (g_edges g) (ls_id s) = None"
        "g_edges g1 = hm_insert (ls_id s) (spec_link s) (g_edges g)" "hm_keys (g_nodes g1) = hm_keys (g_nodes g)"
    unfolding spec_link_def by (rule graph_add_link_cases [OF Cons.prems])
  then show ?case
  proof cases
    case error
    then show ?thesis using remove_links_spec [OF Cons.prems, of "rev added"] by auto
  next
    case (ok g1)
    from Cons.IH [OF ok(2), of "added @ [ls_id s]"] obtain g' r where
      r: "install_links ss (added @ [ls_id s]) g1 = (g', r)" "graph_inv g'" "hm_keys (g_nodes g') = hm_keys (g_nodes g1)"
      and res: "case r of
         Inl f \<Rightarrow> f \<noteq> Panic \<and>
           (\<forall>l. hm_get (g_edges g') l = (if l \<in> set (added @ [ls_id s]) then None else hm_get (g_edges g1) l))
       | Inr _ \<Rightarrow> distinct (map ls_id ss)
           \<and> (\<forall>l. hm_get (g_edges g') l =
                (case find (\<lambda>s. ls_id s = l) ss of Some s \<Rightarrow> Some (spec_link s) | None \<Rightarrow> hm_get (g_edges g1) l))
           \<and> (\<forall>s \<in> set ss. hm_get (g_edges g1) (ls_id s) = None)" by blast
    have "install_links (s # ss) added g = (g', r)" using ok(1) r(1) by simp
    moreover have "case r of
         Inl f \<Rightarrow> f \<noteq> Panic \<and> (\<forall>l. hm_get (g_edges g') l = (if l \<in> set added then None else hm_get (g_edges g) l))
       | Inr _ \<Rightarrow> distinct (map ls_id (s # ss))
           \<and> (\<forall>l. hm_get (g_edges g') l =
                (case find (\<lambda>s. ls_id s = l) (s # ss) of Some s \<Rightarrow> Some (spec_link s) | None \<Rightarrow> hm_get (g_edges g) l))
           \<and> (\<forall>s \<in> set (s # ss). hm_get (g_edges g) (ls_id s) = None)"
    proof (cases r)
      case (Inl f)
      then show ?thesis using res ok(3) by (auto simp: ok(4))
    next
      case (Inr u)
      then have new: "\<forall>t \<in> set ss. ls_id t \<noteq> ls_id s \<and> hm_get (g_edges g) (ls_id t) = None"
        using res by (auto simp: ok(4) split: if_splits)
      then have "find (\<lambda>t. ls_id t = ls_id s) ss = None" by (auto simp: find_None_iff)
      with Inr res new show ?thesis using ok(3) by (auto simp: ok(4) split: option.splits)
    qed
    ultimately show ?thesis using r(2,3) ok(5) by auto
  qed
qed simp

text \<open>Every write operation returns, keeps the invariant, and either counts the generation up or leaves the topology as
  it was.\<close>

definition op_ok :: "router_inner \<Rightarrow> router_inner \<times> (topology_error, unit) result \<Rightarrow> bool" where
  "op_ok inner r \<longleftrightarrow> router_inv (fst r) \<and> snd r \<noteq> Inl Panic \<and>
     (ri_topo_generation (fst r) = ri_topo_generation inner + 1 \<or> same_topology inner (fst r))"

lemma router_invD:
  "router_inv inner \<Longrightarrow> graph_inv (ri_topology inner)" "router_inv inner \<Longrightarrow> index_ok inner"
  "router_inv inner \<Longrightarrow> cache_ok (ri_topology inner) inner"
  by (simp_all add: router_inv_def)

lemma op_ok_error: "router_inv inner \<Longrightarrow> op_ok inner (inner, Inl (Err e))"
  by (simp add: op_ok_def same_topology_def)

lemma flush_topology:
  "(flush inner)\<lparr>ri_topology := g\<rparr> = flush (inner\<lparr>ri_topology := g\<rparr>)" "ri_topology (flush inner) = ri_topology inner"
  by (simp_all add: flush_def)

lemma op_ok_flush: "graph_inv g \<Longrightarrow> r \<noteq> Inl Panic \<Longrightarrow> op_ok inner (bump (flush (inner\<lparr>ri_topology := g\<rparr>)), r)"
  using router_inv_flush by (simp add: op_ok_def) (simp add: bump_def flush_def)

text \<open>The common part of the operations that evict and then shrink the graph.\<close>

lemma op_ok_shrink:
  assumes inv: "router_inv inner" and idx: "index_ok inner'" and top: "same_topology inner inner'"
    and sub: "\<And>key rs. hm_get (ri_route_cache inner') key = Some rs \<Longrightarrow>
      hm_get (ri_route_cache inner) key = Some rs \<and> links_of rs \<inter> L = {}"
    and g: "graph_inv g" "\<And>l. hm_get (g_edges g) l = (if l \<in> L then None else hm_get (g_edges (ri_topology inner)) l)"
  shows "op_ok inner (bump (inner'\<lparr>ri_topology := g\<rparr>), Inr ())"
proof -
  have "cache_ok (ri_topology inner) inner'" using router_invD(3) [OF inv] sub by (auto simp: cache_ok_def)
  from cache_ok_without [OF this hop_weight_without [OF g(2)]] sub have "cache_ok g inner'" by blast
  with idx g(1) top show ?thesis
    by (simp add: op_ok_def router_inv_def bump_def index_ok_def cache_ok_def same_topology_def)
qed

lemma router_add_node_ok:
  assumes inv: "router_inv inner" and few: "length (g_nodes (ri_topology inner)) < 2 ^ 32"
  shows "op_ok inner (router_add_node addr inner)"
proof (cases "hm_get (g_nodes (ri_topology inner)) (NodeId addr)")
  case None
  obtain g where g: "graph_add_node (NodeId addr) (ri_topology inner) = Inr (g, NodeId addr)" "graph_inv g"
    "g_edges g = g_edges (ri_topology inner)"
    by (rule graph_add_node_spec [OF router_invD(1) [OF inv] few None])
  have "op_ok inner (bump (inner\<lparr>ri_topology := g\<rparr>), Inr ())"
    by (rule op_ok_shrink [where L = "{}"])
      (use inv g router_invD(2) [OF inv] in \<open>auto simp: same_topology_def\<close>)
  with g show ?thesis by (simp add: router_add_node_def)
next
  case (Some nd)
  then show ?thesis using op_ok_error [OF inv] by (simp add: router_add_node_def graph_add_node_def)
qed

lemma router_remove_link_ok:
  assumes inv: "router_inv inner"
  shows "op_ok inner (router_remove_link l inner)"
proof -
  let ?ks = "indexed (ri_link_to_cache_keys inner) l"
  let ?inner1 = "invalidate_keys ?ks inner"
  let ?inner2 = "?inner1\<lparr>ri_link_to_cache_keys := hm_remove l (ri_link_to_cache_keys ?inner1)\<rparr>"
  note idx = router_invD(2) [OF inv]
  note evict = invalidate_keys_spec [OF idx, of ?ks]
  have top: "same_topology inner ?inner2" using evict(2) by (simp add: same_topology_def)
  have gone: "links_of rs \<inter> {l} = {}" if "hm_get (ri_route_cache ?inner1) key = Some rs" for key rs
    using evicted_links [OF idx _ that, of "{l}"] by auto
  then have "key \<notin> set (indexed (ri_link_to_cache_keys ?inner1) l)" for key
    using index_okD [OF evict(1)] by blast
  then have "set (indexed (ri_link_to_cache_keys ?inner2) k) = set (indexed (ri_link_to_cache_keys ?inner1) k)" for k
    by (cases "k = l") (auto simp: indexed_def)
  then have "index_ok ?inner2" using evict(1) by (simp add: index_ok_def)
  moreover obtain g where g: "graph_remove_link l (ri_topology inner) =
      (Inr (g, hm_get (g_edges (ri_topology inner)) l) :: (topology_error, graph \<times> link option) result)"
    "graph_inv g" "g_edges g = hm_remove l (g_edges (ri_topology inner))"
    by (rule graph_remove_link_spec [OF router_invD(1) [OF inv]])
  ultimately have "op_ok inner (bump (?inner2\<lparr>ri_topology := g\<rparr>), Inr ())"
    using gone evict(3) by (intro op_ok_shrink [OF inv _ top, where L = "{l}"]) (simp_all split: if_splits)
  moreover have "router_remove_link l inner = (bump (?inner2\<lparr>ri_topology := g\<rparr>), Inr ())"
    using g(1) evict(2) by (simp add: router_remove_link_def indexed_def same_topology_def Let_def)
  ultimately show ?thesis by simp
qed

lemma router_remove_node_ok:
  assumes inv: "router_inv inner"
  shows "op_ok inner (router_remove_node addr inner)"
proof -
  let ?g = "ri_topology inner"
  let ?incident = "case hm_get (g_nodes ?g) (NodeId addr) of None \<Rightarrow> [] | Some nd \<Rightarrow> nd_edges nd"
  let ?ks = "remdups (concat (map (indexed (ri_link_to_cache_keys inner)) ?incident))"
  let ?inner1 = "invalidate_keys ?ks inner"
  let ?ks' = "filter (\<lambda>k. ck_a k = NodeId addr \<or> ck_b k = NodeId addr) (hm_keys (ri_route_cache ?inner1))"
  let ?inner2 = "invalidate_keys ?ks' ?inner1"
  note idx = router_invD(2) [OF inv]
  note evict1 = invalidate_keys_spec [OF idx, of ?ks]
  note evict2 = invalidate_keys_spec [OF evict1(1), of ?ks']
  have at: "edges_at ?g (NodeId addr) = set ?incident" by (simp add: edges_at_def split: option.splits)
  have top: "same_topology inner ?inner2" using evict1(2) evict2(2) by (simp add: same_topology_def)
  obtain g r where g: "graph_remove_node (NodeId addr) ?g = (Inr (g, r) :: (topology_error, graph \<times> node option) result)"
    "graph_inv g" "\<And>l. hm_get (g_edges g) l = (if l \<in> edges_at ?g (NodeId addr) then None else hm_get (g_edges ?g) l)"
    by (rule graph_remove_node_spec [OF router_invD(1) [OF inv], of "NodeId addr"]) blast
  have "links_of rs \<inter> edges_at ?g (NodeId addr) = {}" if "hm_get (ri_route_cache ?inner1) key = Some rs" for key rs
    by (rule evicted_links [OF idx _ that]) (auto simp: at)
  then have "op_ok inner (bump (?inner2\<lparr>ri_topology := g\<rparr>), Inr ())"
    using evict1(3) evict2(3)
    by (intro op_ok_shrink [OF inv evict2(1) top _ g(2,3)]) (auto split: if_splits)
  moreover have "router_remove_node addr inner = (bump (?inner2\<lparr>ri_topology := g\<rparr>), Inr ())"
    using g(1) top by (simp add: router_remove_node_def indexed_def [abs_def] same_topology_def Let_def)
  ultimately show ?thesis by simp
qed

lemma router_add_link_ok:
  assumes inv: "router_inv inner"
  shows "op_ok inner (router_add_link a b l ats cost inner)"
proof (rule graph_add_link_cases [OF router_invD(1) [OF inv], of "NodeId a" "NodeId b" l ats cost])
  fix e assume "graph_add_link (NodeId a) (NodeId b) l ats cost (ri_topology inner) = Inl (Err e)"
  then show ?thesis
    using router_invD(1) [OF inv]
    by (simp add: router_add_link_def op_ok_def flush_def router_inv_def index_ok_def cache_ok_def indexed_def same_topology_def)
next
  fix g assume g: "graph_add_link (NodeId a) (NodeId b) l ats cost (ri_topology inner) = Inr g" "graph_inv g"
  then show ?thesis
    using op_ok_flush [OF g(2), of "Inr ()" inner] by (simp add: router_add_link_def flush_topology)
qed

lemma replace_link_between_ok:
  assumes inv: "router_inv inner"
  shows "op_ok inner (replace_link_between a b l ats cost inner)"
  by (rule replace_link_cases [OF router_invD(1) [OF inv], of "NodeId a" "NodeId b" l ats cost])
    (simp_all add: replace_link_between_def op_ok_error [OF inv] op_ok_flush)

lemma apply_link_batch_ok:
  assumes inv: "router_inv inner"
  shows "op_ok inner (apply_link_batch removals additions inner)"
proof -
  from remove_links_spec [OF router_invD(1) [OF inv], of removals] obtain g where
    g: "remove_links removals (ri_topology inner) = Inr g" "graph_inv g" by blast
  from install_links_spec [OF g(2), of additions "[]"] obtain g' r where
    "install_links additions [] g = (g', r)" "graph_inv g'" "r \<noteq> Inl Panic" by fastforce
  then show ?thesis using g(1) op_ok_flush by (simp add: apply_link_batch_def)
qed

subsection \<open>Lookups\<close>

lemma set_indexed_index_link:
  "set (indexed (index_link key l m) k) = (if k = l then insert key (set (indexed m k)) else set (indexed m k))"
  by (auto simp: indexed_def index_link_def)

lemma fold_index_link:
  "set (indexed (fold (index_link key) ls m) k) = (if k \<in> set ls then insert key (set (indexed m k)) else set (indexed m k))"
  by (induction ls arbitrary: m) (auto simp: set_indexed_index_link)

lemma fold_index_routes:
  "set (indexed (fold (\<lambda>r m. fold (index_link key) (rt_links r) m) rs m) k) =
     (if k \<in> links_of rs then insert key (set (indexed m k)) else set (indexed m k))"
  by (induction rs arbitrary: m) (auto simp: fold_index_link links_of_def)

text \<open>A commit returns the routes of the topology it sees, given that the generation it read tells whether the topology
  has changed since.\<close>

lemma get_routes_commit_ok:
  assumes inv: "router_inv inner"
    and fresh: "ri_topo_generation inner = topo_gen \<Longrightarrow> correct_routes (ri_topology inner) (NodeId a) (NodeId b) computed"
    and commit: "get_routes_commit a b hint topo_gen computed inner = (inner', rs)"
  shows "router_inv inner'" "same_topology inner inner'" "correct_routes (ri_topology inner) (NodeId a) (NodeId b) rs"
proof -
  let ?key = "cache_key a b hint"
  note wf = graph_invD(1) [OF router_invD(1) [OF inv]]
  have key: "ck_a ?key = NodeId a" "ck_b ?key = NodeId b" by (simp_all add: cache_key_def)
  have "router_inv inner' \<and> same_topology inner inner' \<and> correct_routes (ri_topology inner) (NodeId a) (NodeId b) rs"
  proof (cases "ri_topo_generation inner = topo_gen")
    case False
    then show ?thesis using commit inv compute_routes_correct [OF wf] by (auto simp: get_routes_commit_def same_topology_def)
  next
    case True
    show ?thesis
    proof (cases "hm_get (ri_route_cache inner) ?key")
      case (Some routes)
      then have "correct_routes (ri_topology inner) (NodeId a) (NodeId b) routes"
        using cache_okD [OF router_invD(3) [OF inv]] key by metis
      with Some show ?thesis
        using commit True inv by (auto simp: get_routes_commit_def same_topology_def)
    next
      case None
      then have inner': "inner' = inner\<lparr>ri_link_to_cache_keys :=
            fold (\<lambda>r m. fold (index_link ?key) (rt_links r) m) computed (ri_link_to_cache_keys inner),
          ri_route_cache := hm_insert ?key computed (ri_route_cache inner)\<rparr>" and rs: "rs = computed"
        using commit True by (auto simp: get_routes_commit_def Let_def)
      have "index_ok inner'"
        using None router_invD(2) [OF inv] by (auto simp: inner' index_ok_def fold_index_routes distinct_update)
      moreover have "cache_ok (ri_topology inner) inner'"
        using router_invD(3) [OF inv] fresh [OF True] key by (simp add: inner' cache_ok_def)
      ultimately show ?thesis using router_invD(1) [OF inv] fresh [OF True] rs
        by (simp add: router_inv_def inner' same_topology_def)
    qed
  qed
  then show "router_inv inner'" "same_topology inner inner'" "correct_routes (ri_topology inner) (NodeId a) (NodeId b) rs"
    by blast+
qed

subsection \<open>Interleaving\<close>

text \<open>The router shared by threads: the locked state and, per thread, the lookup that has computed its routes under the
  read lock and not yet taken the write lock.\<close>

datatype router_op =
    AddNode ip_addr
  | RemoveNode ip_addr
  | AddLink ip_addr ip_addr link_id "attribute list" u32
  | LinkBatch "link_id list" "link_spec list"
  | RemoveLink link_id
  | ReplaceLink ip_addr ip_addr link_id "attribute list" u32

fun run_op :: "router_op \<Rightarrow> router_inner \<Rightarrow> router_inner \<times> (topology_error, unit) result" where
  "run_op (AddNode addr) inner = router_add_node addr inner"
| "run_op (RemoveNode addr) inner = router_remove_node addr inner"
| "run_op (AddLink a b l ats cost) inner = router_add_link a b l ats cost inner"
| "run_op (LinkBatch removals additions) inner = apply_link_batch removals additions inner"
| "run_op (RemoveLink l) inner = router_remove_link l inner"
| "run_op (ReplaceLink a b l ats cost) inner = replace_link_between a b l ats cost inner"

record pending_lookup =
  pl_a :: ip_addr
  pl_b :: ip_addr
  pl_hint :: "route_hint option"
  pl_gen :: u64
  pl_computed :: "route list"

record shared =
  sh_inner :: router_inner
  sh_pending :: "nat \<Rightarrow> pending_lookup option"

datatype router_event =
    Mutate router_op
  | StartLookup nat
  | Return ip_addr ip_addr "route list"

text \<open>A step of one thread. A node is added only while there are fewer than \<open>2^32\<close> of them, the bound under which the
  distances of the best-route table fit their machine type.\<close>

inductive router_step :: "shared \<Rightarrow> router_event \<Rightarrow> shared \<Rightarrow> bool" where
  mutate: "length (g_nodes (ri_topology (sh_inner s))) < 2 ^ 32 \<Longrightarrow>
    router_step s (Mutate rop) (s\<lparr>sh_inner := fst (run_op rop (sh_inner s))\<rparr>)"
| hit: "get_routes_read (sh_inner s) a b hint = RouteHit rs \<Longrightarrow> router_step s (Return a b rs) s"
| miss: "get_routes_read (sh_inner s) a b hint = RouteMiss topo_gen rs \<Longrightarrow>
    router_step s (StartLookup t) (s\<lparr>sh_pending := (sh_pending s)(t :=
      Some \<lparr>pl_a = a, pl_b = b, pl_hint = hint, pl_gen = topo_gen, pl_computed = rs\<rparr>)\<rparr>)"
| commit: "sh_pending s t = Some pl \<Longrightarrow>
    get_routes_commit (pl_a pl) (pl_b pl) (pl_hint pl) (pl_gen pl) (pl_computed pl) (sh_inner s) = (inner', rs) \<Longrightarrow>
    router_step s (Return (pl_a pl) (pl_b pl) rs) (s\<lparr>sh_inner := inner', sh_pending := (sh_pending s)(t := None)\<rparr>)"

inductive_cases return_stepE: "router_step s (Return a b rs) s'"

lemma return_step_cases [consumes 1, case_names hit commit]:
  assumes "router_step s (Return a b rs) s'"
  obtains hint where "s' = s" "get_routes_read (sh_inner s) a b hint = RouteHit rs"
  | t pl inner' where "a = pl_a pl" "b = pl_b pl" "sh_pending s t = Some pl"
      "get_routes_commit a b (pl_hint pl) (pl_gen pl) (pl_computed pl) (sh_inner s) = (inner', rs)"
      "s' = s\<lparr>sh_inner := inner', sh_pending := (sh_pending s)(t := None)\<rparr>"
  using assms by (elim return_stepE) blast+

definition shared_init :: shared where
  "shared_init = \<lparr>sh_inner = router_new, sh_pending = (\<lambda>_. None)\<rparr>"

text \<open>\<open>router_run n s\<close>: the state \<open>s\<close> is reached from the new router with \<open>n\<close> write operations.\<close>

inductive router_run :: "nat \<Rightarrow> shared \<Rightarrow> bool" where
  run_init: "router_run 0 shared_init"
| run_mutate: "router_run n s \<Longrightarrow> router_step s (Mutate rop) s' \<Longrightarrow> router_run (Suc n) s'"
| run_start: "router_run n s \<Longrightarrow> router_step s (StartLookup t) s' \<Longrightarrow> router_run n s'"
| run_return: "router_run n s \<Longrightarrow> router_step s (Return a b rs) s' \<Longrightarrow> router_run n s'"

inductive_cases mutate_stepE: "router_step s (Mutate rop) s'"
inductive_cases start_stepE: "router_step s (StartLookup t) s'"

text \<open>A lookup that read the current generation has computed the routes of the current topology.\<close>

definition pending_ok :: "router_inner \<Rightarrow> pending_lookup \<Rightarrow> bool" where
  "pending_ok inner pl \<longleftrightarrow> unat (pl_gen pl) \<le> unat (ri_topo_generation inner) \<and>
     (pl_gen pl = ri_topo_generation inner \<longrightarrow>
        correct_routes (ri_topology inner) (NodeId (pl_a pl)) (NodeId (pl_b pl)) (pl_computed pl))"

definition shared_inv :: "nat \<Rightarrow> shared \<Rightarrow> bool" where
  "shared_inv n s \<longleftrightarrow> router_inv (sh_inner s) \<and> unat (ri_topo_generation (sh_inner s)) \<le> n
     \<and> (\<forall>t pl. sh_pending s t = Some pl \<longrightarrow> pending_ok (sh_inner s) pl)"

lemma run_op_ok:
  assumes "router_inv inner" "length (g_nodes (ri_topology inner)) < 2 ^ 32"
  shows "op_ok inner (run_op rop inner)"
  using assms by (cases rop) (simp_all add: router_add_node_ok router_remove_node_ok router_add_link_ok
      apply_link_batch_ok router_remove_link_ok replace_link_between_ok)

lemma pending_ok_same: "same_topology inner inner' \<Longrightarrow> pending_ok inner' pl = pending_ok inner pl"
  by (simp add: pending_ok_def same_topology_def)

lemma pending_ok_bump:
  assumes "pending_ok inner pl" "ri_topo_generation inner' = ri_topo_generation inner + 1"
    and "unat (ri_topo_generation inner) + 1 < 2 ^ 64"
  shows "pending_ok inner' pl"
proof -
  have "unat (ri_topo_generation inner') = unat (ri_topo_generation inner) + 1"
    using assms(2) u64_add_no_wrap [of "ri_topo_generation inner" 1] assms(3) by simp
  with assms(1) show ?thesis by (auto simp: pending_ok_def)
qed

lemma router_inv_new: "router_inv router_new"
  using graph_inv_default by (simp add: router_inv_def router_new_def index_ok_def cache_ok_def indexed_def)

lemma router_run_inv: "router_run n s \<Longrightarrow> n < 2 ^ 64 \<Longrightarrow> shared_inv n s"
proof (induction rule: router_run.induct)
  case run_init
  then show ?case using router_inv_new by (simp add: shared_inv_def shared_init_def) (simp add: router_new_def)
next
  case (run_mutate n s rop s')
  then have s: "shared_inv n s" by simp
  from run_mutate(2) have few: "length (g_nodes (ri_topology (sh_inner s))) < 2 ^ 32"
    and s': "s' = s\<lparr>sh_inner := fst (run_op rop (sh_inner s))\<rparr>" by (auto elim: mutate_stepE)
  from s have inv: "router_inv (sh_inner s)" and gen: "unat (ri_topo_generation (sh_inner s)) \<le> n"
    by (auto simp: shared_inv_def)
  from run_op_ok [OF inv few, of rop] have op: "router_inv (sh_inner s')"
    "ri_topo_generation (sh_inner s') = ri_topo_generation (sh_inner s) + 1 \<or> same_topology (sh_inner s) (sh_inner s')"
    by (auto simp: op_ok_def s')
  from op(2) show ?case
  proof
    assume bump: "ri_topo_generation (sh_inner s') = ri_topo_generation (sh_inner s) + 1"
    then have "unat (ri_topo_generation (sh_inner s')) = unat (ri_topo_generation (sh_inner s)) + 1"
      using u64_add_no_wrap [of "ri_topo_generation (sh_inner s)" 1] gen run_mutate.prems by simp
    then show ?thesis
      using s op(1) gen run_mutate.prems pending_ok_bump [OF _ bump] by (simp add: shared_inv_def s')
  next
    assume same: "same_topology (sh_inner s) (sh_inner s')"
    then show ?thesis using s op(1) gen pending_ok_same [OF same] by (simp add: shared_inv_def same_topology_def s')
  qed
next
  case (run_start n s t s')
  then have s: "shared_inv n s" by simp
  from run_start(2) obtain a b hint topo_gen rs where
    read: "get_routes_read (sh_inner s) a b hint = RouteMiss topo_gen rs"
    and s': "s' = s\<lparr>sh_pending := (sh_pending s)(t :=
      Some \<lparr>pl_a = a, pl_b = b, pl_hint = hint, pl_gen = topo_gen, pl_computed = rs\<rparr>)\<rparr>"
    by (auto elim!: start_stepE)
  have "graph_wf (ri_topology (sh_inner s))" using s router_invD(1) graph_invD(1) by (auto simp: shared_inv_def)
  then have "pending_ok (sh_inner s) \<lparr>pl_a = a, pl_b = b, pl_hint = hint, pl_gen = topo_gen, pl_computed = rs\<rparr>"
    using read compute_routes_correct by (auto simp: get_routes_read_def pending_ok_def split: option.splits)
  with s show ?case by (simp add: shared_inv_def s')
next
  case (run_return n s a b rs s')
  then have s: "shared_inv n s" by simp
  from run_return(2) show ?case
  proof (cases rule: return_step_cases)
    case (commit t pl inner')
    have inv: "router_inv (sh_inner s)" "pending_ok (sh_inner s) pl"
      using s commit(3) by (auto simp: shared_inv_def)
    have fresh: "ri_topo_generation (sh_inner s) = pl_gen pl \<Longrightarrow>
        correct_routes (ri_topology (sh_inner s)) (NodeId a) (NodeId b) (pl_computed pl)"
      using inv(2) commit(1,2) by (simp add: pending_ok_def)
    note ok = get_routes_commit_ok [OF inv(1) fresh commit(4)]
    from s ok(1,2) show ?thesis
      using pending_ok_same [OF ok(2)] by (simp add: shared_inv_def same_topology_def commit(5))
  qed (use s in simp)
qed

lemma returned_routes:
  assumes s: "shared_inv n s" and step: "router_step s (Return a b rs) s'"
  shows "correct_routes (ri_topology (sh_inner s')) (NodeId a) (NodeId b) rs"
  using step
proof (cases rule: return_step_cases)
  case (hit hint)
  have inv: "cache_ok (ri_topology (sh_inner s)) (sh_inner s)" using s router_invD(3) by (simp add: shared_inv_def)
  from hit(2) have "hm_get (ri_route_cache (sh_inner s)) (cache_key a b hint) = Some rs"
    by (simp add: get_routes_read_def split: option.splits)
  from cache_okD [OF inv this] show ?thesis using hit(1) by (simp add: cache_key_def)
next
  case (commit t pl inner')
  have inv: "router_inv (sh_inner s)" "pending_ok (sh_inner s) pl" using s commit(3) by (auto simp: shared_inv_def)
  have fresh: "ri_topo_generation (sh_inner s) = pl_gen pl \<Longrightarrow>
      correct_routes (ri_topology (sh_inner s)) (NodeId a) (NodeId b) (pl_computed pl)"
    using inv(2) commit(1,2) by (simp add: pending_ok_def)
  from get_routes_commit_ok [OF inv(1) fresh commit(4)] show ?thesis by (simp add: same_topology_def commit(5))
qed

subsection \<open>Routes as node sequences\<close>

lemma walk_links_follow:
  "follow (hop g) u ls = Some v \<Longrightarrow> walk_links g ls u path = Inr (path @ tl (visits (hop g) u ls))"
proof (induction ls arbitrary: u path)
  case (Cons l ls)
  then obtain x where x: "hop g u l = Some x" "follow (hop g) x ls = Some v" by (auto split: option.splits)
  obtain vs where vs: "visits (hop g) x ls = x # vs" by (cases ls) auto
  from x(1) have "walk_links g (l # ls) u path = walk_links g ls x (path @ [x])"
    by (auto simp: hop_def graph_link_def split: option.splits if_splits)
  with Cons.IH [OF x(2)] x(1) vs show ?case by simp
qed simp

lemma routes_of_path:
  assumes "r \<in> routes_of g a b"
  shows "rt_kind r = DirectSameNode a \<and> rt_links r = [] \<and> a = b
    \<or> rt_kind r = Multihop \<and> a \<noteq> b \<and> simple_path (hop g) a (rt_links r) b"
  using assms by (auto simp: routes_of_def new_direct_def split: if_splits)

lemma routes_of_cost:
  "r \<in> routes_of g a b \<Longrightarrow> unat (rt_cost r) = min (path_cost (weight g) (rt_links r)) (2 ^ 32 - 1)"
  by (auto simp: routes_of_def new_direct_def split: if_splits)

subsection \<open>Properties\<close>

text \<open>C24. The write operations of the router keep its invariant: none of them panics, the table of best routes and the
  cached routes are always those of the current topology, and the reverse index names exactly the cached routes over
  each link, so the targeted eviction of \<^verbatim>\<open>remove_link\<close> and \<^verbatim>\<open>remove_node\<close> forgets enough and never leaks. An operation
  that does not count the generation up has not changed the topology.\<close>

theorem router_writes_keep_invariant:
  assumes "router_inv inner" "length (g_nodes (ri_topology inner)) < 2 ^ 32" "run_op rop inner = (inner', r)"
  shows "router_inv inner' \<and> r \<noteq> Inl Panic \<and>
    (ri_topo_generation inner' = ri_topo_generation inner + 1 \<or>
     ri_topology inner' = ri_topology inner \<and> ri_topo_generation inner' = ri_topo_generation inner)"
  using run_op_ok [OF assms(1,2), of rop] assms(3) by (simp add: op_ok_def same_topology_def)

theorem router_writes_keep_invariant_witness:
  "router_inv (fst (run_op (AddNode (V4 1)) router_new))"
proof -
  obtain inner' r where run: "run_op (AddNode (V4 1)) router_new = (inner', r)" by force
  have "length (g_nodes (ri_topology router_new)) < 2 ^ 32" by (simp add: router_new_def graph_default_def)
  from router_writes_keep_invariant [OF router_inv_new this run] show ?thesis using run by simp
qed

text \<open>C25. Lookups are linearizable: however lookups and writes of any number of threads interleave, the routes a lookup
  returns are exactly the routes of the topology at the moment it returns, each once: the direct route between a
  node and itself, every simple path with its saturated cost otherwise. Fewer than \<open>2^64\<close> writes are assumed, so that
  the generation counter does not wrap around.\<close>

theorem lookups_return_current_routes:
  assumes "router_run n s" "n < 2 ^ 64" "router_step s (Return a b rs) s'"
  shows "distinct rs \<and> set rs = (let g = ri_topology (sh_inner s') in
    if a = b then {new_direct (NodeId a)}
    else {\<lparr>rt_kind = Multihop, rt_links = p, rt_cost = c\<rparr> | p c.
            simple_path (hop g) (NodeId a) p (NodeId b) \<and> unat c = min (path_cost (weight g) p) (2 ^ 32 - 1)})"
  using returned_routes [OF router_run_inv [OF assms(1,2)] assms(3)]
  by (simp add: correct_routes_def routes_of_def Let_def)

definition one_lookup :: shared where
  "one_lookup = shared_init\<lparr>sh_pending := (\<lambda>_. None)(0 := Some \<lparr>pl_a = V4 1, pl_b = V4 1, pl_hint = None, pl_gen = 0,
     pl_computed = [new_direct (NodeId (V4 1))]\<rparr>)\<rparr>"

theorem lookups_return_current_routes_witness:
  "\<exists>s'. router_step one_lookup (Return (V4 1) (V4 1) [new_direct (NodeId (V4 1))]) s'
     \<and> set [new_direct (NodeId (V4 1))] = {new_direct (NodeId (V4 1))}"
proof -
  have "router_step shared_init (StartLookup 0) one_lookup"
    using router_step.miss [of shared_init "V4 1" "V4 1" None 0 "[new_direct (NodeId (V4 1))]" 0]
    by (simp add: one_lookup_def get_routes_read_def shared_init_def router_new_def compute_routes_def new_direct_def)
  then have run: "router_run 0 one_lookup" by (rule run_start [OF run_init])
  have "\<exists>s'. router_step one_lookup (Return (V4 1) (V4 1) [new_direct (NodeId (V4 1))]) s'"
    using router_step.commit [of one_lookup 0 "\<lparr>pl_a = V4 1, pl_b = V4 1, pl_hint = None, pl_gen = 0,
        pl_computed = [new_direct (NodeId (V4 1))]\<rparr>" _ "[new_direct (NodeId (V4 1))]"]
    by (simp add: one_lookup_def shared_init_def router_new_def get_routes_commit_def Let_def) blast
  then obtain s' where "router_step one_lookup (Return (V4 1) (V4 1) [new_direct (NodeId (V4 1))]) s'" ..
  with lookups_return_current_routes [OF run _ this] show ?thesis by auto
qed

text \<open>C26. The best route is among the routes a lookup returns and none of them costs less; there is none exactly when the
  nodes are not connected. The two algorithms behind \<^verbatim>\<open>get_best_route\<close> and \<^verbatim>\<open>get_routes\<close> agree.\<close>

theorem best_route_is_least:
  assumes "router_inv inner"
  shows "case get_best_route inner a b of
      None \<Rightarrow> set (compute_routes (ri_topology inner) a b hint) = {}
    | Some r \<Rightarrow> r \<in> set (compute_routes (ri_topology inner) a b hint) \<and>
        (\<forall>r' \<in> set (compute_routes (ri_topology inner) a b hint). rt_cost r \<le> rt_cost r')"
proof -
  let ?g = "ri_topology inner"
  note inv = router_invD(1) [OF assms]
  have set: "set (compute_routes ?g a b hint) = routes_of ?g (NodeId a) (NodeId b)"
    using compute_routes_correct [OF graph_invD(1) [OF inv]] by (simp add: correct_routes_def)
  show ?thesis
  proof (cases "a = b")
    case True
    then show ?thesis unfolding set by (simp add: get_best_route_def routes_of_def new_direct_def)
  next
    case False
    have ok: "route_ok ?g (NodeId a) (NodeId b) (get_low_cost_path ?g (NodeId a) (NodeId b))"
      using graph_invD(2) [OF inv] by (simp add: routes_ok_def)
    show ?thesis
    proof (cases "get_low_cost_path ?g (NodeId a) (NodeId b)")
      case None
      then show ?thesis
        unfolding set using ok False by (auto simp: get_best_route_def route_ok_def routes_of_def simple_path_def)
    next
      case (Some pc)
      obtain p c where pc: "pc = (p, c)" by force
      have p: "cheapest (hop ?g) (weight ?g) (NodeId a) p (NodeId b)" "simple_path (hop ?g) (NodeId a) p (NodeId b)"
        "unat c = min (path_cost (weight ?g) p) (2 ^ 32 - 1)"
        using ok Some pc by (simp_all add: route_ok_def)
      have "c \<le> rt_cost r" if r: "r \<in> routes_of ?g (NodeId a) (NodeId b)" for r
      proof -
        have "path_cost (weight ?g) p \<le> path_cost (weight ?g) (rt_links r)"
          using routes_of_path [OF r] p(1) False by (auto simp: cheapest_def simple_path_def)
        then show ?thesis using routes_of_cost [OF r] p(3) by (simp add: word_le_nat_alt)
      qed
      then show ?thesis
        unfolding set using Some pc False p by (auto simp: get_best_route_def routes_of_def)
    qed
  qed
qed

theorem best_route_is_least_witness:
  "get_best_route router_new (V4 1) (V4 2) = None \<and> set (compute_routes (ri_topology router_new) (V4 1) (V4 2) None) = {}"
proof -
  have "get_best_route router_new (V4 1) (V4 2) = None"
    by (simp add: get_best_route_def get_low_cost_path_def router_new_def graph_default_def)
  with best_route_is_least [OF router_inv_new, of "V4 1" "V4 2" None] show ?thesis by simp
qed

text \<open>C27. Every route between two nodes unfolds into a sequence of nodes that starts at the first, ends at the second, meets no
  node twice and takes one link of the route from each node to the next.\<close>

theorem routes_unfold_to_paths:
  assumes "router_inv inner" "r \<in> set (compute_routes (ri_topology inner) a b hint)"
  shows "\<exists>path. route_to_path inner r (NodeId a) = Inr path \<and> hd path = NodeId a \<and> last path = NodeId b \<and> distinct path
    \<and> length path = Suc (hop_count r)
    \<and> (\<forall>i < hop_count r. hop (ri_topology inner) (path ! i) (rt_links r ! i) = Some (path ! Suc i))"
proof -
  let ?g = "ri_topology inner"
  have r: "r \<in> routes_of ?g (NodeId a) (NodeId b)"
    using compute_routes_correct [OF graph_invD(1) [OF router_invD(1) [OF assms(1)]]] assms(2)
    by (auto simp: correct_routes_def)
  from routes_of_path [OF r] show ?thesis
  proof (elim disjE conjE)
    assume "rt_kind r = DirectSameNode (NodeId a)" "rt_links r = []" "NodeId a = NodeId b"
    then show ?thesis by (simp add: route_to_path_def hop_count_def)
  next
    assume r: "rt_kind r = Multihop" and p: "simple_path (hop ?g) (NodeId a) (rt_links r) (NodeId b)"
    then have f: "follow (hop ?g) (NodeId a) (rt_links r) = Some (NodeId b)"
      and d: "distinct (visits (hop ?g) (NodeId a) (rt_links r))" by (simp_all add: simple_path_def)
    have "route_to_path inner r (NodeId a) = Inr (visits (hop ?g) (NodeId a) (rt_links r))"
      using walk_links_follow [OF f, of "[NodeId a]"] r by (cases "rt_links r") (simp_all add: route_to_path_def)
    then show ?thesis
      using d last_visits [OF f] length_visits [OF f] visits_hop [OF f] by (auto simp: hop_count_def)
  qed
qed

theorem routes_unfold_to_paths_witness:
  "\<exists>path. route_to_path router_new (new_direct (NodeId (V4 1))) (NodeId (V4 1)) = Inr path \<and> hd path = NodeId (V4 1)"
proof -
  have "new_direct (NodeId (V4 1)) \<in> set (compute_routes (ri_topology router_new) (V4 1) (V4 1) None)"
    by (simp add: compute_routes_def new_direct_def)
  from routes_unfold_to_paths [OF router_inv_new this] show ?thesis by blast
qed

text \<open>C35. A batch of link changes that succeeds gives exactly the old links without the removed ones and with the added
  ones. A batch that fails adds nothing, but what it removed stays removed: it does not restore the old topology.\<close>

theorem link_batch_result:
  assumes "router_inv inner" "apply_link_batch removals additions inner = (inner', r)"
  shows "case r of
      Inr _ \<Rightarrow> (\<forall>l. hm_get (g_edges (ri_topology inner')) l =
        (case find (\<lambda>s. ls_id s = l) additions of
           Some s \<Rightarrow> Some (spec_link s)
         | None \<Rightarrow> if l \<in> set removals then None else hm_get (g_edges (ri_topology inner)) l))
    | Inl f \<Rightarrow> f \<noteq> Panic \<and> (\<forall>l. hm_get (g_edges (ri_topology inner')) l =
        (if l \<in> set removals then None else hm_get (g_edges (ri_topology inner)) l))"
proof -
  from remove_links_spec [OF router_invD(1) [OF assms(1)], of removals] obtain g where
    g: "remove_links removals (ri_topology inner) = Inr g" "graph_inv g"
      "\<And>l. hm_get (g_edges g) l = (if l \<in> set removals then None else hm_get (g_edges (ri_topology inner)) l)" by blast
  from install_links_spec [OF g(2), of additions "[]"] obtain g' r' where
    r': "install_links additions [] g = (g', r')" and res: "case r' of
         Inl f \<Rightarrow> f \<noteq> Panic \<and> (\<forall>l. hm_get (g_edges g') l = (if l \<in> set [] then None else hm_get (g_edges g) l))
       | Inr _ \<Rightarrow> distinct (map ls_id additions)
           \<and> (\<forall>l. hm_get (g_edges g') l =
                (case find (\<lambda>s. ls_id s = l) additions of Some s \<Rightarrow> Some (spec_link s) | None \<Rightarrow> hm_get (g_edges g) l))
           \<and> (\<forall>s \<in> set additions. hm_get (g_edges g) (ls_id s) = None)"
    by blast
  have "r = r'" "ri_topology inner' = g'"
    using assms(2) g(1) r' by (auto simp: apply_link_batch_def bump_def flush_def)
  with res show ?thesis by (cases r') (simp_all add: g(3) cong: option.case_cong)
qed

definition self_link :: link_spec where
  "self_link = \<lparr>ls_a = V4 1, ls_b = V4 1, ls_id = LinkId ''loop'', ls_attributes = [], ls_cost = 1\<rparr>"

theorem link_batch_result_witness:
  "\<exists>inner' f. apply_link_batch [] [self_link] router_new = (inner', Inl f) \<and> f \<noteq> Panic
     \<and> hm_get (g_edges (ri_topology inner')) (LinkId ''loop'') = None"
proof -
  obtain inner' r where batch: "apply_link_batch [] [self_link] router_new = (inner', r)" by force
  then have "r = Inl (Err LinkToSelf)"
    by (simp add: apply_link_batch_def graph_add_link_def self_link_def router_new_def)
  moreover have "hm_get (g_edges (ri_topology router_new)) l = None" for l
    by (simp add: router_new_def graph_default_def)
  ultimately show ?thesis using link_batch_result [OF router_inv_new batch] batch by simp
qed

end
