(* ===== verification/Deny_Log.thy ===== *)
theory Deny_Log
  imports Evaluation
begin

text \<open>
  The window of recent denials, \<^verbatim>\<open>vs/src/deny_log.rs\<close>: denials of the same flow for the same reason are one entry with a
  count, and the window is bounded.
\<close>

datatype deny_code =
    DcNoReason
  | DcNoMatch
  | DcDenied
  | DcSourceNotFound
  | DcDestNotFound
  | DcSourceAuthError
  | DcDestAuthError
  | DcQuotaExceeded
  | DcNoRoute

definition DENY_LOG_SIZE :: nat where "DENY_LOG_SIZE = 500"

record deny_entry =
  de_source_addr :: ip_addr
  de_dest_addr :: ip_addr
  de_protocol :: u8
  de_dest_port :: u16
  de_count :: u64
  de_last_deny_ms :: u64
  de_deny_code :: string

type_synonym deny_log = "deny_entry list"

fun deny_code_name :: "deny_code \<Rightarrow> string" where
  "deny_code_name DcNoReason = ''NoReason''"
| "deny_code_name DcNoMatch = ''NoMatch''"
| "deny_code_name DcDenied = ''Denied''"
| "deny_code_name DcSourceNotFound = ''SourceNotFound''"
| "deny_code_name DcDestNotFound = ''DestNotFound''"
| "deny_code_name DcSourceAuthError = ''SourceAuthError''"
| "deny_code_name DcDestAuthError = ''DestAuthError''"
| "deny_code_name DcQuotaExceeded = ''QuotaExceeded''"
| "deny_code_name DcNoRoute = ''NoRoute''"

text \<open>A clock before the epoch reads as zero, one too far ahead as the largest number.\<close>

definition epoch_ms_now :: "time \<Rightarrow> u64" where
  "epoch_ms_now now = of_int (min (2 ^ 64 - 1) (max 0 now div 1000000))"

text \<open>\<^verbatim>\<open>Iterator::position\<close>.\<close>

fun position :: "('a \<Rightarrow> bool) \<Rightarrow> 'a list \<Rightarrow> nat option" where
  "position P [] = None"
| "position P (x # xs) = (if P x then Some 0 else map_option Suc (position P xs))"

definition deny_matches :: "packet_desc \<Rightarrow> string \<Rightarrow> deny_entry \<Rightarrow> bool" where
  "deny_matches ft name d \<longleftrightarrow>
     de_source_addr d = source_addr ft \<and> de_dest_addr d = dest_addr ft \<and> de_protocol d = protocol ft \<and>
     de_dest_port d = dest_port ft \<and> de_deny_code d = name"

text \<open>\<^verbatim>\<open>while entries.len() > DENY_LOG_SIZE { entries.pop_front(); }\<close>\<close>

fun trim_front :: "deny_log \<Rightarrow> deny_log" where
  "trim_front [] = []"
| "trim_front (d # ds) = (if length (d # ds) > DENY_LOG_SIZE then trim_front ds else d # ds)"

definition record_at_ms :: "packet_desc \<Rightarrow> deny_code \<Rightarrow> u64 \<Rightarrow> deny_log \<Rightarrow> deny_log" where
  "record_at_ms ft code now_ms entries =
     (let name = deny_code_name code
      in case position (deny_matches ft name) entries of
           Some i \<Rightarrow>
             let d = entries ! i
             in take i entries @ drop (Suc i) entries @ [d\<lparr>de_count := de_count d + 1, de_last_deny_ms := now_ms\<rparr>]
         | None \<Rightarrow>
             trim_front (entries @ [\<lparr>de_source_addr = source_addr ft, de_dest_addr = dest_addr ft,
               de_protocol = protocol ft, de_dest_port = dest_port ft, de_count = 1, de_last_deny_ms = now_ms,
               de_deny_code = name\<rparr>]))"

definition deny_log_record :: "time \<Rightarrow> packet_desc \<Rightarrow> deny_code \<Rightarrow> deny_log \<Rightarrow> deny_log" where
  "deny_log_record now ft code entries = record_at_ms ft code (epoch_ms_now now) entries"

definition recent :: "deny_log \<Rightarrow> u64 option \<Rightarrow> nat option \<Rightarrow> deny_log" where
  "recent entries since limit =
     (let kept = filter (\<lambda>d. case since of None \<Rightarrow> True | Some t \<Rightarrow> de_last_deny_ms d \<ge> t) (rev entries)
      in case limit of None \<Rightarrow> kept | Some n \<Rightarrow> take n kept)"

subsection \<open>The window\<close>

text \<open>What identifies an entry, and what a denial is filed under.\<close>

definition deny_key :: "deny_entry \<Rightarrow> ip_addr \<times> ip_addr \<times> u8 \<times> u16 \<times> string" where
  "deny_key d = (de_source_addr d, de_dest_addr d, de_protocol d, de_dest_port d, de_deny_code d)"

definition flow_key :: "packet_desc \<Rightarrow> deny_code \<Rightarrow> ip_addr \<times> ip_addr \<times> u8 \<times> u16 \<times> string" where
  "flow_key ft code = (source_addr ft, dest_addr ft, protocol ft, dest_port ft, deny_code_name code)"

lemma deny_matches_key: "deny_matches ft (deny_code_name code) d \<longleftrightarrow> deny_key d = flow_key ft code"
  by (auto simp: deny_matches_def deny_key_def flow_key_def)

lemma position_Some: "position P xs = Some i \<Longrightarrow> i < length xs \<and> P (xs ! i) \<and> (\<forall>j < i. \<not> P (xs ! j))"
proof (induction xs arbitrary: i)
  case (Cons x xs)
  show ?case
  proof (cases "P x")
    case False
    with Cons.prems obtain k where "i = Suc k" "position P xs = Some k" by auto
    with Cons.IH [of k] False show ?thesis by (auto simp: nth_Cons less_Suc_eq_0_disj split: nat.splits)
  qed (use Cons.prems in auto)
qed simp

lemma position_None: "position P xs = None \<longleftrightarrow> (\<forall>x \<in> set xs. \<not> P x)"
  by (induction xs) auto

text \<open>The last elements of a list, and a list with one element moved to its end.\<close>

definition lastn :: "nat \<Rightarrow> 'a list \<Rightarrow> 'a list" where
  "lastn n xs = drop (length xs - n) xs"

definition touch :: "'a \<Rightarrow> 'a list \<Rightarrow> 'a list" where
  "touch k ks = filter (\<lambda>x. x \<noteq> k) ks @ [k]"

lemma filter_neq: "k \<notin> set xs \<Longrightarrow> filter (\<lambda>x. x \<noteq> k) xs = xs"
  by (induction xs) auto

lemma lastn_map: "lastn n (map f xs) = map f (lastn n xs)"
  by (simp add: lastn_def drop_map)

lemma lastn_snoc: "lastn (Suc n) (xs @ [x]) = lastn n xs @ [x]"
  by (simp add: lastn_def)

lemma lastn_append: "n \<le> length ys \<Longrightarrow> lastn n (xs @ ys) = lastn n ys"
  by (simp add: lastn_def)

lemma lastn_all: "length xs \<le> n \<Longrightarrow> lastn n xs = xs"
  by (simp add: lastn_def)

lemma length_lastn: "length (lastn n xs) = min n (length xs)"
  by (simp add: lastn_def)

lemma distinct_lastn: "distinct xs \<Longrightarrow> distinct (lastn n xs)"
  by (simp add: lastn_def)

lemma distinct_touch: "distinct xs \<Longrightarrow> distinct (touch k xs)"
  by (simp add: touch_def)

lemma trim_front_eq: "trim_front ds = lastn DENY_LOG_SIZE ds"
proof (induction ds)
  case (Cons d ds)
  then show ?case by (cases "length (d # ds) > DENY_LOG_SIZE") (simp_all add: lastn_def Suc_diff_le)
qed (simp add: lastn_def)

lemma length_filter_neq: "distinct xs \<Longrightarrow> length xs \<le> Suc (length (filter (\<lambda>x. x \<noteq> k) xs))"
  by (induction xs) (auto simp: filter_neq)

text \<open>Keeping the last ones after each step keeps the last ones of all.\<close>

lemma lastn_touch_lastn:
  assumes "distinct xs" "0 < n"
  shows "lastn n (touch k (lastn n xs)) = lastn n (touch k xs)"
proof (cases "length xs \<le> n")
  case False
  obtain m where n: "n = Suc m" using assms(2) by (cases n) auto
  define zs where "zs = take (length xs - n) xs"
  have xs: "xs = zs @ lastn n xs" by (simp add: zs_def lastn_def)
  have "distinct (lastn n xs)" using assms(1) by (rule distinct_lastn)
  then have "m \<le> length (filter (\<lambda>x. x \<noteq> k) (lastn n xs))"
    using length_filter_neq [of "lastn n xs" k] False by (simp add: length_lastn n)
  then have "lastn m (filter (\<lambda>x. x \<noteq> k) (zs @ lastn n xs)) = lastn m (filter (\<lambda>x. x \<noteq> k) (lastn n xs))"
    by (simp add: lastn_append)
  with xs show ?thesis by (simp add: touch_def n lastn_snoc)
qed (simp add: lastn_all)

subsection \<open>Denials of a run\<close>

type_synonym denial = "packet_desc \<times> deny_code \<times> u64"

definition log_denials :: "denial list \<Rightarrow> deny_log" where
  "log_denials ds = fold (\<lambda>(ft, code, ms). record_at_ms ft code ms) ds []"

definition log_ok :: "deny_log \<Rightarrow> bool" where
  "log_ok entries \<longleftrightarrow> distinct (map deny_key entries) \<and> length entries \<le> DENY_LOG_SIZE"

lemma record_keys:
  assumes "log_ok entries"
  shows "map deny_key (record_at_ms ft code ms entries) = lastn DENY_LOG_SIZE (touch (flow_key ft code) (map deny_key entries))"
proof (cases "position (deny_matches ft (deny_code_name code)) entries")
  case None
  then have "flow_key ft code \<notin> set (map deny_key entries)" by (auto simp: position_None deny_matches_key)
  then have "touch (flow_key ft code) (map deny_key entries) = map deny_key entries @ [flow_key ft code]"
    unfolding touch_def by (metis filter_neq)
  moreover have "map deny_key (record_at_ms ft code ms entries) = lastn DENY_LOG_SIZE (map deny_key entries @ [flow_key ft code])"
    using None by (simp add: record_at_ms_def Let_def trim_front_eq lastn_map [symmetric]) (simp add: deny_key_def flow_key_def)
  ultimately show ?thesis by simp
next
  case (Some i)
  note at = position_Some [OF Some]
  have split: "entries = take i entries @ entries ! i # drop (Suc i) entries"
    using at by (simp add: id_take_nth_drop)
  have key: "deny_key (entries ! i) = flow_key ft code" using at by (simp add: deny_matches_key)
  have "distinct (map deny_key (take i entries @ entries ! i # drop (Suc i) entries))"
    using assms split by (simp add: log_ok_def)
  then have others: "flow_key ft code \<notin> set (map deny_key (take i entries @ drop (Suc i) entries))"
    using key by auto
  have "filter (\<lambda>k. k \<noteq> flow_key ft code) (map deny_key entries) =
      filter (\<lambda>k. k \<noteq> flow_key ft code) (map deny_key (take i entries @ entries ! i # drop (Suc i) entries))"
    using split by simp
  also have "\<dots> = filter (\<lambda>k. k \<noteq> flow_key ft code) (map deny_key (take i entries @ drop (Suc i) entries))"
    by (simp add: key)
  also have "\<dots> = map deny_key (take i entries @ drop (Suc i) entries)"
    using others by (rule filter_neq)
  finally have touched: "touch (flow_key ft code) (map deny_key entries) =
      map deny_key (take i entries @ drop (Suc i) entries) @ [flow_key ft code]" by (simp add: touch_def)
  moreover have "length (map deny_key (take i entries @ drop (Suc i) entries) @ [flow_key ft code]) \<le> DENY_LOG_SIZE"
    using assms conjunct1 [OF at] by (auto simp: log_ok_def)
  ultimately have "lastn DENY_LOG_SIZE (touch (flow_key ft code) (map deny_key entries)) =
      map deny_key (take i entries @ drop (Suc i) entries) @ [flow_key ft code]" by (simp add: lastn_all)
  then show ?thesis using Some key by (simp add: record_at_ms_def Let_def deny_key_def)
qed

lemma record_ok: "log_ok entries \<Longrightarrow> log_ok (record_at_ms ft code ms entries)"
proof -
  assume ok: "log_ok entries"
  then have "distinct (map deny_key (record_at_ms ft code ms entries))"
    unfolding record_keys [OF ok] by (intro distinct_lastn distinct_touch) (simp add: log_ok_def)
  moreover have "length (map deny_key (record_at_ms ft code ms entries)) \<le> DENY_LOG_SIZE"
    unfolding record_keys [OF ok] by (simp add: length_lastn)
  ultimately show ?thesis by (simp add: log_ok_def)
qed

lemma log_denials_snoc: "log_denials (ds @ [(ft, code, ms)]) = record_at_ms ft code ms (log_denials ds)"
  by (simp add: log_denials_def)

lemma log_denials_ok: "log_ok (log_denials ds)"
proof (induction ds rule: rev_induct)
  case Nil
  show ?case by (simp add: log_denials_def log_ok_def)
next
  case (snoc d ds)
  obtain ft code ms where "d = (ft, code, ms)" by (cases d)
  with snoc show ?case by (simp add: log_denials_snoc record_ok)
qed

text \<open>All flows ever denied with their reasons, in the order of their last denial.\<close>

definition last_denied :: "denial list \<Rightarrow> (ip_addr \<times> ip_addr \<times> u8 \<times> u16 \<times> string) list" where
  "last_denied ds = fold (\<lambda>(ft, code, ms). touch (flow_key ft code)) ds []"

lemma distinct_last_denied: "distinct (last_denied ds)"
proof (induction ds rule: rev_induct)
  case (snoc d ds)
  then show ?case by (cases d) (simp add: last_denied_def distinct_touch)
qed (simp add: last_denied_def)

text \<open>C40. After any sequence of denials the log holds the flows and reasons denied most recently, at most as many as its
  size, each once and in the order of its last denial: a flow that is denied over and over never pushes the others out.\<close>

theorem deny_log_keeps_most_recent:
  "map deny_key (log_denials ds) = lastn DENY_LOG_SIZE (last_denied ds) \<and> distinct (map deny_key (log_denials ds)) \<and>
   length (log_denials ds) \<le> DENY_LOG_SIZE"
proof -
  have "map deny_key (log_denials ds) = lastn DENY_LOG_SIZE (last_denied ds)"
  proof (induction ds rule: rev_induct)
    case Nil
    show ?case by (simp add: log_denials_def last_denied_def lastn_def)
  next
    case (snoc d ds)
    obtain ft code ms where d: "d = (ft, code, ms)" by (cases d)
    have "last_denied (ds @ [d]) = touch (flow_key ft code) (last_denied ds)" by (simp add: last_denied_def d)
    then show ?case
      unfolding d log_denials_snoc record_keys [OF log_denials_ok] snoc
      by (simp add: lastn_touch_lastn distinct_last_denied DENY_LOG_SIZE_def)
  qed
  with log_denials_ok [of ds] show ?thesis by (simp add: log_ok_def)
qed

end
