(* ===== verification/Actor_Manager.thy ===== *)
theory Actor_Manager
  imports Hostnames Route_Cache Deny_Log
begin

text \<open>
  The state the managers of the service share, and the actor manager, \<^verbatim>\<open>vs/src/actor_mgr.rs\<close>: actors and nodes in the
  database, the table of where each adapter is docked and the table of anonymous addresses, both in memory only.
\<close>

subsection \<open>The state of the service\<close>

datatype service_error =
    SeIo
  | SeConfig
  | SeParam string
  | SeCapnp
  | SeAuthenticationFailed string
  | SeInternal string
  | SeTimeout string
  | SeEval eval_error
  | SePolicy policy_error
  | SeVisaDenied string
  | SeUtf8
  | SeCapnpSchema
  | SeAttribute actor_error
  | SeStore store_error
  | SeCrypto
  | SeQueueFull string
  | SeVsapiType
  | SeAdminKey string
  | SeTopology topology_error
  | SeResolver
  | SeSerialization
  | SeTrustedServiceNotFound string
  | SeTrustedServiceInit string
  | SeAttributesIndeterminate "string list"
  | SeApiResponse

text \<open>\<^verbatim>\<open>Arc<dyn TrustedServiceInterface>\<close>: what a trusted service answers, its revision and its name.\<close>

record attribute_source =
  as_source_id :: string
  as_revision :: u64
  as_query :: "(string \<times> string) list \<Rightarrow> (service_error, attribute list) result"

record revision_record =
  rr_revision :: "u64 option"
  rr_generation :: u64

type_synonym revisions = "(ip_addr, (string, revision_record) hashmap) hashmap"

record 'db service =
  sv_ck :: clock
  sv_world :: "'db world"
  sv_connections :: "(ip_addr, ip_addr) hashmap"
  sv_aaa :: "(ip_addr, ip_addr \<times> time) hashmap"
  sv_visas :: visa_store
  sv_last_purge :: "time option"
  sv_router :: router_inner
  sv_policy :: policy
  sv_sources :: "attribute_source list"
  sv_revisions :: revisions
  sv_deny_log :: deny_log

text \<open>The configuration and the code outside the sources: the codec of visas, membership of an address in a network given
  by its address and prefix length, the version number a policy carries, the orders in which
  a hash set of source names and one of addresses are walked. What the other tasks do while one of them waits
  is a function of the state; the number says at which point of the waiting task.\<close>

record 'db service_env =
  se_store :: "'db store_env"
  se_codec :: codec
  se_vs_addr :: ip_addr
  se_vsapi_port :: "u16 option"
  se_net_contains :: "ip_addr \<Rightarrow> nat \<Rightarrow> ip_addr \<Rightarrow> bool"
  se_policy_version :: "policy \<Rightarrow> u64 option"
  se_source_order :: "string list \<Rightarrow> string list"
  se_addr_order :: "ip_addr list \<Rightarrow> ip_addr list"
  se_pause :: "nat \<Rightarrow> 'db service \<Rightarrow> 'db service"

type_synonym ('db, 'a) service_action = "('db service, service_error, 'a) action"

definition map_err :: "('e \<Rightarrow> 'd) \<Rightarrow> ('e, 'a) result \<Rightarrow> ('d, 'a) result" where
  "map_err f r = (case r of Inr a \<Rightarrow> Inr a | Inl (Err e) \<Rightarrow> Inl (Err (f e)) | Inl Panic \<Rightarrow> Inl Panic)"

definition store_op ::
  "'db service_env \<Rightarrow> ('db store_env \<Rightarrow> ('db world, store_error, 'a) action) \<Rightarrow> ('db service, store_error, 'a) action" where
  "store_op e m s =
     (case m ((se_store e)\<lparr>en_ck := sv_ck s\<rparr>) (sv_world s) of (w, r) \<Rightarrow> (s\<lparr>sv_world := w\<rparr>, r))"

text \<open>The conversion \<^verbatim>\<open>?\<close> makes of a store error.\<close>

definition on_store ::
  "'db service_env \<Rightarrow> ('db store_env \<Rightarrow> ('db world, store_error, 'a) action) \<Rightarrow> ('db, 'a) service_action" where
  "on_store e m s = (case store_op e m s of (s', r) \<Rightarrow> (s', map_err SeStore r))"

definition modify :: "('s \<Rightarrow> 's) \<Rightarrow> ('s, 'e, unit) action" where
  "modify f s = (f s, Inr ())"

definition gets :: "('s \<Rightarrow> 'a) \<Rightarrow> ('s, 'e, 'a) action" where
  "gets f s = (s, Inr (f s))"

definition pause :: "'db service_env \<Rightarrow> nat \<Rightarrow> ('db service, 'e, unit) action" where
  "pause e n = modify (se_pause e n)"

definition unwrap_or_panic :: "'a option \<Rightarrow> ('s, 'e, 'a) action" where
  "unwrap_or_panic r s = (s, case r of None \<Rightarrow> Inl Panic | Some a \<Rightarrow> Inr a)"

definition HOURS :: "int \<Rightarrow> time" where
  "HOURS n = n * 3600 * 1000000000"

definition DEFAULT_AUTH_EXPIRATION :: time where "DEFAULT_AUTH_EXPIRATION = HOURS 4"

definition VS_CN :: string where "VS_CN = ''vs.zpr''"

definition VS_ZPR_ADDR :: ip_addr where
  "VS_ZPR_ADDR = V6 (push_bit 112 0xfd5a + push_bit 96 0x5052 + 1)"

definition SERVICE_AUTHENTICATION :: string where "SERVICE_AUTHENTICATION = ''Authentication''"

subsection \<open>Nodes\<close>

record culled_node =
  cn_node_addr :: ip_addr
  cn_adapter_addrs :: "ip_addr list"

definition remove_actor_by_zpr_addr :: "'db service_env \<Rightarrow> ip_addr \<Rightarrow> ('db, unit) service_action" where
  "remove_actor_by_zpr_addr e a =
     andthen (on_store e (\<lambda>en. rm_actor_by_zpr_addr en a)) (\<lambda>_.
     andthen (gets (\<lambda>s. hm_get (sv_connections s) a)) (\<lambda>docked.
     andthen (modify (\<lambda>s. s\<lparr>sv_connections := hm_remove a (sv_connections s)\<rparr>)) (\<lambda>_.
     case docked of
       None \<Rightarrow> yield ()
     | Some node \<Rightarrow> attempt (store_op e (\<lambda>en. remove_connected_adapter en node a)) (\<lambda>_. yield ()))))"

definition remove_node :: "'db service_env \<Rightarrow> ip_addr \<Rightarrow> ('db, unit) service_action" where
  "remove_node e n =
     andthen (on_store e (\<lambda>en. node_repo_remove en n)) (\<lambda>_.
     andthen (modify (\<lambda>s. s\<lparr>sv_connections := filter (\<lambda>(_, v). v \<noteq> n) (sv_connections s)\<rparr>)) (\<lambda>_.
     modify (\<lambda>s. s\<lparr>sv_world := (sv_world s)\<lparr>w_counters := remove_node_info n (w_counters (sv_world s))\<rparr>\<rparr>)))"

definition cull_node :: "'db service_env \<Rightarrow> ip_addr \<Rightarrow> ('db, culled_node) service_action" where
  "cull_node e n =
     attempt (store_op e (\<lambda>en. get_connected_adapters en n)) (\<lambda>r.
       case r of
         Inr adapters \<Rightarrow> yield \<lparr>cn_node_addr = n, cn_adapter_addrs = adapters\<rparr>
       | Inl (StNotFound _) \<Rightarrow> yield \<lparr>cn_node_addr = n, cn_adapter_addrs = []\<rparr>
       | Inl err \<Rightarrow> throw (SeStore err))"

definition finish_cull :: "'db service_env \<Rightarrow> ip_addr \<Rightarrow> ('db, unit) service_action" where
  "finish_cull e n = andthen (remove_actor_by_zpr_addr e n) (\<lambda>_. remove_node e n)"

text \<open>A node last seen in the future is not stale.\<close>

definition node_is_stale :: "time \<Rightarrow> time option \<Rightarrow> bool" where
  "node_is_stale now last_seen = (case last_seen of None \<Rightarrow> True | Some t \<Rightarrow> now - t > DEFAULT_AUTH_EXPIRATION)"

definition restore_docking :: "'db service_env \<Rightarrow> ip_addr \<Rightarrow> ('db, unit) service_action" where
  "restore_docking e n =
     attempt (store_op e (\<lambda>en. clear_node_vss en n)) (\<lambda>_.
     attempt (store_op e (\<lambda>en. get_connected_adapters en n)) (\<lambda>r.
       case r of
         Inr adapters \<Rightarrow> modify (\<lambda>s. s\<lparr>sv_connections := fold (\<lambda>a. hm_insert a n) adapters (sv_connections s)\<rparr>)
       | Inl _ \<Rightarrow> yield ()))"

definition refresh_node :: "'db service_env \<Rightarrow> ip_addr \<Rightarrow> ('db, culled_node option) service_action" where
  "refresh_node e n =
     attempt (store_op e (\<lambda>en. get_actor_by_zpr_addr en n)) (\<lambda>r.
       case r of
         Inl (StNotFound _) \<Rightarrow> andthen (cull_node e n) (\<lambda>c. yield (Some c))
       | Inl err \<Rightarrow> throw (SeStore err)
       | Inr _ \<Rightarrow>
           andthen (on_store e (\<lambda>en. get_last_seen_time en n)) (\<lambda>last_seen.
           andthen (gets (\<lambda>s. node_is_stale (ck_wall (sv_ck s)) last_seen)) (\<lambda>stale.
           if stale then andthen (cull_node e n) (\<lambda>c. yield (Some c))
           else andthen (restore_docking e n) (\<lambda>_. yield None))))"

definition refresh_state :: "'db service_env \<Rightarrow> ('db, culled_node list) service_action" where
  "refresh_state e = andthen (on_store e list_node_addrs) (\<lambda>nodes. collect nodes (refresh_node e))"

definition add_node :: "'db service_env \<Rightarrow> actor \<Rightarrow> bool \<Rightarrow> string set \<Rightarrow> ('db, unit) service_action" where
  "add_node e actor reconnect pnames =
     (if \<not> is_node actor then throw (SeInternal ''attempt to add non-node actor as node'')
      else
      andthen (if reconnect then on_store e (\<lambda>en. Actor_Store.update_actor en actor pnames)
               else
               andthen (unwrap_or_panic (zpr_addr actor)) (\<lambda>a.
               andthen (on_store e (\<lambda>en. node_repo_remove en a)) (\<lambda>_.
               andthen (modify (\<lambda>s. s\<lparr>sv_world := (sv_world s)\<lparr>w_counters := remove_node_info a (w_counters (sv_world s))\<rparr>\<rparr>)) (\<lambda>_.
               on_store e (\<lambda>en. add_actor_replacing en actor pnames))))) (\<lambda>_.
      andthen (on_store e (\<lambda>en. lift_result (new_from_node_actor (ck_wall (en_ck en)) actor))) (\<lambda>node.
      andthen (on_store e (\<lambda>en. node_repo_add en node)) (\<lambda>_.
      andthen (unwrap_or_panic (zpr_addr actor)) (\<lambda>a.
      on_store e (\<lambda>en. update_last_seen_time en a))))))"

subsection \<open>Adapters\<close>

definition mgr_update_actor :: "'db service_env \<Rightarrow> actor \<Rightarrow> string set \<Rightarrow> ('db, unit) service_action" where
  "mgr_update_actor e actor pnames = on_store e (\<lambda>en. Actor_Store.update_actor en actor pnames)"

definition dock_adapter :: "'db service_env \<Rightarrow> ip_addr \<Rightarrow> ip_addr \<Rightarrow> ('db, unit) service_action" where
  "dock_adapter e a n =
     andthen (on_store e (\<lambda>en. add_connected_adater en n a)) (\<lambda>_.
     modify (\<lambda>s. s\<lparr>sv_connections := hm_insert a n (sv_connections s)\<rparr>))"

definition add_adapter_via_node :: "'db service_env \<Rightarrow> actor \<Rightarrow> ip_addr \<Rightarrow> string set \<Rightarrow> ('db, unit) service_action" where
  "add_adapter_via_node e actor n pnames =
     (if is_node actor then throw (SeInternal ''attempt to add node actor as adapter'')
      else case zpr_addr actor of
        None \<Rightarrow> throw (SeInternal ''attempt to add adapter actor without ZPR address'')
      | Some a \<Rightarrow>
          andthen (if get_cn actor = Some VS_CN \<and> a = VS_ZPR_ADDR
                   then on_store e (\<lambda>en. add_actor_replacing en actor pnames)
                   else on_store e (\<lambda>en. add_actor en actor pnames)) (\<lambda>_.
          dock_adapter e a n))"

definition hack_add_adapter_no_node :: "'db service_env \<Rightarrow> actor \<Rightarrow> string set \<Rightarrow> ('db, unit) service_action" where
  "hack_add_adapter_no_node e actor pnames =
     (if is_node actor then throw (SeInternal ''attempt to add node actor as adapter'')
      else on_store e (\<lambda>en. add_actor_replacing en actor pnames))"

definition hack_set_vs_docking_node :: "'db service_env \<Rightarrow> ip_addr \<Rightarrow> ('db, unit) service_action" where
  "hack_set_vs_docking_node e n = dock_adapter e VS_ZPR_ADDR n"

definition mgr_get_actor :: "'db service_env \<Rightarrow> ip_addr \<Rightarrow> ('db, actor option) service_action" where
  "mgr_get_actor e a =
     attempt (store_op e (\<lambda>en. get_actor_by_zpr_addr en a)) (\<lambda>r.
       case r of
         Inr actor \<Rightarrow> yield (Some actor)
       | Inl (StNotFound _) \<Rightarrow> yield None
       | Inl err \<Rightarrow> throw (SeStore err))"

subsection \<open>Docking\<close>

definition get_docking_node_for_adapter :: "'db service \<Rightarrow> ip_addr \<Rightarrow> ip_addr option" where
  "get_docking_node_for_adapter s a = hm_get (sv_connections s) a"

definition get_docking_node_for_actor :: "'db service \<Rightarrow> actor \<Rightarrow> ip_addr option" where
  "get_docking_node_for_actor s actor =
     (if is_node actor then zpr_addr actor
      else case zpr_addr actor of None \<Rightarrow> None | Some a \<Rightarrow> get_docking_node_for_adapter s a)"

definition register_aaa :: "ip_addr \<Rightarrow> ip_addr \<Rightarrow> time \<Rightarrow> 'db service \<Rightarrow> 'db service" where
  "register_aaa a n expiry s = s\<lparr>sv_aaa := hm_insert a (n, expiry) (sv_aaa s)\<rparr>"

text \<open>An entry that has lapsed is dropped when it is asked for.\<close>

definition get_docking_node_for_aaa :: "ip_addr \<Rightarrow> ('db service, 'e, ip_addr option) action" where
  "get_docking_node_for_aaa a s =
     (case hm_get (sv_aaa s) a of
        None \<Rightarrow> (s, Inr None)
      | Some (n, expiry) \<Rightarrow>
          if expiry > ck_wall (sv_ck s) then (s, Inr (Some n))
          else (s\<lparr>sv_aaa := hm_remove a (sv_aaa s)\<rparr>, Inr None))"

subsection \<open>Services\<close>

record service_detail =
  sd_service_name :: string
  sd_zpr_addr :: ip_addr
  sd_actor_cn :: string
  sd_connect_via :: "ip_addr option"

definition single_or_default :: "attribute \<Rightarrow> string" where
  "single_or_default at = (case get_single_value at of Inr v \<Rightarrow> v | Inl _ \<Rightarrow> [])"

fun detail_values :: "attribute list \<Rightarrow> string option \<Rightarrow> ip_addr option \<Rightarrow> string option \<times> ip_addr option" where
  "detail_values [] cn via = (cn, via)"
| "detail_values (at # ats) cn via =
     (if at_key at = CN then detail_values ats (Some (single_or_default at)) via
      else if at_key at = CONNECT_VIA \<and> single_or_default at \<noteq> []
      then (case parse_ip (single_or_default at) of
              Some ip \<Rightarrow> detail_values ats cn (Some ip)
            | None \<Rightarrow> detail_values ats cn via)
      else detail_values ats cn via)"

definition get_service_detail :: "'db service_env \<Rightarrow> string \<Rightarrow> ('db, service_detail option) service_action" where
  "get_service_detail e name =
     andthen (on_store e (\<lambda>en. get_zpr_addr_for_service en name)) (\<lambda>r.
     case r of
       None \<Rightarrow> yield None
     | Some addr \<Rightarrow>
         andthen (on_store e (\<lambda>en. get_actor_attrs en addr [CN, CONNECT_VIA])) (\<lambda>ats.
         yield (if ats = [] then None
                else case detail_values ats None None of
                  (None, _) \<Rightarrow> None
                | (Some cn, via) \<Rightarrow>
                    Some \<lparr>sd_service_name = name, sd_zpr_addr = addr, sd_actor_cn = cn, sd_connect_via = via\<rparr>)))"

definition has_auth_services :: "'db service_env \<Rightarrow> ip_addr \<Rightarrow> ('db, bool) service_action" where
  "has_auth_services e a =
     attempt (store_op e (\<lambda>en. list_services_for_actor en a)) (\<lambda>r.
       case r of
         Inl (StNotFound _) \<Rightarrow> yield False
       | Inl err \<Rightarrow> throw (SeStore err)
       | Inr offered \<Rightarrow>
           if offered = [] then yield False
           else gets (\<lambda>s. list_ex (\<lambda>svc. svc_id svc \<in> set offered)
                  (list_services_by_kind (sv_policy s) SERVICE_AUTHENTICATION)))"

end
