(* ===== verification/Trusted_Attributes.thy ===== *)
theory Trusted_Attributes
  imports Actor_Manager
begin

text \<open>
  Attributes vended by trusted services: the manager of the services with the revision each actor was last refreshed
  from, \<^verbatim>\<open>vs/src/trusted_services/manager.rs\<close> and \<^verbatim>\<open>mod.rs\<close>, and the refresh of an actor,
  \<^verbatim>\<open>vs/src/actor_attributes.rs\<close>. A trusted service itself is a value of the interface type: its name, its current revision
  and the answer to a query.
\<close>

subsection \<open>Revisions\<close>

definition REVISION_NEVER :: u64 where "REVISION_NEVER = 0"

definition revision_default :: revision_record where
  "revision_default = \<lparr>rr_revision = None, rr_generation = 0\<rparr>"

definition actor_records :: "revisions \<Rightarrow> ip_addr \<Rightarrow> (string, revision_record) hashmap" where
  "actor_records rs a = (case hm_get rs a of None \<Rightarrow> [] | Some m \<Rightarrow> m)"

text \<open>The record of an actor and a source, made anew when it is absent.\<close>

definition revision_of :: "revisions \<Rightarrow> ip_addr \<Rightarrow> string \<Rightarrow> revision_record" where
  "revision_of rs a src = (case hm_get (actor_records rs a) src of None \<Rightarrow> revision_default | Some r \<Rightarrow> r)"

definition put_revision :: "ip_addr \<Rightarrow> string \<Rightarrow> revision_record \<Rightarrow> revisions \<Rightarrow> revisions" where
  "put_revision a src r rs = hm_insert a (hm_insert src r (actor_records rs a)) rs"

definition stale_sources_for_actor :: "attribute_source list \<Rightarrow> revisions \<Rightarrow> ip_addr \<Rightarrow> (string \<times> u64) list" where
  "stale_sources_for_actor sources rs a =
     List.map_filter (\<lambda>src. let recorded = Option.bind (hm_get (actor_records rs a) (as_source_id src)) rr_revision
       in if recorded \<noteq> Some (as_revision src) then Some (as_source_id src, as_revision src) else None) sources"

definition invalidation_generation :: "revisions \<Rightarrow> ip_addr \<Rightarrow> string \<Rightarrow> u64" where
  "invalidation_generation rs a src =
     (case hm_get (actor_records rs a) src of None \<Rightarrow> 0 | Some r \<Rightarrow> rr_generation r)"

definition record_revision_at_generation :: "ip_addr \<Rightarrow> string \<Rightarrow> u64 \<Rightarrow> u64 \<Rightarrow> revisions \<Rightarrow> revisions \<times> bool" where
  "record_revision_at_generation a src revn observed rs =
     (let r = revision_of rs a src
      in if rr_generation r \<noteq> observed then (put_revision a src r rs, False)
         else (put_revision a src (r\<lparr>rr_revision := Some revn\<rparr>) rs, True))"

definition forget_actor_revisions :: "ip_addr \<Rightarrow> revisions \<Rightarrow> revisions" where
  "forget_actor_revisions a rs = hm_remove a rs"

definition forget_source_revision :: "ip_addr \<Rightarrow> string \<Rightarrow> revisions \<Rightarrow> revisions" where
  "forget_source_revision a src rs =
     put_revision a src \<lparr>rr_revision = None, rr_generation = rr_generation (revision_of rs a src) + 1\<rparr> rs"

definition get_attributes_from_source_for_actor ::
  "attribute_source list \<Rightarrow> string \<Rightarrow> (string \<times> string) list \<Rightarrow> (service_error, attribute list) result" where
  "get_attributes_from_source_for_actor sources src identities =
     (case find (\<lambda>s. as_source_id s = src) sources of
        Some s \<Rightarrow> as_query s identities
      | None \<Rightarrow> Inl (Err (SeTrustedServiceNotFound src)))"

definition has_source :: "attribute_source list \<Rightarrow> string \<Rightarrow> bool" where
  "has_source sources src \<longleftrightarrow> list_ex (\<lambda>s. as_source_id s = src) sources"

subsection \<open>Identities and authority\<close>

definition USER_NAMESPACE_PREFIX :: string where "USER_NAMESPACE_PREFIX = ''user.''"

definition starts_with :: "string \<Rightarrow> string \<Rightarrow> bool" where
  "starts_with p s \<longleftrightarrow> take (length p) s = p"

definition lookup_identities :: "string list \<Rightarrow> attribute list \<Rightarrow> (string \<times> string) list" where
  "lookup_identities lookup_keys ats =
     List.map_filter (\<lambda>at.
       if at_key at \<in> set lookup_keys \<or> at_key at = USER_AUTHORITY
       then (case get_single_value at of Inr v \<Rightarrow> Some (at_key at, v) | Inl _ \<Rightarrow> None) else None) ats"

definition derive_user_authority :: "time \<Rightarrow> string \<Rightarrow> attribute list \<Rightarrow> string option \<Rightarrow> attribute option" where
  "derive_user_authority now src ats existing =
     (if (case existing of None \<Rightarrow> False | Some x \<Rightarrow> x \<noteq> src) then None
      else if list_ex (\<lambda>at. at_key at = USER_AUTHORITY) ats then None
      else case map at_expires_at (filter (\<lambda>at. starts_with USER_NAMESPACE_PREFIX (at_key at)) ats) of
        [] \<Rightarrow> None
      | t # ts \<Rightarrow> Some (build_value src (expires (fold min ts t) (source_builder now src USER_AUTHORITY))))"

subsection \<open>Refreshing an actor\<close>

record refresh_outcome =
  ro_changed :: bool
  ro_revisions :: "(string \<times> u64 \<times> u64) list"
  ro_indeterminate :: "string list"

definition outcome_default :: refresh_outcome where
  "outcome_default = \<lparr>ro_changed = False, ro_revisions = [], ro_indeterminate = []\<rparr>"

definition prune_from_source :: "actor \<Rightarrow> string \<Rightarrow> (attribute \<Rightarrow> bool) \<Rightarrow> actor \<times> bool" where
  "prune_from_source actor src P =
     (let stale = map at_key (filter (\<lambda>at. at_source at = src \<and> P at) (attrs_iter actor))
      in (fold (\<lambda>k a. snd (remove_attribute k a)) stale actor, stale \<noteq> []))"

fun add_vended :: "attribute list \<Rightarrow> actor \<times> bool \<Rightarrow> actor \<times> bool" where
  "add_vended [] (actor, changed) = (actor, changed)"
| "add_vended (at # ats) (actor, changed) =
     (case add_attribute at actor of
        Inr actor' \<Rightarrow> add_vended ats (actor', True)
      | Inl _ \<Rightarrow> add_vended ats (actor, changed))"

definition apply_answer ::
  "time \<Rightarrow> string option \<Rightarrow> string \<Rightarrow> (u64 \<times> u64) option \<Rightarrow> attribute list \<Rightarrow> actor \<times> refresh_outcome \<Rightarrow> actor \<times> refresh_outcome" where
  "apply_answer now starting_authority src stale_rev vended = (\<lambda>(actor, out).
     let ts_attrs = vended @ (case derive_user_authority now src vended starting_authority of None \<Rightarrow> [] | Some at \<Rightarrow> [at]);
         returned = set (map at_key ts_attrs);
         (actor1, changed1) = add_vended ts_attrs (actor, ro_changed out)
     in case stale_rev of
          Some (revn, generation) \<Rightarrow>
            (case prune_from_source actor1 src (\<lambda>at. at_key at \<notin> returned) of (actor2, pruned) \<Rightarrow>
               (actor2, out\<lparr>ro_changed := changed1 \<or> pruned, ro_revisions := ro_revisions out @ [(src, revn, generation)]\<rparr>))
        | None \<Rightarrow>
            (case prune_from_source actor1 src (is_expired now) of (actor2, pruned) \<Rightarrow>
               (actor2, out\<lparr>ro_changed := changed1 \<or> pruned\<rparr>)))"

definition apply_failure :: "string \<Rightarrow> (u64 \<times> u64) option \<Rightarrow> actor \<times> refresh_outcome \<Rightarrow> actor \<times> refresh_outcome" where
  "apply_failure src stale_rev = (\<lambda>(actor, out).
     case stale_rev of
       None \<Rightarrow> (actor, out)
     | Some (_, generation) \<Rightarrow>
         (case prune_from_source actor src (\<lambda>_. True) of (actor1, pruned) \<Rightarrow>
            (actor1, out\<lparr>ro_changed := ro_changed out \<or> pruned,
               ro_revisions := ro_revisions out @ [(src, REVISION_NEVER, generation)],
               ro_indeterminate := ro_indeterminate out @ [src]\<rparr>)))"

fun refresh_sources ::
  "'db service_env \<Rightarrow> (string \<times> string) list \<Rightarrow> string option \<Rightarrow> (string, u64 \<times> u64) hashmap \<Rightarrow> string list
     \<Rightarrow> actor \<times> refresh_outcome \<Rightarrow> ('db, actor \<times> refresh_outcome) service_action" where
  "refresh_sources e identities authority stale [] acc = yield acc"
| "refresh_sources e identities authority stale (src # srcs) acc =
     andthen (pause e 0) (\<lambda>_.
     andthen (gets (\<lambda>s. (get_attributes_from_source_for_actor (sv_sources s) src identities, ck_wall (sv_ck s)))) (\<lambda>(answer, now).
     case answer of
       Inr vended \<Rightarrow> refresh_sources e identities authority stale srcs
         (apply_answer now authority src (hm_get stale src) vended acc)
     | Inl (Err _) \<Rightarrow> refresh_sources e identities authority stale srcs (apply_failure src (hm_get stale src) acc)
     | Inl Panic \<Rightarrow> unwrap_or_panic None))"

definition refresh_expired_attributes ::
  "'db service_env \<Rightarrow> string list \<Rightarrow> actor \<Rightarrow> ('db, actor \<times> refresh_outcome) service_action" where
  "refresh_expired_attributes e lookup_keys actor =
     (case zpr_addr actor of
        None \<Rightarrow> yield (actor, outcome_default)
      | Some a \<Rightarrow>
          andthen (gets (\<lambda>s.
            (map at_source (filter (is_expired (ck_wall (sv_ck s))) (attrs_iter actor)),
             fold (\<lambda>(src, revn). hm_insert src (revn, invalidation_generation (sv_revisions s) a src))
               (stale_sources_for_actor (sv_sources s) (sv_revisions s) a) []))) (\<lambda>(expired, stale).
          refresh_sources e (lookup_identities lookup_keys (attrs_iter actor))
            (Option.bind (get_attribute actor USER_AUTHORITY) (\<lambda>at. first (at_value at)))
            stale (se_source_order e (remdups (expired @ map fst stale))) (actor, outcome_default)))"

definition commit_revisions :: "refresh_outcome \<Rightarrow> ip_addr \<Rightarrow> revisions \<Rightarrow> revisions" where
  "commit_revisions out a rs =
     fold (\<lambda>(src, revn, generation) rs. fst (record_revision_at_generation a src revn generation rs)) (ro_revisions out) rs"

definition restamp_services :: "time \<Rightarrow> policy \<Rightarrow> actor \<Rightarrow> actor" where
  "restamp_services now p actor =
     (let claims = filter (\<lambda>at. at_key at \<notin> set POLICY_STAMPED) (attrs_iter actor);
          granted = join_services_for_role now p claims (is_node actor)
      in if granted = set (services_iter actor) then actor else set_services now granted actor)"

definition policy_service_names :: "policy \<Rightarrow> string set" where
  "policy_service_names p = set (map svc_id (hm_values (services p)))"

definition refresh_and_persist_actor ::
  "'db service_env \<Rightarrow> actor \<Rightarrow> ('db, actor \<times> bool) service_action" where
  "refresh_and_persist_actor e actor =
     andthen (gets sv_policy) (\<lambda>p.
     andthen (refresh_expired_attributes e (lookup_identity_keys p) actor) (\<lambda>(actor1, out).
     andthen (if ro_changed out
              then andthen (gets (\<lambda>s. restamp_services (ck_wall (sv_ck s)) p actor1)) (\<lambda>actor2.
                   andthen (gets (\<lambda>s. policy_service_names (sv_policy s))) (\<lambda>names.
                   andthen (mgr_update_actor e actor2 names) (\<lambda>_.
                   andthen (pause e 1) (\<lambda>_. yield actor2))))
              else yield actor1) (\<lambda>actor2.
     case zpr_addr actor2 of
       None \<Rightarrow> yield (actor2, ro_changed out)
     | Some a \<Rightarrow>
         andthen (modify (\<lambda>s. s\<lparr>sv_revisions := commit_revisions out a (sv_revisions s)\<rparr>)) (\<lambda>_.
         if ro_indeterminate out \<noteq> [] then throw (SeAttributesIndeterminate (ro_indeterminate out))
         else yield (actor2, ro_changed out)))))"

fun refresh_actors :: "'db service_env \<Rightarrow> ip_addr list \<Rightarrow> u32 \<times> u32 \<times> u32 \<Rightarrow> ('db, u32 \<times> u32 \<times> u32) service_action" where
  "refresh_actors e [] counts = yield counts"
| "refresh_actors e (a # as) (refreshed, unresolved, failed) =
     attempt (mgr_get_actor e a) (\<lambda>r.
       case r of
         Inr (Some actor) \<Rightarrow>
           attempt (refresh_and_persist_actor e actor) (\<lambda>r.
             refresh_actors e as (case r of
               Inr (_, True) \<Rightarrow> (refreshed + 1, unresolved, failed)
             | Inr (_, False) \<Rightarrow> (refreshed, unresolved, failed)
             | Inl _ \<Rightarrow> (refreshed, unresolved, failed + 1)))
       | Inr None \<Rightarrow> refresh_actors e as (refreshed, unresolved + 1, failed)
       | Inl _ \<Rightarrow> refresh_actors e as (refreshed, unresolved, failed + 1))"

subsection \<open>A notification beats the refresh it overtakes\<close>

text \<open>What else happens to the records while a refresh is under way: changes are notified, other refreshes commit, actors
  disconnect.\<close>

datatype revision_op =
    Notified ip_addr string
  | Committed ip_addr string u64 u64
  | Departed ip_addr

fun run_revision_op :: "revision_op \<Rightarrow> revisions \<Rightarrow> revisions" where
  "run_revision_op (Notified a src) rs = forget_source_revision a src rs"
| "run_revision_op (Committed a src revn observed) rs = fst (record_revision_at_generation a src revn observed rs)"
| "run_revision_op (Departed a) rs = forget_actor_revisions a rs"

lemma revision_of_put: "revision_of (put_revision a src r rs) b t = (if a = b \<and> src = t then r else revision_of rs b t)"
  by (auto simp: revision_of_def put_revision_def actor_records_def)

lemma invalidation_generation_eq: "invalidation_generation rs a src = rr_generation (revision_of rs a src)"
  by (auto simp: invalidation_generation_def revision_of_def revision_default_def split: option.splits)

lemma revision_op_generation:
  assumes "opn \<noteq> Departed a"
  shows "rr_generation (revision_of (run_revision_op opn rs) a src) =
    rr_generation (revision_of rs a src) + (if opn = Notified a src then 1 else 0)"
proof (cases opn)
  case (Departed b)
  with assms show ?thesis
    by (auto simp: forget_actor_revisions_def revision_of_def actor_records_def)
qed (auto simp: forget_source_revision_def record_revision_at_generation_def revision_of_put Let_def)

lemma revision_ops_generation:
  assumes "Departed a \<notin> set ops"
  shows "rr_generation (revision_of (fold run_revision_op ops rs) a src) =
    rr_generation (revision_of rs a src) + of_nat (count_list ops (Notified a src))"
  using assms
proof (induction ops arbitrary: rs)
  case (Cons opn ops)
  then have "opn \<noteq> Departed a" "Departed a \<notin> set ops" by auto
  with Cons.IH show ?case by (simp add: revision_op_generation algebra_simps)
qed simp

lemma count_list_pos: "x \<in> set xs \<Longrightarrow> 0 < count_list xs x"
  by (induction xs) auto

text \<open>C38. A refresh commits the revision it read only if no change of that source was notified for that actor since the
  refresh looked at the generation: whatever other notifications and commits happened meanwhile, its commit is dropped and
  the record left as it is, as long as the actor did not disconnect.\<close>

theorem notification_beats_refresh:
  assumes "Notified a src \<in> set ops" and "Departed a \<notin> set ops" and "length ops < 2 ^ 64"
    and "rs' = fold run_revision_op ops rs"
    and "record_revision_at_generation a src revn (invalidation_generation rs a src) rs' = (rs'', landed)"
  shows "\<not> landed \<and> (\<forall>b t. revision_of rs'' b t = revision_of rs' b t)"
proof -
  define n where "n = count_list ops (Notified a src)"
  have "0 < n" "n < 2 ^ 64"
    using assms(1,3) count_list_pos [of "Notified a src" ops] count_le_length [of ops "Notified a src"] by (simp_all add: n_def)
  then have "(of_nat n :: u64) \<noteq> 0" by (simp add: of_nat_eq_0_iff word_of_nat_eq_0_iff nat_dvd_not_less)
  then have "rr_generation (revision_of rs' a src) \<noteq> invalidation_generation rs a src"
    using revision_ops_generation [OF assms(2), of rs src] assms(4)
    by (simp add: invalidation_generation_eq flip: n_def)
  with assms(5) show ?thesis
    by (auto simp: record_revision_at_generation_def Let_def revision_of_put)
qed

theorem notification_beats_refresh_witness:
  "\<exists>rs''. record_revision_at_generation (V4 1) ''hr'' 7 (invalidation_generation [] (V4 1) ''hr'')
     (fold run_revision_op [Notified (V4 1) ''hr''] []) = (rs'', False) \<and>
   stale_sources_for_actor [\<lparr>as_source_id = ''hr'', as_revision = 7, as_query = (\<lambda>_. Inr [])\<rparr>] rs'' (V4 1) \<noteq> []"
proof -
  obtain rs'' landed where out: "record_revision_at_generation (V4 1) ''hr'' 7 (invalidation_generation [] (V4 1) ''hr'')
      (fold run_revision_op [Notified (V4 1) ''hr''] []) = (rs'', landed)" by fastforce
  have "\<not> landed" using notification_beats_refresh [OF _ _ _ refl out] by simp
  moreover have "stale_sources_for_actor [\<lparr>as_source_id = ''hr'', as_revision = 7, as_query = (\<lambda>_. Inr [])\<rparr>]
      (fst (record_revision_at_generation (V4 1) ''hr'' 7 (invalidation_generation [] (V4 1) ''hr'')
        (fold run_revision_op [Notified (V4 1) ''hr''] []))) (V4 1) \<noteq> []" by code_simp
  ultimately show ?thesis using out by auto
qed

text \<open>C39. The condition on disconnecting is needed: the record of an actor is dropped when it disconnects and its generation
  starts again at zero. Of a refresh that looked at the generation before a disconnect and commits after it, the commit
  lands exactly where the generation it saw is the number of changes notified since the actor last disconnected, however
  many were notified before; in particular one that saw generation zero lands when nothing was notified since.
  Where it lands the source does not count as stale for the actor that now has the address.\<close>

theorem disconnect_lets_old_refresh_land:
  assumes "Departed a \<notin> set after" and "rs' = fold run_revision_op (before @ Departed a # after) rs"
    and "record_revision_at_generation a src revn (invalidation_generation rs a src) rs' = (rs'', landed)"
  shows "(landed \<longleftrightarrow> invalidation_generation rs a src = of_nat (count_list after (Notified a src))) \<and>
    (landed \<longrightarrow> (src, revn) \<notin> set (stale_sources_for_actor sources rs'' a))"
proof -
  have "rr_generation (revision_of (forget_actor_revisions a (fold run_revision_op before rs)) a src) = 0"
    by (simp add: forget_actor_revisions_def revision_of_def actor_records_def revision_default_def)
  then have gen: "rr_generation (revision_of rs' a src) = of_nat (count_list after (Notified a src))"
    using revision_ops_generation [OF assms(1), of "forget_actor_revisions a (fold run_revision_op before rs)" src]
    by (simp add: assms(2))
  have "rr_revision (revision_of rs'' a src) = Some revn" if landed
    using that assms(3) by (auto simp: record_revision_at_generation_def Let_def revision_of_put split: if_splits)
  then have "Option.bind (hm_get (actor_records rs'' a) src) rr_revision = Some revn" if landed
    using that by (auto simp: revision_of_def revision_default_def split: option.splits)
  then have "(src, revn) \<notin> set (stale_sources_for_actor sources rs'' a)" if landed
    using that by (auto simp: stale_sources_for_actor_def set_map_filter Let_def split: if_splits)
  with gen assms(3) show ?thesis
    by (auto simp: record_revision_at_generation_def Let_def split: if_splits)
qed

theorem disconnect_lets_old_refresh_land_witness:
  "case record_revision_at_generation (V4 1) ''hr'' 7 (invalidation_generation [] (V4 1) ''hr'')
     (fold run_revision_op [Notified (V4 1) ''hr'', Departed (V4 1)] []) of
     (rs, landed) \<Rightarrow> landed \<and>
       (''hr'', 7) \<notin> set (stale_sources_for_actor [\<lparr>as_source_id = ''hr'', as_revision = 7, as_query = (\<lambda>_. Inr [])\<rparr>] rs (V4 1))"
proof -
  obtain rs landed where out: "record_revision_at_generation (V4 1) ''hr'' 7 (invalidation_generation [] (V4 1) ''hr'')
     (fold run_revision_op [Notified (V4 1) ''hr'', Departed (V4 1)] []) = (rs, landed)" by fastforce
  have zero: "invalidation_generation [] (V4 1) ''hr'' = 0"
    by (simp add: invalidation_generation_def actor_records_def)
  have "(landed \<longleftrightarrow> invalidation_generation [] (V4 1) ''hr'' = of_nat (count_list [] (Notified (V4 1) ''hr''))) \<and>
      (landed \<longrightarrow> (''hr'', 7) \<notin> set (stale_sources_for_actor [\<lparr>as_source_id = ''hr'', as_revision = 7, as_query = (\<lambda>_. Inr [])\<rparr>] rs (V4 1)))"
    by (rule disconnect_lets_old_refresh_land [where before = "[Notified (V4 1) ''hr'']" and after = "[]", OF _ _ out]) simp_all
  then show ?thesis unfolding out by (simp add: zero)
qed

end
