(* ===== verification/Visa_Manager.thy ===== *)
theory Visa_Manager
  imports Trusted_Attributes
begin

text \<open>
  The evaluation of a flow against policy and topology, \<^verbatim>\<open>vs/src/visa_policy.rs\<close>, and the visa manager,
  \<^verbatim>\<open>vs/src/visa_mgr.rs\<close>: making a visa, adjusting it for the node it is sent to, acknowledging installs and revocations,
  rechecking a visa and tearing down visas of departed nodes and actors.
\<close>

subsection \<open>The visa store as part of the service\<close>

definition repo_of :: "'db service \<Rightarrow> 'db visa_repo" where
  "repo_of s = \<lparr>rp_db = w_db (sv_world s), rp_store = sv_visas s, rp_last_purge = sv_last_purge s\<rparr>"

definition with_repo :: "'db visa_repo \<Rightarrow> 'db service \<Rightarrow> 'db service" where
  "with_repo r s = s\<lparr>sv_world := (sv_world s)\<lparr>w_db := rp_db r\<rparr>, sv_visas := rp_store r, sv_last_purge := rp_last_purge r\<rparr>"

definition repo_op ::
  "'db service_env \<Rightarrow> ('db db_connection \<Rightarrow> clock \<Rightarrow> 'db visa_repo \<Rightarrow> 'db visa_repo \<times> (store_error, 'a) result)
     \<Rightarrow> ('db service, store_error, 'a) action" where
  "repo_op e f s = (case f (en_conn (se_store e)) (sv_ck s) (repo_of s) of (r, res) \<Rightarrow> (with_repo r s, res))"

definition visa_op_action :: "'db service_env \<Rightarrow> visa_op \<Rightarrow> ('db service, store_error, bool) action" where
  "visa_op_action e opn = repo_op e (\<lambda>conn ck. visa_write (se_codec e) conn ck opn)"

definition as_service :: "('s, store_error, 'a) action \<Rightarrow> ('s, service_error, 'a) action" where
  "as_service m s = (case m s of (s', r) \<Rightarrow> (s', map_err SeStore r))"

definition read_visas :: "(clock \<Rightarrow> visa_store \<Rightarrow> 'a) \<Rightarrow> ('db service, 'e, 'a) action" where
  "read_visas f = gets (\<lambda>s. f (sv_ck s) (sv_visas s))"

subsection \<open>Evaluation of a flow\<close>

datatype policy_outcome = OutAllow "hit list" "route option" ip_addr ip_addr | OutDeny deny_code

definition resolve_docking_node :: "actor \<Rightarrow> ip_addr \<Rightarrow> ('db service, 'e, ip_addr option) action" where
  "resolve_docking_node actor a s =
     (case get_docking_node_for_actor s actor of
        Some n \<Rightarrow> (s, Inr (Some n))
      | None \<Rightarrow> get_docking_node_for_aaa a s)"

definition docking_node_for_addr :: "'db service_env \<Rightarrow> ip_addr \<Rightarrow> ('db service, 'e, ip_addr option) action" where
  "docking_node_for_addr e a =
     attempt (mgr_get_actor e a) (\<lambda>r.
     andthen (pause e 2) (\<lambda>_.
       case r of
         Inr (Some actor) \<Rightarrow> resolve_docking_node actor a
       | _ \<Rightarrow> get_docking_node_for_aaa a))"

text \<open>A lookup in the router, both of its lock sections at once.\<close>

definition get_routes_now :: "ip_addr \<Rightarrow> ip_addr \<Rightarrow> route_hint option \<Rightarrow> ('db service, 'e, route list) action" where
  "get_routes_now a b hint s =
     (case get_routes_read (sv_router s) a b hint of
        RouteHit rs \<Rightarrow> (s, Inr rs)
      | RouteMiss g computed \<Rightarrow>
          (case get_routes_commit a b hint g computed (sv_router s) of (inner, rs) \<Rightarrow> (s\<lparr>sv_router := inner\<rparr>, Inr rs)))"

definition eval_routes :: "residual \<Rightarrow> route list \<Rightarrow> (eval_error, final_eval_result) result" where
  "eval_routes r rts = Inl (Err (InternalError ''route evaluation not implemented''))"

definition auth_expired :: "time \<Rightarrow> actor \<Rightarrow> bool" where
  "auth_expired now actor = (case get_authentication_expiration actor of None \<Rightarrow> False | Some t \<Rightarrow> t < now)"

definition decide :: "ip_addr \<Rightarrow> ip_addr \<Rightarrow> ip_addr \<Rightarrow> ip_addr \<Rightarrow> route \<Rightarrow> partial_eval_result \<Rightarrow> ('db, policy_outcome) service_action" where
  "decide src_zpr dst_zpr dock_a dock_b best decision =
     (case decision of
        Deny (NoMatch _) \<Rightarrow> yield (OutDeny DcNoMatch)
      | AllowWithoutRoute hits \<Rightarrow> yield (OutAllow hits (Some best) dock_a dock_b)
      | Deny (DenyHits _) \<Rightarrow> yield (OutDeny DcDenied)
      | NeedsRoute res \<Rightarrow>
          andthen (get_routes_now src_zpr dst_zpr (res_hint res)) (\<lambda>rts.
          andthen (lift_result (map_err SeEval (eval_routes res rts))) (\<lambda>r.
          case r of
            FinalAllow hits \<Rightarrow> yield (OutAllow hits None dock_a dock_b)
          | FinalDenied _ \<Rightarrow> yield (OutDeny DcDenied)
          | FinalNoMatch _ \<Rightarrow> yield (OutDeny DcNoMatch))))"

definition evaluate_against_policy ::
  "actor \<Rightarrow> actor \<Rightarrow> ip_addr \<Rightarrow> ip_addr \<Rightarrow> packet_desc \<Rightarrow> policy \<Rightarrow> ('db, policy_outcome) service_action" where
  "evaluate_against_policy src dst src_zpr dst_zpr pkt p =
     andthen (gets (\<lambda>s. ck_wall (sv_ck s))) (\<lambda>now.
     if auth_expired now src then yield (OutDeny DcSourceAuthError)
     else if auth_expired now dst then yield (OutDeny DcDestAuthError)
     else
     andthen (resolve_docking_node src src_zpr) (\<lambda>a.
     case a of
       None \<Rightarrow> yield (OutDeny DcSourceNotFound)
     | Some dock_a \<Rightarrow>
         andthen (resolve_docking_node dst dst_zpr) (\<lambda>b.
         case b of
           None \<Rightarrow> yield (OutDeny DcDestNotFound)
         | Some dock_b \<Rightarrow>
             andthen (gets (\<lambda>s. get_best_route (sv_router s) dock_a dock_b)) (\<lambda>best.
             case best of
               None \<Rightarrow> yield (OutDeny DcNoRoute)
             | Some default_route \<Rightarrow>
                 andthen (lift_result (map_err SeEval (eval_request now p src dst pkt))) (\<lambda>decision.
                 decide src_zpr dst_zpr dock_a dock_b default_route decision)))))"

definition route_for_allow :: "hit list \<Rightarrow> route option \<Rightarrow> (service_error, route) result" where
  "route_for_allow hits default_route =
     (case hits of
        [] \<Rightarrow> Inl Panic
      | h # _ \<Rightarrow>
          (case hit_route h of
             Some r \<Rightarrow> Inr r
           | None \<Rightarrow>
               (case default_route of
                  Some r \<Rightarrow> Inr r
                | None \<Rightarrow> Inl (Err (SeInternal ''policy allowed visa but no route in hit and no default route'')))))"

subsection \<open>Paths\<close>

definition path_for_flow :: "'db service_env \<Rightarrow> ip_addr \<Rightarrow> route \<Rightarrow> ('db, ip_addr list option) service_action" where
  "path_for_flow e src r =
     (if rt_kind r \<noteq> Multihop then yield None
      else andthen (docking_node_for_addr e src) (\<lambda>dock.
      case dock of
        None \<Rightarrow> throw (SeInternal ''cannot orient visa path: source is not docked to any node'')
      | Some ingress \<Rightarrow>
          andthen (gets (\<lambda>s. route_to_path (sv_router s) r (NodeId ingress))) (\<lambda>path.
          andthen (lift_result (map_err SeTopology path)) (\<lambda>ids. yield (Some (map node_ip ids))))))"

definition path_neighbour_of_endpoint :: "ip_addr list \<Rightarrow> ip_addr \<Rightarrow> ip_addr option" where
  "path_neighbour_of_endpoint path n =
     (if path = [] then None
      else if hd path = n then get_at path 1
      else if last path = n then (if length path < 2 then None else get_at path (length path - 2))
      else None)"

definition next_hop_in_path :: "ip_addr list \<Rightarrow> ip_addr \<Rightarrow> ip_addr option" where
  "next_hop_in_path path n = (case position (\<lambda>x. x = n) path of None \<Rightarrow> None | Some i \<Rightarrow> get_at path (i + 1))"

definition to_forwarding_visa :: "visa \<Rightarrow> fwd_pep \<Rightarrow> visa" where
  "to_forwarding_visa v fp = v\<lparr>v_type := ForwardOnly, v_dock_pep := None, v_fwd_pep := Some fp\<rparr>"

datatype vctx = Ingress | Intermediary | Egress

definition context_of :: "ip_addr list \<Rightarrow> ip_addr \<Rightarrow> vctx" where
  "context_of path n = (if hd path = n then Ingress else if last path = n then Egress else Intermediary)"

text \<open>The visa as a node of the path is to have it.\<close>

definition actualize_on_path :: "visa \<Rightarrow> ip_addr list \<Rightarrow> ip_addr \<Rightarrow> (service_error, visa) result" where
  "actualize_on_path v path n =
     (case context_of path n of
        Egress \<Rightarrow> Inr v
      | ctx \<Rightarrow>
          (case next_hop_in_path path n of
             None \<Rightarrow> Inl (Err (SeInternal ''failed to actualize visa''))
           | Some nxt \<Rightarrow>
               let fp = \<lparr>fp_next_hop = nxt, fp_style = OneWay\<rparr>
               in if ctx = Ingress then Inr (v\<lparr>v_fwd_pep := Some fp\<rparr>) else Inr (to_forwarding_visa v fp)))"

definition actualize_visa_for_target_node :: "visa \<Rightarrow> ip_addr \<Rightarrow> ('db, visa) service_action" where
  "actualize_visa_for_target_node v n =
     andthen (read_visas (\<lambda>ck st. get_visa_metadata_by_id ck st (issuer_id v))) (\<lambda>r.
     andthen (lift_result (map_err SeStore r)) (\<lambda>md.
     case vm_path md of
       None \<Rightarrow> yield v
     | Some path \<Rightarrow> if length path < 2 then yield v else lift_result (actualize_on_path v path n)))"

subsection \<open>Making a visa\<close>

text \<open>The code only asks whether the flag is bidirectional.\<close>

datatype comm_flag = BiDirectional | UniDirectional | ReRequest

definition ep_from_dir :: "direction \<Rightarrow> endpoint_t" where
  "ep_from_dir d = (case d of Forward \<Rightarrow> EpClient | Reverse \<Rightarrow> EpServer)"

definition visa_ports :: "packet_desc \<Rightarrow> comm_flag \<Rightarrow> hit \<Rightarrow> (u16 \<times> u16) option" where
  "visa_ports pd flag h =
     (if protocol pd = TCP \<or> protocol pd = UDP then
        if flag = BiDirectional then
          (case hit_direction h of Forward \<Rightarrow> Some (0, dest_port pd) | Reverse \<Rightarrow> Some (source_port pd, 0))
        else Some (source_port pd, dest_port pd)
      else if protocol pd = IPV6_ICMP then Some (source_port pd, dest_port pd)
      else None)"

definition visa_pep :: "packet_desc \<Rightarrow> hit \<Rightarrow> u16 \<times> u16 \<Rightarrow> dock_pep_type" where
  "visa_pep pd h = (\<lambda>(sp, dp).
     let tu = \<lparr>tp_source_port = sp, tp_dest_port = dp, tp_endpoint = ep_from_dir (hit_direction h)\<rparr>
     in if protocol pd = TCP then PepTCP tu else if protocol pd = UDP then PepUDP tu else PepICMP (ucast sp) (ucast dp))"

definition a2a_dh_pubkey_bytes :: "'db service_env \<Rightarrow> ip_addr \<Rightarrow> ('db, string) service_action" where
  "a2a_dh_pubkey_bytes e a =
     andthen (on_store e (\<lambda>en. get_a2a_dh_pubkey_by_zpr_addr en a)) (\<lambda>r.
     yield (case r of Some key \<Rightarrow> key | None \<Rightarrow> []))"

definition create_visa_with_path ::
  "'db service_env \<Rightarrow> ip_addr \<Rightarrow> packet_desc \<Rightarrow> comm_flag \<Rightarrow> hit \<Rightarrow> ip_addr list option \<Rightarrow> string \<Rightarrow> u64 \<Rightarrow> u64 \<Rightarrow> time
     \<Rightarrow> ('db, visa \<times> visa_metadata) service_action" where
  "create_visa_with_path e req pd flag h path zpl pver vi expiration =
     (case visa_ports pd flag h of
        None \<Rightarrow> throw (SeInternal ''unsupported protocol for visa'')
      | Some ports \<Rightarrow>
          andthen (as_service (repo_op e get_next_visa_id)) (\<lambda>i.
          andthen (gets (\<lambda>s. let md = metadata_new (sv_ck s) req pver vi zpl (hit_direction h) path pd
            in case hit_signal h of None \<Rightarrow> md | Some sg \<Rightarrow> md\<lparr>vm_signal_msgs := vm_signal_msgs md @ [sig_message sg]\<rparr>)) (\<lambda>md.
          andthen (a2a_dh_pubkey_bytes e (source_addr pd)) (\<lambda>ik.
          andthen (a2a_dh_pubkey_bytes e (dest_addr pd)) (\<lambda>ek.
          let (ik, ek) = (if ik = [] \<or> ek = [] then ([], []) else (ik, ek));
              v = \<lparr>issuer_id = i, v_config = 0, v_expires = expiration, v_type = FullVisa,
                   v_dock_pep = Some \<lparr>dp_pep = visa_pep pd h ports, dp_source_addr = source_addr pd,
                     dp_dest_addr = dest_addr pd, dp_ingress_key = ik, dp_egress_key = ek\<rparr>,
                   v_fwd_pep = None\<rparr>
          in andthen (pause e 3) (\<lambda>_.
             andthen (as_service (visa_op_action e (StoreVisa v md PendingInstall))) (\<lambda>_. yield (v, md))))))))"

definition create_visa ::
  "'db service_env \<Rightarrow> ip_addr \<Rightarrow> packet_desc \<Rightarrow> comm_flag \<Rightarrow> hit \<Rightarrow> route \<Rightarrow> string \<Rightarrow> u64 \<Rightarrow> u64 \<Rightarrow> time
     \<Rightarrow> ('db, visa \<times> visa_metadata) service_action" where
  "create_visa e req pd flag h r zpl pver vi expiration =
     andthen (path_for_flow e (source_addr pd) r) (\<lambda>path.
     create_visa_with_path e req pd flag h path zpl pver vi expiration)"

subsection \<open>Finding a visa\<close>

definition dock_pep_matches_five_tuple :: "visa \<Rightarrow> packet_desc \<Rightarrow> bool" where
  "dock_pep_matches_five_tuple v ft =
     (case v_dock_pep v of
        None \<Rightarrow> False
      | Some dp \<Rightarrow>
          if dp_source_addr dp \<noteq> source_addr ft \<or> dp_dest_addr dp \<noteq> dest_addr ft then False
          else (case dp_pep dp of
                  PepTCP tp \<Rightarrow> tp_dest_port tp = dest_port ft \<and> tp_source_port tp = source_port ft
                | _ \<Rightarrow> False))"

text \<open>The first visa of the list that matches and, if a relay is given, whose path has the relay next to the node.\<close>

fun first_match ::
  "clock \<Rightarrow> visa_store \<Rightarrow> ip_addr \<Rightarrow> packet_desc \<Rightarrow> ip_addr option \<Rightarrow> visa list \<Rightarrow> (store_error, visa option) result" where
  "first_match ck st n ft relay [] = Inr None"
| "first_match ck st n ft relay (v # vs) =
     (if \<not> dock_pep_matches_five_tuple v ft then first_match ck st n ft relay vs
      else case relay of
        None \<Rightarrow> Inr (Some v)
      | Some rl \<Rightarrow>
          bind (get_visa_metadata_by_id ck st (issuer_id v)) (\<lambda>md.
            if Option.bind (vm_path md) (\<lambda>p. path_neighbour_of_endpoint p n) \<noteq> Some rl
            then first_match ck st n ft relay vs else Inr (Some v)))"

fun find_node_visa_by_five_tuple ::
  "clock \<Rightarrow> visa_store \<Rightarrow> ip_addr \<Rightarrow> packet_desc \<Rightarrow> node_visa_state list \<Rightarrow> ip_addr option \<Rightarrow> (store_error, visa option) result" where
  "find_node_visa_by_five_tuple ck st n ft [] relay = Inr None"
| "find_node_visa_by_five_tuple ck st n ft (state # states) relay =
     bind (first_match ck st n ft relay (get_visas_for_node_by_state ck st n state)) (\<lambda>r.
       case r of Some v \<Rightarrow> Inr (Some v) | None \<Rightarrow> find_node_visa_by_five_tuple ck st n ft states relay)"

definition get_node_visa_by_five_tuple :: "clock \<Rightarrow> visa_store \<Rightarrow> ip_addr \<Rightarrow> packet_desc \<Rightarrow> (store_error, visa option) result" where
  "get_node_visa_by_five_tuple ck st n ft = find_node_visa_by_five_tuple ck st n ft [Installed] None"

definition get_visa_with_metadata_by_id :: "u64 \<Rightarrow> ('db, (visa \<times> visa_metadata) option) service_action" where
  "get_visa_with_metadata_by_id i =
     andthen (read_visas (\<lambda>ck st. (get_visa_by_id ck st i, get_visa_metadata_by_id ck st i))) (\<lambda>r.
     case r of
       (Inr v, Inr md) \<Rightarrow> yield (Some (v, md))
     | (Inr _, Inl (Err (StNotFound _))) \<Rightarrow> yield None
     | (Inr _, Inl (Err err)) \<Rightarrow> throw (SeStore err)
     | (Inl (Err (StNotFound _)), _) \<Rightarrow> yield None
     | (Inl (Err err), _) \<Rightarrow> throw (SeStore err)
     | _ \<Rightarrow> unwrap_or_panic None)"

subsection \<open>Acknowledgements\<close>

definition visa_installed :: "'db service_env \<Rightarrow> u64 \<Rightarrow> ip_addr \<Rightarrow> ('db, unit) service_action" where
  "visa_installed e i n =
     andthen (as_service (visa_op_action e (TransitionNodeVisaState n i PendingInstall Installed))) (\<lambda>_. yield ())"

definition revoke_acked :: "'db service_env \<Rightarrow> ip_addr \<Rightarrow> u64 \<Rightarrow> ('db, unit) service_action" where
  "revoke_acked e n i =
     attempt (visa_op_action e (RemoveNodeIfPendingRevoke n i)) (\<lambda>r.
       case r of
         Inl _ \<Rightarrow> yield ()
       | Inr _ \<Rightarrow>
           andthen (read_visas (\<lambda>ck st. visa_has_node_refs ck st i)) (\<lambda>refs.
           if refs then yield () else attempt (visa_op_action e (RemoveVisa i)) (\<lambda>_. yield ())))"

definition drop_if_orphaned :: "'db service_env \<Rightarrow> u64 \<Rightarrow> ('db, unit) service_action" where
  "drop_if_orphaned e i =
     andthen (read_visas (\<lambda>ck st. visa_has_node_refs ck st i)) (\<lambda>refs.
     if refs then yield () else attempt (visa_op_action e (RemoveVisa i)) (\<lambda>_. yield ()))"

definition remove_visas_for_node :: "'db service_env \<Rightarrow> ip_addr \<Rightarrow> ('db, unit) service_action" where
  "remove_visas_for_node e n =
     andthen (read_visas (\<lambda>ck st. get_all_visa_ids_for_node ck st n)) (\<lambda>ids.
     andthen (for_each ids (\<lambda>i. attempt (visa_op_action e (MarkVisaRevoked i)) (\<lambda>_. yield ()))) (\<lambda>_.
     andthen (as_service (visa_op_action e (ClearNodeState n))) (\<lambda>_.
     for_each ids (drop_if_orphaned e))))"

definition remove_visas_for_actors :: "'db service_env \<Rightarrow> ip_addr list \<Rightarrow> ('db, unit) service_action" where
  "remove_visas_for_actors e addrs =
     (if addrs = [] then yield ()
      else andthen (read_visas (\<lambda>ck st. get_visa_ids_for_actors ck st addrs)) (\<lambda>ids.
      for_each ids (\<lambda>i.
        attempt (visa_op_action e (MarkVisaRevoked i)) (\<lambda>r.
          case r of Inr True \<Rightarrow> drop_if_orphaned e i | _ \<Rightarrow> yield ()))))"

subsection \<open>Rechecking a visa\<close>

datatype visa_recheck = SkipUnresolvedActor | AllowSameRoute | Revoke

definition recheck_visa_allowed :: "'db service_env \<Rightarrow> visa_metadata \<Rightarrow> policy \<Rightarrow> ('db, visa_recheck) service_action" where
  "recheck_visa_allowed e md p =
     (let pkt = vm_five_tuple md; src_zpr = source_addr pkt; dst_zpr = dest_addr pkt
      in attempt (mgr_get_actor e src_zpr) (\<lambda>rs.
         attempt (mgr_get_actor e dst_zpr) (\<lambda>rd.
         andthen (pause e 4) (\<lambda>_.
         case (rs, rd) of
           (Inr (Some src), Inr (Some dst)) \<Rightarrow>
             andthen (evaluate_against_policy src dst src_zpr dst_zpr pkt p) (\<lambda>out.
             case out of
               OutDeny _ \<Rightarrow> yield Revoke
             | OutAllow hits default_route _ _ \<Rightarrow>
                 andthen (lift_result (route_for_allow hits default_route)) (\<lambda>r.
                 attempt (path_for_flow e src_zpr r) (\<lambda>pr.
                   yield (if pr = Inr (vm_path md) then AllowSameRoute else Revoke))))
         | _ \<Rightarrow> yield SkipUnresolvedActor))))"

end
