(* ===== verification/Visa_Requests.thy ===== *)
theory Visa_Requests
  imports Visa_Manager
begin

text \<open>
  A visa request from a node to its answer, \<^verbatim>\<open>vs/src/visareq_worker.rs\<close>, with the bootstrap visas that let a declared
  peer reach the visa service before it has connected, \<^verbatim>\<open>vs/src/visa_bootstrap.rs\<close> and the part of
  \<^verbatim>\<open>vs/src/visa_mgr.rs\<close> that mints them, the anonymous address networks of \<^verbatim>\<open>vs/src/net_mgr.rs\<close> and
  \<^verbatim>\<open>vs/src/packet.rs\<close>. At each point where the code waits for the database or a lock, the other tasks of the service may
  change the state (\<open>pause\<close>).
\<close>

subsection \<open>Addresses and packets\<close>

definition SECONDS :: "int \<Rightarrow> time" where
  "SECONDS n = n * 1000000000"

definition MAX_VISA_LIFETIME :: time where "MAX_VISA_LIFETIME = HOURS 24"

definition MIN_VISA_LIFETIME :: time where "MIN_VISA_LIFETIME = SECONDS 30"

definition DEFAULT_ANON_AUTH_EXPIRATION :: time where "DEFAULT_ANON_AUTH_EXPIRATION = HOURS 4"

definition VSAPI_PORT :: u16 where "VSAPI_PORT = 5002"

definition NODE_AAA_PREFIX_LEN :: nat where "NODE_AAA_PREFIX_LEN = 88"

definition AAA_NET_ADDR :: "128 word" where
  "AAA_NET_ADDR = push_bit 112 0xfd5a + push_bit 96 0x5052 + push_bit 64 0x0aaa"

definition node_id_for_node :: "ip_addr \<Rightarrow> u32" where
  "node_id_for_node a = (case a of V4 w \<Rightarrow> take_bit 24 w | V6 w \<Rightarrow> take_bit 24 (ucast w))"

text \<open>Segments 4 and 5 of the network address, counted from the top, hold the node id; they are zero in \<open>AAA_NET_ADDR\<close>.\<close>

definition aaa_network_for_node :: "ip_addr \<Rightarrow> ip_addr \<times> nat" where
  "aaa_network_for_node a =
     (let i = node_id_for_node a; seg4 = (ucast (drop_bit 8 i) :: u16); seg5 = (ucast (push_bit 8 i) :: u16)
      in (V6 (AAA_NET_ADDR + push_bit 48 (ucast seg4) + push_bit 32 (ucast seg5)), NODE_AAA_PREFIX_LEN))"

definition same_family :: "ip_addr \<Rightarrow> ip_addr \<Rightarrow> bool" where
  "same_family a b \<longleftrightarrow> (case (a, b) of (V4 _, V6 _) \<Rightarrow> False | (V6 _, V4 _) \<Rightarrow> False | _ \<Rightarrow> True)"

definition make_fivetuple_tcp :: "ip_addr \<Rightarrow> ip_addr \<Rightarrow> u16 \<Rightarrow> u16 \<Rightarrow> (service_error, packet_desc) result" where
  "make_fivetuple_tcp src dst sp dp =
     (if \<not> same_family src dst
      then Inl (Err (SeInternal ''make_fivetuple_tcp: source and destination IP addresses must be of the same family''))
      else Inr \<lparr>source_addr = src, dest_addr = dst, protocol = TCP, source_port = sp, dest_port = dp\<rparr>)"

subsection \<open>Jobs and decisions\<close>

datatype visa_decision = VdAllow visa route | VdDeny deny_code

record visa_request_job =
  vj_requesting_node :: ip_addr
  vj_packet :: packet_desc
  vj_comm_flag :: comm_flag

definition get_actor_or :: "'db service_env \<Rightarrow> ip_addr \<Rightarrow> string \<Rightarrow> ('db, actor option) service_action" where
  "get_actor_or e a msg =
     attempt (mgr_get_actor e a) (\<lambda>r.
     andthen (pause e 5) (\<lambda>_. case r of Inr found \<Rightarrow> yield found | Inl _ \<Rightarrow> throw (SeInternal msg)))"

definition get_actors :: "'db service_env \<Rightarrow> visa_request_job \<Rightarrow> ('db, actor option \<times> actor option) service_action" where
  "get_actors e job =
     andthen (get_actor_or e (source_addr (vj_packet job)) ''error retrieving source actor'') (\<lambda>src.
     andthen (get_actor_or e (dest_addr (vj_packet job)) ''error retrieving dest actor'') (\<lambda>dst.
     yield (src, dst)))"

subsection \<open>Bootstrap visas\<close>

definition BOOTSTRAP_VISA_ZPL :: string where "BOOTSTRAP_VISA_ZPL = ''<bootstrap: policy peering>''"

definition vsapi_port :: "'db service_env \<Rightarrow> u16" where
  "vsapi_port e = (case se_vsapi_port e of None \<Rightarrow> VSAPI_PORT | Some port \<Rightarrow> port)"

definition policy_version :: "'db service_env \<Rightarrow> policy \<Rightarrow> u64" where
  "policy_version e p = (case se_policy_version e p of None \<Rightarrow> 0 | Some n \<Rightarrow> n)"

definition vs_segment :: "'db service_env \<Rightarrow> 'db service \<Rightarrow> ip_addr \<Rightarrow> (service_error, route) result" where
  "vs_segment e s via =
     (case get_docking_node_for_adapter s (se_vs_addr e) of
        None \<Rightarrow> Inl (Err (SeInternal ''visa service is not docked to a node: cannot path bootstrap visa''))
      | Some vs_dock \<Rightarrow>
          (case get_best_route (sv_router s) via vs_dock of
             None \<Rightarrow> Inl (Err (SeInternal ''no route to visa service docking node''))
           | Some r \<Rightarrow> Inr r))"

definition path_for_future_peer :: "'db service_env \<Rightarrow> 'db service \<Rightarrow> ip_addr \<Rightarrow> ip_addr \<Rightarrow> (service_error, ip_addr list) result" where
  "path_for_future_peer e s peer via =
     bind (vs_segment e s via) (\<lambda>segment.
     bind (map_err SeTopology (route_to_path (sv_router s) segment (NodeId via))) (\<lambda>ids.
     Inr (peer # map node_ip ids)))"

definition bootstrap_route ::
  "'db service_env \<Rightarrow> 'db service \<Rightarrow> policy \<Rightarrow> ip_addr \<Rightarrow> ip_addr \<Rightarrow> direction \<Rightarrow> (service_error, route) result" where
  "bootstrap_route e s p peer via dir =
     bind (vs_segment e s via) (\<lambda>segment.
     bind (map_err (\<lambda>_. SeInternal ''no policy link to future peer'') (describe_link (ck_wall (sv_ck s)) p via peer)) (\<lambda>link.
     let links = LinkId (ld_link_id link) # rt_links segment
     in Inr \<lparr>rt_kind = Multihop, rt_links = (if dir = Reverse then rev links else links),
             rt_cost = saturating_add (rt_cost segment) (ld_cost link)\<rparr>))"

text \<open>The lock that keeps two mints for one peer apart is waited for before the lookup and held to the end.\<close>

definition vsapi_bootstrap_visa_for_future_peer ::
  "'db service_env \<Rightarrow> policy \<Rightarrow> ip_addr \<Rightarrow> ip_addr \<Rightarrow> direction \<Rightarrow> ('db, visa) service_action" where
  "vsapi_bootstrap_visa_for_future_peer e p peer via dir =
     andthen (lift_result (case dir of
       Forward \<Rightarrow> make_fivetuple_tcp peer (se_vs_addr e) 0 (vsapi_port e)
     | Reverse \<Rightarrow> make_fivetuple_tcp (se_vs_addr e) peer (vsapi_port e) 0)) (\<lambda>ft.
     andthen (pause e 6) (\<lambda>_.
     andthen (read_visas (\<lambda>ck st. find_node_visa_by_five_tuple ck st peer ft [Installed, PendingInstall] (Some via))) (\<lambda>r.
     andthen (lift_result (map_err SeStore r)) (\<lambda>found.
     case found of
       Some v \<Rightarrow> yield v
     | None \<Rightarrow>
         andthen (gets (\<lambda>s. path_for_future_peer e s peer via)) (\<lambda>r.
         andthen (lift_result r) (\<lambda>from_peer.
         let path = (if dir = Reverse then rev from_peer else from_peer)
         in andthen (gets (\<lambda>s. ck_wall (sv_ck s) + MAX_VISA_LIFETIME)) (\<lambda>expiration.
            andthen (create_visa_with_path e (hd path) ft BiDirectional (new_no_signal 0 dir) (Some path)
              BOOTSTRAP_VISA_ZPL (policy_version e p) (vinst p) expiration) (\<lambda>(v, _). yield v))))))))"

definition bootstrap_both ::
  "'db service_env \<Rightarrow> policy \<Rightarrow> ip_addr \<Rightarrow> ip_addr \<Rightarrow> direction \<Rightarrow> ('db, visa option) service_action" where
  "bootstrap_both e p peer via dir =
     andthen (vsapi_bootstrap_visa_for_future_peer e p peer via dir) (\<lambda>v.
     andthen (actualize_visa_for_target_node v peer) (\<lambda>v. yield (Some v)))"

definition visas_for_link :: "'db service_env \<Rightarrow> policy \<Rightarrow> ip_addr \<Rightarrow> ip_addr \<Rightarrow> ('db, visa list) service_action" where
  "visas_for_link e p peer via =
     andthen (mgr_get_actor e peer) (\<lambda>found.
     if found \<noteq> None then yield [] else collect [Forward, Reverse] (bootstrap_both e p peer via))"

text \<open>Which end of a flow is the peer, in which direction the flow runs, and whether the peer's actor is the missing one.\<close>

definition bootstrap_flow ::
  "'db service_env \<Rightarrow> packet_desc \<Rightarrow> actor option \<Rightarrow> actor option \<Rightarrow> (ip_addr \<times> direction) option" where
  "bootstrap_flow e ft src dst =
     (if protocol ft \<noteq> TCP then None
      else if dest_addr ft = se_vs_addr e \<and> dest_port ft = vsapi_port e
      then (if src = None then Some (source_addr ft, Forward) else None)
      else if source_addr ft = se_vs_addr e \<and> source_port ft = vsapi_port e
      then (if dst = None then Some (dest_addr ft, Reverse) else None)
      else None)"

definition declared_peer :: "policy \<Rightarrow> ip_addr \<Rightarrow> ip_addr \<Rightarrow> bool" where
  "declared_peer p n peer \<longleftrightarrow>
     list_ex (\<lambda>pr. remote_zpr_addr pr = peer) (case get_peers_for_node p n of None \<Rightarrow> [] | Some prs \<Rightarrow> prs)"

definition visa_for_future_peer_request ::
  "'db service_env \<Rightarrow> visa_request_job \<Rightarrow> actor option \<Rightarrow> actor option \<Rightarrow> ('db, visa_decision option) service_action" where
  "visa_for_future_peer_request e job src dst =
     (case bootstrap_flow e (vj_packet job) src dst of
        None \<Rightarrow> yield None
      | Some (peer, dir) \<Rightarrow>
          andthen (gets sv_policy) (\<lambda>p.
          if \<not> declared_peer p (vj_requesting_node job) peer then yield None
          else
          attempt (vsapi_bootstrap_visa_for_future_peer e p peer (vj_requesting_node job) dir) (\<lambda>r.
          case r of
            Inl _ \<Rightarrow> yield None
          | Inr v \<Rightarrow>
              andthen (gets (\<lambda>s. bootstrap_route e s p peer (vj_requesting_node job) dir)) (\<lambda>r.
              attempt (lift_result r) (\<lambda>r.
              case r of
                Inl _ \<Rightarrow> yield None
              | Inr rt \<Rightarrow>
                  attempt (actualize_visa_for_target_node v (vj_requesting_node job)) (\<lambda>r.
                  case r of Inr v \<Rightarrow> yield (Some (VdAllow v rt)) | Inl _ \<Rightarrow> yield None))))))"

subsection \<open>Anonymous endpoints\<close>

definition add_attribute_or_ignore :: "attribute \<Rightarrow> actor \<Rightarrow> actor" where
  "add_attribute_or_ignore at actor = (case add_attribute at actor of Inr actor' \<Rightarrow> actor' | Inl _ \<Rightarrow> actor)"

definition fabricate_aaa_actor :: "time \<Rightarrow> ip_addr \<Rightarrow> time \<Rightarrow> actor" where
  "fabricate_aaa_actor now a expiration =
     (let a1 = add_attribute_or_ignore (build_value (ip_to_string a) (builder now ZPR_ADDR)) actor_new;
          a2 = add_attribute_or_ignore (build_value ''vs_hack_anon_to_auth'' (builder now DEVICE_AUTHORITY)) a1;
          a3 = add_attribute_or_ignore (build_value ROLE_ADAPTER (builder now ROLE)) a2;
          a4 = add_attribute_or_ignore
                 (build_value (''hack.'' @ ip_to_string a @ ''.zpr'') (expires expiration (builder now CN))) a3
      in case add_identity_key 0 CN a4 of Inr a5 \<Rightarrow> a5 | Inl _ \<Rightarrow> a4)"

definition try_aaa_actor ::
  "'db service_env \<Rightarrow> visa_request_job \<Rightarrow> ip_addr \<Rightarrow> ip_addr \<Rightarrow> bool \<Rightarrow> time \<Rightarrow> ('db, deny_code + actor option) service_action" where
  "try_aaa_actor e job anon candidate missing_source expiration =
     (let fabricated = gets (\<lambda>s. Inr (Some (fabricate_aaa_actor (ck_wall (sv_ck s)) anon expiration)))
      in if missing_source then
           (case aaa_network_for_node (vj_requesting_node job) of (net, len) \<Rightarrow>
            if \<not> se_net_contains e net len anon then yield (Inr None)
            else
            attempt (has_auth_services e candidate) (\<lambda>r.
            andthen (pause e 7) (\<lambda>_.
            case r of
              Inr True \<Rightarrow>
                andthen (modify (register_aaa anon (vj_requesting_node job) expiration)) (\<lambda>_. fabricated)
            | _ \<Rightarrow> yield (Inl DcDestNotFound))))
         else
           andthen (get_docking_node_for_aaa anon) (\<lambda>dock.
           if dock = None then yield (Inr None) else fabricated))"

definition resolve_actors_or_deny ::
  "'db service_env \<Rightarrow> visa_request_job \<Rightarrow> actor option \<Rightarrow> actor option \<Rightarrow> ('db, visa_decision + actor \<times> actor) service_action" where
  "resolve_actors_or_deny e job src dst =
     (case (src, dst) of
        (Some a, Some b) \<Rightarrow> yield (Inr (a, b))
      | (None, None) \<Rightarrow> yield (Inl (VdDeny DcSourceNotFound))
      | (None, Some b) \<Rightarrow>
          andthen (gets (\<lambda>s. ck_wall (sv_ck s) + DEFAULT_ANON_AUTH_EXPIRATION)) (\<lambda>expiration.
          andthen (try_aaa_actor e job (source_addr (vj_packet job)) (dest_addr (vj_packet job)) True expiration) (\<lambda>r.
          yield (case r of
            Inl code \<Rightarrow> Inl (VdDeny code)
          | Inr None \<Rightarrow> Inl (VdDeny DcSourceNotFound)
          | Inr (Some a) \<Rightarrow> Inr (a, b))))
      | (Some a, None) \<Rightarrow>
          andthen (gets (\<lambda>s. ck_wall (sv_ck s) + DEFAULT_ANON_AUTH_EXPIRATION)) (\<lambda>expiration.
          andthen (try_aaa_actor e job (dest_addr (vj_packet job)) (source_addr (vj_packet job)) False expiration) (\<lambda>r.
          yield (case r of
            Inl code \<Rightarrow> Inl (VdDeny code)
          | Inr None \<Rightarrow> Inl (VdDeny DcDestNotFound)
          | Inr (Some b) \<Rightarrow> Inr (a, b)))))"

subsection \<open>From an allow to a visa\<close>

text \<open>The earliest of a time and the expirations of an actor's attributes under some keys.\<close>

fun soonest_attribute :: "actor \<Rightarrow> string list \<Rightarrow> time \<Rightarrow> time" where
  "soonest_attribute actor [] t = t"
| "soonest_attribute actor (k # ks) t =
     (case get_attribute actor k of
        Some at \<Rightarrow> soonest_attribute actor ks (if at_expires_at at < t then at_expires_at at else t)
      | None \<Rightarrow> soonest_attribute actor ks t)"

definition soonest_authentication :: "actor \<Rightarrow> time \<Rightarrow> time" where
  "soonest_authentication actor t =
     (case get_authentication_expiration actor of
        Some x \<Rightarrow> if x < t then x else t
      | None \<Rightarrow> t)"

definition compute_expiration :: "time \<Rightarrow> actor \<Rightarrow> actor \<Rightarrow> policy \<Rightarrow> hit \<Rightarrow> (service_error, time) result" where
  "compute_expiration now src dst p h =
     (case get_condition_keys_for_com_policy p (match_idx h) of
        (Some client_keys, Some service_keys) \<Rightarrow>
          let (client, server) = (if hit_direction h = Forward then (src, dst) else (dst, src));
              t1 = soonest_attribute client client_keys (now + NEVER_EXPIRES);
              t2 = soonest_attribute server (service_keys @ [SERVICES]) t1;
              t3 = soonest_authentication src t2;
              t4 = soonest_authentication dst t3
          in Inr (if t4 > now + MAX_VISA_LIFETIME then now + MAX_VISA_LIFETIME else t4)
      | _ \<Rightarrow> Inl (Err (SeInternal ''no communication policy for allow hit'')))"

text \<open>The background task that hands copies to the other nodes of the path runs beside the rest of the request, which
  only waits for the visa to be stored.\<close>

definition visa_from_allow ::
  "'db service_env \<Rightarrow> visa_request_job \<Rightarrow> hit list \<Rightarrow> policy \<Rightarrow> route option \<Rightarrow> actor \<Rightarrow> actor \<Rightarrow> ('db, visa_decision) service_action" where
  "visa_from_allow e job hits p default_route src dst =
     andthen (unwrap_or_panic (first hits)) (\<lambda>h.
     let zpl = (case get_cpol_source p (match_idx h) of None \<Rightarrow> [] | Some src \<Rightarrow> src)
     in andthen (lift_result (route_for_allow hits default_route)) (\<lambda>rt.
        andthen (gets (\<lambda>s. ck_wall (sv_ck s))) (\<lambda>now.
        andthen (lift_result (compute_expiration now src dst p h)) (\<lambda>expiration.
        if expiration < now + MIN_VISA_LIFETIME then yield (VdDeny DcNoReason)
        else
        andthen (create_visa e (vj_requesting_node job) (vj_packet job) (vj_comm_flag job) h rt zpl
          (policy_version e p) (vinst p) expiration) (\<lambda>(v, md).
        andthen (pause e 8) (\<lambda>_.
        andthen (actualize_visa_for_target_node v (vj_requesting_node job)) (\<lambda>v'.
        yield (VdAllow v' rt))))))))"

text \<open>What a node's handle makes of a push: there is no handle, so many visas were accepted, or the call failed.\<close>

datatype push_outcome = NoHandle | Accepted nat | PushFailed

definition push_copy :: "'db service_env \<Rightarrow> (ip_addr \<Rightarrow> visa \<Rightarrow> push_outcome) \<Rightarrow> visa \<Rightarrow> ip_addr \<Rightarrow> ('db, unit) service_action" where
  "push_copy e push v n =
     attempt (actualize_visa_for_target_node v n) (\<lambda>r.
     case r of
       Inl _ \<Rightarrow> yield ()
     | Inr copy \<Rightarrow>
         andthen (pause e 9) (\<lambda>_.
         case push n copy of
           Accepted (Suc 0) \<Rightarrow> attempt (visa_installed e (issuer_id v) n) (\<lambda>_. yield ())
         | _ \<Rightarrow> yield ()))"

text \<open>The pushes run side by side; \<open>answered\<close> puts them in the order in which they are answered.\<close>

definition distribute_visa_on_path ::
  "'db service_env \<Rightarrow> (ip_addr list \<Rightarrow> ip_addr list) \<Rightarrow> (ip_addr \<Rightarrow> visa \<Rightarrow> push_outcome) \<Rightarrow> visa \<Rightarrow> visa_metadata \<Rightarrow> ip_addr
     \<Rightarrow> ('db, unit) service_action" where
  "distribute_visa_on_path e answered push v md requesting_node =
     (case vm_path md of
        None \<Rightarrow> yield ()
      | Some path \<Rightarrow> for_each (answered (filter (\<lambda>n. n \<noteq> requesting_node) path)) (push_copy e push v))"

subsection \<open>The request\<close>

definition evaluate_request ::
  "'db service_env \<Rightarrow> visa_request_job \<Rightarrow> actor \<Rightarrow> actor \<Rightarrow> ip_addr \<Rightarrow> ip_addr \<Rightarrow> ('db, visa_decision) service_action" where
  "evaluate_request e job src dst src_zpr dst_zpr =
     andthen (gets sv_policy) (\<lambda>p.
     andthen (evaluate_against_policy src dst src_zpr dst_zpr (vj_packet job) p) (\<lambda>out.
     case out of
       OutDeny code \<Rightarrow> yield (VdDeny code)
     | OutAllow hits default_route src_dock dst_dock \<Rightarrow>
         if src_dock \<noteq> vj_requesting_node job \<and> dst_dock \<noteq> vj_requesting_node job then yield (VdDeny DcNoMatch)
         else visa_from_allow e job hits p default_route src dst))"

definition refresh_and_evaluate ::
  "'db service_env \<Rightarrow> visa_request_job \<Rightarrow> actor \<Rightarrow> actor \<Rightarrow> ip_addr \<Rightarrow> ip_addr \<Rightarrow> ('db, visa_decision) service_action" where
  "refresh_and_evaluate e job src dst src_zpr dst_zpr =
     attempt (refresh_and_persist_actor e src) (\<lambda>r.
     case r of
       Inl _ \<Rightarrow> yield (VdDeny DcNoReason)
     | Inr (src', _) \<Rightarrow>
         attempt (refresh_and_persist_actor e dst) (\<lambda>r.
         case r of
           Inl _ \<Rightarrow> yield (VdDeny DcNoReason)
         | Inr (dst', _) \<Rightarrow> evaluate_request e job src' dst' src_zpr dst_zpr))"

definition bind_request :: "'db service_env \<Rightarrow> visa_request_job \<Rightarrow> actor \<Rightarrow> actor \<Rightarrow> ('db, visa_decision) service_action" where
  "bind_request e job src dst =
     (case (zpr_addr src, zpr_addr dst) of
        (None, _) \<Rightarrow> yield (VdDeny DcSourceNotFound)
      | (Some _, None) \<Rightarrow> yield (VdDeny DcDestNotFound)
      | (Some src_zpr, Some dst_zpr) \<Rightarrow>
          andthen (resolve_docking_node src src_zpr) (\<lambda>src_dock.
          andthen (resolve_docking_node dst dst_zpr) (\<lambda>dst_dock.
          if src_dock \<noteq> Some (vj_requesting_node job) \<and> dst_dock \<noteq> Some (vj_requesting_node job)
          then yield (VdDeny DcNoMatch)
          else refresh_and_evaluate e job src dst src_zpr dst_zpr)))"

definition process_visa_request :: "'db service_env \<Rightarrow> visa_request_job \<Rightarrow> ('db, visa_decision) service_action" where
  "process_visa_request e job =
     andthen (get_actors e job) (\<lambda>(src, dst).
     andthen (if src = None \<or> dst = None then visa_for_future_peer_request e job src dst else yield None) (\<lambda>answer.
     case answer of
       Some decision \<Rightarrow> yield decision
     | None \<Rightarrow>
         andthen (resolve_actors_or_deny e job src dst) (\<lambda>r.
         case r of Inl decision \<Rightarrow> yield decision | Inr (a, b) \<Rightarrow> bind_request e job a b)))"

text \<open>What becomes of the job: it is queued or not, and its answer comes in time or not. The job runs to its end in either
  case.\<close>

datatype queue_outcome = Queued | QueueClosed | QueueTimeout

definition count_for :: "counter_type \<Rightarrow> ip_addr \<Rightarrow> counters \<Rightarrow> counters" where
  "count_for c n cs = counter_incr_node c n (counter_incr c cs)"

definition on_counters :: "(counters \<Rightarrow> counters) \<Rightarrow> ('db service, 'e, unit) action" where
  "on_counters f = modify (\<lambda>s. s\<lparr>sv_world := (sv_world s)\<lparr>w_counters := f (w_counters (sv_world s))\<rparr>\<rparr>)"

definition answer_request :: "visa_request_job \<Rightarrow> (service_error, visa_decision) result \<Rightarrow> ('db, visa_decision) service_action" where
  "answer_request job r =
     (case r of
        Inr (VdAllow v rt) \<Rightarrow>
          andthen (on_counters (count_for VisaRequestsApproved (vj_requesting_node job))) (\<lambda>_. yield (VdAllow v rt))
      | Inr (VdDeny code) \<Rightarrow>
          andthen (on_counters (count_for VisaRequestsDenied (vj_requesting_node job))) (\<lambda>_.
          andthen (modify (\<lambda>s. s\<lparr>sv_deny_log := deny_log_record (ck_wall (sv_ck s)) (vj_packet job) code (sv_deny_log s)\<rparr>)) (\<lambda>_.
          yield (VdDeny code)))
      | Inl (Err err) \<Rightarrow> andthen (on_counters (counter_incr VisaRequestFailed)) (\<lambda>_. throw err)
      | Inl Panic \<Rightarrow>
          andthen (on_counters (counter_incr VisaRequestQueueError)) (\<lambda>_.
          throw (SeInternal ''queue error receiving visa request response'')))"

definition request_visa_wait_response ::
  "'db service_env \<Rightarrow> queue_outcome \<Rightarrow> bool \<Rightarrow> visa_request_job \<Rightarrow> ('db, visa_decision) service_action" where
  "request_visa_wait_response e queued in_time job =
     andthen (on_counters (count_for VisaRequests (vj_requesting_node job))) (\<lambda>_.
     andthen (gets (\<lambda>s. ck_wall (sv_ck s))) (\<lambda>now.
     andthen (on_counters (update_request_time now (vj_requesting_node job))) (\<lambda>_.
     case queued of
       QueueClosed \<Rightarrow>
         andthen (on_counters (counter_incr VisaRequestQueueError)) (\<lambda>_.
         throw (SeInternal ''internal error enqueuing visa request''))
     | QueueTimeout \<Rightarrow>
         andthen (on_counters (counter_incr VisaRequestQueueFull)) (\<lambda>_.
         throw (SeTimeout ''timeout enqueuing visa request''))
     | Queued \<Rightarrow>
         (\<lambda>s. case process_visa_request e job s of (s', r) \<Rightarrow>
            (if in_time then answer_request job r s'
             else andthen (on_counters (counter_incr VisaRequestTimeout)) (\<lambda>_.
               throw (SeTimeout ''timeout waiting for visa request response'')) s')))))"

subsection \<open>Visas for a node that has registered\<close>

text \<open>How a denial code is written is the parameter \<open>code_text\<close>, \<^verbatim>\<open>PacketDesc::new_tcp_with_addr\<close> is \<open>new_tcp\<close>.\<close>

definition create_visa_for_packet ::
  "'db service_env \<Rightarrow> (deny_code \<Rightarrow> string) \<Rightarrow> queue_outcome \<Rightarrow> bool \<Rightarrow> packet_desc \<times> comm_flag \<Rightarrow> ip_addr \<Rightarrow> ('db, visa) service_action" where
  "create_visa_for_packet e code_text queued in_time pkt requesting_node =
     andthen (request_visa_wait_response e queued in_time
       \<lparr>vj_requesting_node = requesting_node, vj_packet = fst pkt, vj_comm_flag = snd pkt\<rparr>) (\<lambda>decision.
     case decision of
       VdAllow v _ \<Rightarrow> yield v
     | VdDeny code \<Rightarrow> throw (SeVisaDenied (code_text code)))"

definition post_register_vss_visas_for_node ::
  "'db service_env \<Rightarrow> (ip_addr \<Rightarrow> ip_addr \<Rightarrow> u16 \<Rightarrow> u16 \<Rightarrow> (service_error, packet_desc \<times> comm_flag) result)
     \<Rightarrow> (deny_code \<Rightarrow> string) \<Rightarrow> queue_outcome \<Rightarrow> bool \<Rightarrow> ip_addr \<Rightarrow> socket_addr \<Rightarrow> ('db, visa list) service_action" where
  "post_register_vss_visas_for_node e new_tcp code_text queued in_time n vss =
     andthen (read_visas (\<lambda>ck st. get_visas_for_node_by_state ck st n PendingInstall)) (\<lambda>pending.
     andthen (collect pending (\<lambda>v. andthen (actualize_visa_for_target_node v n) (\<lambda>v. yield (Some v)))) (\<lambda>visas.
     andthen (lift_result (make_fivetuple_tcp (se_vs_addr e) n 0 (sa_port vss))) (\<lambda>ft.
     andthen (read_visas (\<lambda>ck st. get_node_visa_by_five_tuple ck st n ft)) (\<lambda>r.
     andthen (lift_result (map_err SeStore r)) (\<lambda>has.
     if has \<noteq> None then yield visas
     else
     andthen (lift_result (new_tcp (se_vs_addr e) n 0 (sa_port vss))) (\<lambda>pkt.
     andthen (create_visa_for_packet e code_text queued in_time pkt n) (\<lambda>v.
     andthen (actualize_visa_for_target_node v n) (\<lambda>v. yield (visas @ [v])))))))))"

end
