(* ===== verification/Service_Frames.thy ===== *)
theory Service_Frames
  imports Visa_Requests Visa_Recovery
begin

text \<open>
  What operations of the service leave alone: a predicate on the state that an action keeps however it ends, and the
  rules that carry it through the combinators of actions and through the operations of the actor and visa managers.
\<close>

named_theorems keeping

definition keeps :: "('s \<Rightarrow> bool) \<Rightarrow> ('s, 'e, 'a) action \<Rightarrow> bool" where
  "keeps I m \<longleftrightarrow> (\<forall>s. I s \<longrightarrow> I (fst (m s)))"

lemma keepsD: "keeps I m \<Longrightarrow> m s = (s', r) \<Longrightarrow> I s \<Longrightarrow> I s'"
  by (metis fst_conv keeps_def)

lemma keeps_yield [keeping]: "keeps I (yield x)"
  by (simp add: keeps_def yield_def)

lemma keeps_throw [keeping]: "keeps I (throw x)"
  by (simp add: keeps_def throw_def)

lemma keeps_gets [keeping]: "keeps I (gets f)"
  by (simp add: keeps_def gets_def)

lemma keeps_lift_result [keeping]: "keeps I (lift_result r)"
  by (simp add: keeps_def lift_result_def)

lemma keeps_from_option [keeping]: "keeps I (from_option x r)"
  by (simp add: keeps_def from_option_def yield_def throw_def split: option.split)

lemma keeps_unwrap [keeping]: "keeps I (unwrap_or_panic r)"
  by (simp add: keeps_def unwrap_or_panic_def split: option.split)

lemma keeps_read_visas [keeping]: "keeps I (read_visas f)"
  by (simp add: read_visas_def keeps_gets)

lemma keeps_andthen [keeping]: "keeps I m \<Longrightarrow> (\<And>x. keeps I (f x)) \<Longrightarrow> keeps I (andthen m f)"
  by (auto simp: keeps_def andthen_def split: prod.split sum.split)

lemma keeps_attempt [keeping]: "keeps I m \<Longrightarrow> (\<And>x. keeps I (f x)) \<Longrightarrow> keeps I (attempt m f)"
  by (auto simp: keeps_def attempt_def split: prod.split sum.split fault.split)

lemma keeps_as_service [keeping]: "keeps I m \<Longrightarrow> keeps I (as_service m)"
  by (auto simp: keeps_def as_service_def split: prod.split)

lemma keeps_for_each [keeping]: "(\<And>x. x \<in> set xs \<Longrightarrow> keeps I (f x)) \<Longrightarrow> keeps I (for_each xs f)"
  by (induction xs) (simp_all add: keeping)

lemma keeps_collect [keeping]: "(\<And>x. x \<in> set xs \<Longrightarrow> keeps I (f x)) \<Longrightarrow> keeps I (collect xs f)"
  by (induction xs) (simp_all add: keeping)

lemma keeps_modify: "(\<And>s. I s \<Longrightarrow> I (f s)) \<Longrightarrow> keeps I (modify f)"
  by (simp add: keeps_def modify_def)

lemma keeps_pause: "(\<And>s. I s \<Longrightarrow> I (se_pause e n s)) \<Longrightarrow> keeps I (pause e n)"
  by (simp add: keeps_def pause_def modify_def)


subsection \<open>Reading\<close>

text \<open>What other tasks do while one waits respects the predicate.\<close>

definition undisturbed :: "('db service \<Rightarrow> bool) \<Rightarrow> 'db service_env \<Rightarrow> bool" where
  "undisturbed I e \<longleftrightarrow> (\<forall>n s. I s \<longrightarrow> I (se_pause e n s))"

text \<open>A predicate that does not depend on the database, nor on the cache of routes, nor on a lapsed registration of an
  anonymous address: every operation that only looks things up keeps it.\<close>

locale read_frame =
  fixes I :: "'db service \<Rightarrow> bool"
  assumes world: "I s \<Longrightarrow> I (s\<lparr>sv_world := w\<rparr>)"
    and routes: "I s \<Longrightarrow> get_routes_read (sv_router s) a b hint = RouteMiss g rs \<Longrightarrow>
      get_routes_commit a b hint g rs (sv_router s) = (inner, rs') \<Longrightarrow> I (s\<lparr>sv_router := inner\<rparr>)"
    and lapse: "I s \<Longrightarrow> I (s\<lparr>sv_aaa := hm_remove a (sv_aaa s)\<rparr>)"
begin

lemma store_op [keeping]: "keeps I (store_op e m)"
  by (auto simp: keeps_def store_op_def world split: prod.split)

lemma on_store [keeping]: "keeps I (on_store e m)"
  by (auto simp: keeps_def on_store_def store_op_def world split: prod.split)

lemma on_counters [keeping]: "keeps I (on_counters f)"
  by (auto simp: keeps_def on_counters_def modify_def world)

lemma paused [keeping]: "undisturbed I e \<Longrightarrow> keeps I (pause e n)"
  by (simp add: keeps_pause undisturbed_def)

lemma get_actor [keeping]: "keeps I (mgr_get_actor e a)"
  unfolding mgr_get_actor_def by (auto intro!: keeping split: sum.split store_error.split)

lemma docking_for_aaa [keeping]: "keeps I (get_docking_node_for_aaa a)"
  by (auto simp: keeps_def get_docking_node_for_aaa_def lapse split: option.split)

lemma docking_of_actor [keeping]: "keeps I (resolve_docking_node actor a)"
  using docking_for_aaa by (auto simp: keeps_def resolve_docking_node_def split: option.split)

lemma docking_of_addr [keeping]: "undisturbed I e \<Longrightarrow> keeps I (docking_node_for_addr e a)"
  unfolding docking_node_for_addr_def by (auto intro!: keeping split: sum.split option.split)

lemma get_routes [keeping]: "keeps I (get_routes_now a b hint)"
  using routes by (auto simp: keeps_def get_routes_now_def split: route_lookup.split prod.split)

lemma decision [keeping]: "keeps I (decide a b c d best r)"
  unfolding decide_def
  by (auto intro!: keeping split: partial_eval_result.split final_deny.split final_eval_result.split)

lemma evaluation [keeping]: "keeps I (evaluate_against_policy src dst a b pkt p)"
  unfolding evaluate_against_policy_def by (auto intro!: keeping split: option.split)

lemma flow_path [keeping]: "undisturbed I e \<Longrightarrow> keeps I (path_for_flow e src r)"
  unfolding path_for_flow_def by (auto intro!: keeping split: option.split)

lemma recheck [keeping]: "undisturbed I e \<Longrightarrow> keeps I (recheck_visa_allowed e md p)"
  unfolding recheck_visa_allowed_def Let_def
  by (auto intro!: keeping split: sum.split option.split policy_outcome.split)

end

end
