(* ===== verification/Visa_Guarantees.thy ===== *)
theory Visa_Guarantees
  imports Visa_Requests
begin

text \<open>
  What a node that is handed a visa can rely on: the visa was allowed by the policy in force while the request ran, for
  endpoints of which the requesting node docks one; it lapses no later than anything it rests on; and the copies handed
  to the nodes of a path forward the flow along the path.
\<close>

subsection \<open>Values of actions\<close>

named_theorems value_of

lemma andthen_value [value_of]:
  "andthen m f w = (w', Inr b) \<longleftrightarrow> (\<exists>w1 a. m w = (w1, Inr a) \<and> f a w1 = (w', Inr b))"
  by (auto simp: andthen_def split: prod.splits sum.splits)

lemma attempt_value [value_of]:
  "attempt m f w = (w', Inr b) \<longleftrightarrow>
     (\<exists>w1 a. m w = (w1, Inr a) \<and> f (Inr a) w1 = (w', Inr b)) \<or> (\<exists>w1 e. m w = (w1, Inl (Err e)) \<and> f (Inl e) w1 = (w', Inr b))"
  by (auto simp: attempt_def split: prod.splits sum.splits fault.splits)

lemma basic_values [value_of]:
  "yield a w = (w', Inr b) \<longleftrightarrow> w' = w \<and> b = a"
  "throw e w \<noteq> (w', Inr b)"
  "gets f w = (w', Inr c) \<longleftrightarrow> w' = w \<and> c = f w"
  "modify g w = (w', Inr u) \<longleftrightarrow> w' = g w"
  "lift_result r w = (w', Inr b) \<longleftrightarrow> w' = w \<and> r = Inr b"
  "unwrap_or_panic x w = (w', Inr b) \<longleftrightarrow> w' = w \<and> x = Some b"
  "read_visas q s = (s', Inr c) \<longleftrightarrow> s' = s \<and> c = q (sv_ck s) (sv_visas s)"
  by (auto simp: yield_def throw_def gets_def modify_def lift_result_def unwrap_or_panic_def read_visas_def split: option.splits)

lemma andthenE:
  assumes "andthen m f w = (w', Inr b)"
  obtains w1 a where "m w = (w1, Inr a)" "f a w1 = (w', Inr b)"
  using assms by (auto simp: andthen_value)

lemma attemptE:
  assumes "attempt m f w = (w', Inr b)"
  obtains w1 a where "m w = (w1, Inr a)" "f (Inr a) w1 = (w', Inr b)"
    | w1 e where "m w = (w1, Inl (Err e))" "f (Inl e) w1 = (w', Inr b)"
  using assms by (auto simp: attempt_value)

lemma map_err_value [simp]: "map_err g r = Inr b \<longleftrightarrow> r = Inr b"
  by (auto simp: map_err_def split: sum.splits fault.splits)

subsection \<open>The contents of a visa\<close>

text \<open>The flow a visa admits at its ends: the addresses of the packet and the ports the hit asks for.\<close>

definition admits_only :: "packet_desc \<Rightarrow> comm_flag \<Rightarrow> hit \<Rightarrow> visa \<Rightarrow> bool" where
  "admits_only pd flag h v \<longleftrightarrow>
     (case v_dock_pep v of
        None \<Rightarrow> True
      | Some dp \<Rightarrow> dp_source_addr dp = source_addr pd \<and> dp_dest_addr dp = dest_addr pd \<and>
          (\<exists>ports. visa_ports pd flag h = Some ports \<and> dp_pep dp = visa_pep pd h ports))"

lemma create_visa_with_path_value:
  assumes "create_visa_with_path e req pd flag h path zpl pver vi expiration s = (s', Inr (v, md))"
  shows "v_expires v = expiration \<and> admits_only pd flag h v \<and> vm_path md = path"
  using assms
  by (auto simp: create_visa_with_path_def Let_def value_of admits_only_def metadata_new_def split: option.splits prod.splits if_splits)

lemma create_visa_value:
  assumes "create_visa e req pd flag h r zpl pver vi expiration s = (s', Inr (v, md))"
  shows "v_expires v = expiration \<and> admits_only pd flag h v"
proof -
  obtain s1 path where "create_visa_with_path e req pd flag h path zpl pver vi expiration s1 = (s', Inr (v, md))"
    using assms by (auto simp: create_visa_def value_of)
  from create_visa_with_path_value [OF this] show ?thesis by simp
qed

lemma actualize_on_path_value:
  assumes "actualize_on_path v path n = Inr v'"
  shows "issuer_id v' = issuer_id v \<and> v_expires v' = v_expires v \<and> (v_dock_pep v' = v_dock_pep v \<or> v_dock_pep v' = None)"
  using assms
  by (auto simp: actualize_on_path_def to_forwarding_visa_def Let_def split: vctx.splits option.splits if_splits)

lemma actualize_value:
  assumes "actualize_visa_for_target_node v n s = (s', Inr v')"
  shows "issuer_id v' = issuer_id v \<and> v_expires v' = v_expires v \<and> (v_dock_pep v' = v_dock_pep v \<or> v_dock_pep v' = None)"
  using assms actualize_on_path_value [of v _ n v']
  by (auto simp: actualize_visa_for_target_node_def value_of split: option.splits if_splits)

lemma admits_only_copy: "admits_only pd flag h v \<Longrightarrow> v_dock_pep v' = v_dock_pep v \<or> v_dock_pep v' = None \<Longrightarrow> admits_only pd flag h v'"
  by (auto simp: admits_only_def)

subsection \<open>The lifetime of a visa\<close>

text \<open>When the things a visa rests on lapse: the attributes the matched line asks for, the services of the serving actor
  and the authentication of both ends.\<close>

definition attribute_expirations :: "actor \<Rightarrow> string list \<Rightarrow> time set" where
  "attribute_expirations actor ks = {at_expires_at at | at k. k \<in> set ks \<and> get_attribute actor k = Some at}"

definition grounds :: "actor \<Rightarrow> actor \<Rightarrow> policy \<Rightarrow> hit \<Rightarrow> time set" where
  "grounds src dst p h =
     (case get_condition_keys_for_com_policy p (match_idx h) of
        (Some client_keys, Some service_keys) \<Rightarrow>
          (case hit_direction h of
             Forward \<Rightarrow> attribute_expirations src client_keys \<union> attribute_expirations dst (SERVICES # service_keys)
           | Reverse \<Rightarrow> attribute_expirations dst client_keys \<union> attribute_expirations src (SERVICES # service_keys))
      | _ \<Rightarrow> {}) \<union> set_option (get_authentication_expiration src) \<union> set_option (get_authentication_expiration dst)"

lemma attribute_expirations_simps [simp]:
  "attribute_expirations actor [] = {}"
  "attribute_expirations actor (k # ks) =
     set_option (map_option at_expires_at (get_attribute actor k)) \<union> attribute_expirations actor ks"
  by (auto simp: attribute_expirations_def split: option.splits)

lemma attribute_expirations_append [simp]:
  "attribute_expirations actor (ks @ ls) = attribute_expirations actor ks \<union> attribute_expirations actor ls"
  by (auto simp: attribute_expirations_def)

lemma finite_attribute_expirations [simp]: "finite (attribute_expirations actor ks)"
  by (induction ks) auto

lemma finite_set_option [simp]: "finite (set_option x)"
  by (cases x) auto

lemma Min_insert_least: "finite X \<Longrightarrow> Min (insert (if (x :: time) < t then x else t) X) = Min (insert t (insert x X))"
  by (cases "X = {}") (auto simp: min_def)

lemma Min_insert_later: "finite X \<Longrightarrow> y \<in> X \<Longrightarrow> y \<le> (x :: time) \<Longrightarrow> Min (insert x X) = Min X"
  by (subst Min_insert) (auto intro!: min_absorb2 intro: order_trans [OF Min_le])

lemma soonest_attribute_Min:
  assumes "finite X"
  shows "Min (insert (soonest_attribute actor ks t) X) = Min (insert t (X \<union> attribute_expirations actor ks))"
  using assms
proof (induction ks arbitrary: t X)
  case (Cons k ks)
  show ?case
  proof (cases "get_attribute actor k")
    case (Some at)
    then have "Min (insert (soonest_attribute actor (k # ks) t) X) =
        Min (insert (if at_expires_at at < t then at_expires_at at else t) (X \<union> attribute_expirations actor ks))"
      using Cons by simp
    also have "\<dots> = Min (insert t (insert (at_expires_at at) (X \<union> attribute_expirations actor ks)))"
      using Cons.prems by (intro Min_insert_least) simp
    finally show ?thesis using Some by simp
  qed (use Cons in simp)
qed simp

lemma soonest_authentication_Min:
  assumes "finite X"
  shows "Min (insert (soonest_authentication actor t) X) = Min (insert t (X \<union> set_option (get_authentication_expiration actor)))"
  using Min_insert_least [OF assms] assms
  by (simp add: soonest_authentication_def split: option.splits)

lemma lifetimes: "0 < MIN_VISA_LIFETIME" "MIN_VISA_LIFETIME \<le> MAX_VISA_LIFETIME" "MAX_VISA_LIFETIME \<le> NEVER_EXPIRES"
  by (simp_all add: MIN_VISA_LIFETIME_def MAX_VISA_LIFETIME_def NEVER_EXPIRES_def SECONDS_def HOURS_def from_secs_def)

lemma compute_expiration_Min:
  assumes "compute_expiration now src dst p h = Inr t"
  shows "t = Min (insert (now + MAX_VISA_LIFETIME) (grounds src dst p h))"
proof -
  obtain cks sks where keys: "get_condition_keys_for_com_policy p (match_idx h) = (Some cks, Some sks)"
    using assms by (auto simp: compute_expiration_def split: prod.splits option.splits)
  obtain client server where ends: "(if hit_direction h = Forward then (src, dst) else (dst, src)) = (client, server)"
    by fastforce
  define t4 where "t4 = soonest_authentication dst (soonest_authentication src
    (soonest_attribute server (sks @ [SERVICES]) (soonest_attribute client cks (now + NEVER_EXPIRES))))"
  have "t = min t4 (now + MAX_VISA_LIFETIME)"
    using assms by (auto simp: compute_expiration_def keys ends t4_def Let_def min_def split: if_splits)
  then have "t = Min (insert t4 {now + MAX_VISA_LIFETIME})" by simp
  also have "\<dots> = Min (insert (now + NEVER_EXPIRES) ({now + MAX_VISA_LIFETIME} \<union> set_option (get_authentication_expiration dst) \<union>
      set_option (get_authentication_expiration src) \<union> attribute_expirations server (sks @ [SERVICES]) \<union>
      attribute_expirations client cks))"
    by (simp only: t4_def soonest_attribute_Min soonest_authentication_Min finite_insert finite.emptyI finite_Un
        finite_attribute_expirations finite_set_option simp_thms)
  also have "\<dots> = Min (insert (now + NEVER_EXPIRES) (insert (now + MAX_VISA_LIFETIME) (grounds src dst p h)))"
    using ends by (intro arg_cong [of _ _ Min]) (auto simp: grounds_def keys split: if_splits direction.splits)
  also have "\<dots> = Min (insert (now + MAX_VISA_LIFETIME) (grounds src dst p h))"
  proof (rule Min_insert_later)
    show "finite (insert (now + MAX_VISA_LIFETIME) (grounds src dst p h))"
      by (simp add: grounds_def keys split: direction.splits)
    show "now + MAX_VISA_LIFETIME \<le> now + NEVER_EXPIRES" using lifetimes(3) by simp
  qed simp
  finally show ?thesis .
qed

subsection \<open>A request of two adapters at one node\<close>

definition refused :: "('db, 'a) db_call" where
  "refused now db = (db, Inl (Err (RedisError [])))"

text \<open>A database that knows the two adapters and accepts visas.\<close>

definition two_adapters :: "unit db_connection" where
  "two_adapters =
     \<lparr>db_shutdown_cleanup = refused, db_exists = (\<lambda>k now db. (db, Inr True)), db_set = (\<lambda>_ _. refused),
      db_set_ex = (\<lambda>k v ttl now db. (db, Inr ())), db_get = (\<lambda>_. refused), db_set_bin = (\<lambda>_ _. refused),
      db_set_bin_ex = (\<lambda>_ _ _. refused), db_get_bin = (\<lambda>_. refused), db_del = (\<lambda>k now db. (db, Inr ())), db_smembers = (\<lambda>_. refused),
      db_sismember = (\<lambda>_ _. refused), db_hget = (\<lambda>k f now db. (db, Inr None)),
      db_hgetall = (\<lambda>k now db. (db, Inr (if k = attrs_key_for (V4 1) then [(''1'', ''client address''), (''2'', ''color'')]
        else [(''1'', ''server address''), (''2'', ''services'')]))),
      db_hset = (\<lambda>_ _ _. refused), db_hset_nx = (\<lambda>_ _ _. refused), db_hset_multiple = (\<lambda>_ _. refused), db_hdel = (\<lambda>_ _. refused),
      db_sadd = (\<lambda>_ _. refused), db_incr = (\<lambda>k n now db. (db, Inr 1000)), db_expire = (\<lambda>_ _. refused),
      db_atomic_pipeline = (\<lambda>_. refused), db_scan_match_all = (\<lambda>_. refused), db_clear_state = refused,
      db_acquire_or_renew_lock = (\<lambda>_. refused), db_release_lock = (\<lambda>_. refused)\<rparr>"

definition attribute_of_text :: "string \<Rightarrow> attribute option" where
  "attribute_of_text s =
     (if s = ''client address'' then Some (attribute_new ZPR_ADDR [''0.0.0.1''] (HOURS 2) SOURCE_ZPR)
      else if s = ''server address'' then Some (attribute_new ZPR_ADDR [''0.0.0.2''] (HOURS 2) SOURCE_ZPR)
      else if s = ''color'' then Some (attribute_new ''user.color'' [''red''] (HOURS 2) SOURCE_ZPR)
      else if s = ''services'' then Some (attribute_new SERVICES [''database''] (HOURS 1) SOURCE_ZPR)
      else None)"

definition example_store :: "unit store_env" where
  "example_store =
     \<lparr>en_conn = two_adapters, en_ck = \<lparr>ck_wall = 0, ck_mono = 0\<rparr>, en_timestamp = (\<lambda>_. []), en_key_encode = (\<lambda>s. s),
      en_key_decode = Some, en_attr_to_json = (\<lambda>_. None), en_attr_from_json = attribute_of_text, en_strings_to_json = (\<lambda>_. None),
      en_strings_from_json = (\<lambda>_. Some []), en_base64_decode = (\<lambda>_. None), en_rfc3339 = (\<lambda>_. []), en_parse_rfc3339 = (\<lambda>_. None),
      en_node_to_json = (\<lambda>_. None), en_socket_to_json = (\<lambda>_. None), en_socket_from_json = (\<lambda>_. None)\<rparr>"

definition example_codec :: codec where
  "example_codec = \<lparr>cd_visa_to_bytes = (\<lambda>_. Inr []), cd_visa_from_bytes = (\<lambda>_. Inl (Err StSerialization)), cd_to_json = (\<lambda>_. Some []),
     cd_from_json = (\<lambda>_. None), cd_timestamp = (\<lambda>_. [])\<rparr>"

definition example_env :: "unit service_env" where
  "example_env = \<lparr>se_store = example_store, se_codec = example_codec, se_vs_addr = VS_ZPR_ADDR, se_vsapi_port = None,
     se_net_contains = (\<lambda>_ _ _. False), se_policy_version = (\<lambda>_. None), se_source_order = (\<lambda>l. l),
     se_addr_order = (\<lambda>l. l), se_pause = (\<lambda>_ s. s)\<rparr>"

definition example_service :: "unit service" where
  "example_service =
     \<lparr>sv_ck = \<lparr>ck_wall = 0, ck_mono = 0\<rparr>, sv_world = \<lparr>w_db = (), w_counters = counters_default\<rparr>,
      sv_connections = [(V4 1, V4 9), (V4 2, V4 9)], sv_aaa = [], sv_visas = store_default, sv_last_purge = None,
      sv_router = router_new, sv_policy = demo_policy, sv_sources = [], sv_revisions = [], sv_deny_log = []\<rparr>"

definition example_job :: visa_request_job where
  "example_job = \<lparr>vj_requesting_node = V4 9, vj_packet = demo_request, vj_comm_flag = BiDirectional\<rparr>"

definition example_route :: route where
  "example_route = \<lparr>rt_kind = DirectSameNode (NodeId (V4 9)), rt_links = [], rt_cost = 0\<rparr>"

definition example_client :: actor where
  "example_client = actor_new\<lparr>attrs := [(''user.color'', attribute_new ''user.color'' [''red''] (HOURS 2) SOURCE_ZPR)],
     zpr_addr := Some (V4 1)\<rparr>"

definition example_server :: actor where
  "example_server = actor_new\<lparr>attrs := [(SERVICES, attribute_new SERVICES [''database''] (HOURS 1) SOURCE_ZPR)],
     zpr_addr := Some (V4 2)\<rparr>"

lemma example_made:
  "case snd (visa_from_allow example_env example_job [new_no_signal 0 Forward] demo_policy (Some example_route) example_client
     example_server example_service) of Inr (VdAllow v r) \<Rightarrow> v_expires v = HOURS 1 | _ \<Rightarrow> False"
  by code_simp

lemma example_allowed:
  "case snd (process_visa_request example_env example_job example_service) of Inr (VdAllow v r) \<Rightarrow> v_expires v = HOURS 1 | _ \<Rightarrow> False"
  by code_simp

lemma allowed_value:
  assumes "case snd out of Inr (VdAllow v r) \<Rightarrow> v_expires v = t | _ \<Rightarrow> False"
  obtains s' v r where "out = (s', Inr (VdAllow v r))" "v_expires v = t"
  using assms by (cases out) (auto split: sum.split_asm visa_decision.split_asm)

text \<open>C4. A visa issued on an allow lapses exactly when the first of the things it rests on does, and after the longest
  lifetime at the latest; and it is good for at least the shortest lifetime.\<close>

theorem visa_expires_with_its_grounds:
  assumes "visa_from_allow e job hits p default_route src dst s = (s', Inr (VdAllow v r))"
  shows "\<exists>h. first hits = Some h \<and>
    v_expires v = Min (insert (ck_wall (sv_ck s) + MAX_VISA_LIFETIME) (grounds src dst p h)) \<and>
    ck_wall (sv_ck s) + MIN_VISA_LIFETIME \<le> v_expires v"
proof -
  obtain h t zpl s1 s2 v1 md where h: "first hits = Some h"
    and t: "compute_expiration (ck_wall (sv_ck s)) src dst p h = Inr t" "\<not> t < ck_wall (sv_ck s) + MIN_VISA_LIFETIME"
    and made: "create_visa e (vj_requesting_node job) (vj_packet job) (vj_comm_flag job) h r zpl (policy_version e p)
      (vinst p) t s = (s1, Inr (v1, md))"
    and copied: "actualize_visa_for_target_node v1 (vj_requesting_node job) s2 = (s', Inr v)"
    using assms by (auto simp: visa_from_allow_def value_of Let_def split: if_splits)
  have "v_expires v = t" using create_visa_value [OF made] actualize_value [OF copied] by simp
  with h t compute_expiration_Min [OF t(1)] show ?thesis by auto
qed

theorem visa_expires_with_its_grounds_witness:
  "HOURS 1 = Min (insert MAX_VISA_LIFETIME (grounds example_client example_server demo_policy (new_no_signal 0 Forward))) \<and>
   MIN_VISA_LIFETIME \<le> HOURS 1"
proof -
  obtain s' v r where "visa_from_allow example_env example_job [new_no_signal 0 Forward] demo_policy (Some example_route)
      example_client example_server example_service = (s', Inr (VdAllow v r))" "v_expires v = HOURS 1"
    by (rule allowed_value [OF example_made])
  from visa_expires_with_its_grounds [OF this(1)] this(2) show ?thesis by (simp add: first_def example_service_def)
qed

subsection \<open>Where a request can find the service\<close>

text \<open>The states the service is in while a request runs: the request looks actors up, answers for peers that have not
  connected, registers anonymous addresses and refreshes the actors it has found, and other tasks do what they do where
  it waits.\<close>

inductive reached :: "'db service_env \<Rightarrow> visa_request_job \<Rightarrow> 'db service \<Rightarrow> 'db service \<Rightarrow> bool" for e job s where
  start: "reached e job s s"
| others: "reached e job s t \<Longrightarrow> reached e job s (se_pause e n t)"
| looked_up: "reached e job s t \<Longrightarrow> reached e job s (fst (mgr_get_actor e a t))"
| for_peer: "reached e job s t \<Longrightarrow> reached e job s (fst (visa_for_future_peer_request e job x y t))"
| asked_services: "reached e job s t \<Longrightarrow> reached e job s (fst (has_auth_services e a t))"
| registered: "reached e job s t \<Longrightarrow> reached e job s (register_aaa (source_addr (vj_packet job)) (vj_requesting_node job) x t)"
| lapsed: "reached e job s t \<Longrightarrow> reached e job s (t\<lparr>sv_aaa := hm_remove a (sv_aaa t)\<rparr>)"
| refreshed: "reached e job s t \<Longrightarrow> reached e job s t0 \<Longrightarrow> mgr_get_actor e a t0 = (t1, Inr (Some actor)) \<Longrightarrow>
    reached e job s (fst (refresh_and_persist_actor e actor t))"
| refreshed_anonymous: "reached e job s t \<Longrightarrow> reached e job s (fst (refresh_and_persist_actor e (fabricate_aaa_actor now a x) t))"

definition anonymous :: "'db service_env \<Rightarrow> visa_request_job \<Rightarrow> 'db service \<Rightarrow> ip_addr \<Rightarrow> bool" where
  "anonymous e job s a \<longleftrightarrow>
     (case aaa_network_for_node (vj_requesting_node job) of (net, len) \<Rightarrow> se_net_contains e net len a) \<or>
     (\<exists>t n x. reached e job s t \<and> hm_get (sv_aaa t) a = Some (n, x) \<and> x > ck_wall (sv_ck t))"

text \<open>An actor found under an address, or made up for an anonymous one.\<close>

definition found :: "'db service_env \<Rightarrow> visa_request_job \<Rightarrow> 'db service \<Rightarrow> ip_addr \<Rightarrow> actor \<Rightarrow> bool" where
  "found e job s a actor \<longleftrightarrow>
     (\<exists>t t'. reached e job s t \<and> mgr_get_actor e a t = (t', Inr (Some actor))) \<or>
     anonymous e job s a \<and> (\<exists>now x. actor = fabricate_aaa_actor now a x)"

text \<open>Such an actor after its attributes have been refreshed without an error, with the address it carried before.\<close>

definition presented :: "'db service_env \<Rightarrow> visa_request_job \<Rightarrow> 'db service \<Rightarrow> ip_addr \<Rightarrow> ip_addr \<Rightarrow> actor \<Rightarrow> bool" where
  "presented e job s a zpr actor \<longleftrightarrow>
     (\<exists>actor0 t t' b. found e job s a actor0 \<and> zpr_addr actor0 = Some zpr \<and> reached e job s t \<and> refresh_and_persist_actor e actor0 t = (t', Inr (actor, b)))"

definition docked :: "'db service \<Rightarrow> actor \<Rightarrow> ip_addr \<Rightarrow> ip_addr option" where
  "docked s actor a =
     (case get_docking_node_for_actor s actor of
        Some n \<Rightarrow> Some n
      | None \<Rightarrow> (case hm_get (sv_aaa s) a of Some (n, x) \<Rightarrow> if x > ck_wall (sv_ck s) then Some n else None | None \<Rightarrow> None))"

text \<open>What must be the case at one moment for a visa to be issued.\<close>

definition permitted ::
  "'db service \<Rightarrow> visa_request_job \<Rightarrow> actor \<Rightarrow> actor \<Rightarrow> ip_addr \<Rightarrow> ip_addr \<Rightarrow> visa \<Rightarrow> bool" where
  "permitted t job src dst src_zpr dst_zpr v \<longleftrightarrow>
     (let now = ck_wall (sv_ck t)
      in \<not> auth_expired now src \<and> \<not> auth_expired now dst \<and>
         (\<exists>a b. docked t src src_zpr = Some a \<and> docked t dst dst_zpr = Some b \<and>
            (a = vj_requesting_node job \<or> b = vj_requesting_node job) \<and> get_best_route (sv_router t) a b \<noteq> None) \<and>
         (\<exists>hits h. eval_request now (sv_policy t) src dst (vj_packet job) = Inr (AllowWithoutRoute hits) \<and> first hits = Some h \<and>
            admits_only (vj_packet job) (vj_comm_flag job) h v) \<and>
         now + MIN_VISA_LIFETIME \<le> v_expires v \<and> v_expires v \<le> now + MAX_VISA_LIFETIME)"

text \<open>An address that was looked up during the request without an actor being found under it.\<close>

definition not_connected :: "'db service_env \<Rightarrow> visa_request_job \<Rightarrow> 'db service \<Rightarrow> ip_addr \<Rightarrow> bool" where
  "not_connected e job s a \<longleftrightarrow> (\<exists>t t'. reached e job s t \<and> mgr_get_actor e a t = (t', Inr None))"

text \<open>A request about the TCP flow between a peer that has not connected and the API of the visa service, in either
  direction, from a node the policy declares a neighbour of that peer.\<close>

definition peer_request :: "'db service_env \<Rightarrow> visa_request_job \<Rightarrow> 'db service \<Rightarrow> policy \<Rightarrow> bool" where
  "peer_request e job s p \<longleftrightarrow>
     (let pkt = vj_packet job
      in protocol pkt = TCP \<and>
         (\<exists>peer. (peer = source_addr pkt \<and> dest_addr pkt = se_vs_addr e \<and> dest_port pkt = vsapi_port e \<or>
                  peer = dest_addr pkt \<and> source_addr pkt = se_vs_addr e \<and> source_port pkt = vsapi_port e) \<and>
            not_connected e job s peer \<and> declared_peer p (vj_requesting_node job) peer))"

lemma for_peer_value:
  assumes "visa_for_future_peer_request e job src dst t = (t', Inr (Some d))"
    and "src = None \<longrightarrow> not_connected e job s (source_addr (vj_packet job))"
    and "dst = None \<longrightarrow> not_connected e job s (dest_addr (vj_packet job))"
  shows "peer_request e job s (sv_policy t)"
proof -
  obtain peer dir where flow: "bootstrap_flow e (vj_packet job) src dst = Some (peer, dir)"
    and declared: "declared_peer (sv_policy t) (vj_requesting_node job) peer"
    using assms(1) by (auto simp: visa_for_future_peer_request_def value_of split: option.splits prod.splits if_splits)
  with assms(2,3) show ?thesis
    by (auto simp: bootstrap_flow_def peer_request_def Let_def split: if_split_asm)
qed

lemma resolve_docking_node_value:
  assumes "resolve_docking_node actor a s = (s', Inr r)"
  shows "r = docked s actor a \<and> (s' = s \<or> s' = s\<lparr>sv_aaa := hm_remove a (sv_aaa s)\<rparr> \<and>
    (\<forall>n x. hm_get (sv_aaa s) a = Some (n, x) \<longrightarrow> \<not> x > ck_wall (sv_ck s)))"
proof (cases "get_docking_node_for_actor s actor")
  case (Some n)
  with assms have "r = Some n" "s' = s" by (auto simp: resolve_docking_node_def)
  with Some show ?thesis by (simp add: docked_def)
next
  case None
  with assms show ?thesis
    by (auto simp: resolve_docking_node_def get_docking_node_for_aaa_def docked_def split: option.splits if_splits prod.splits)
qed

lemma docked_after_lapse:
  assumes "\<forall>n x. hm_get (sv_aaa s) a = Some (n, x) \<longrightarrow> \<not> x > ck_wall (sv_ck s)"
  shows "docked (s\<lparr>sv_aaa := hm_remove a (sv_aaa s)\<rparr>) actor b = docked s actor b"
  using assms
  by (auto simp: docked_def get_docking_node_for_actor_def get_docking_node_for_adapter_def delete_conv' split: option.splits)

lemma resolve_both_value:
  assumes "resolve_docking_node src a s = (s1, Inr x)" "resolve_docking_node dst b s1 = (s2, Inr y)"
  shows "x = docked s src a \<and> y = docked s dst b \<and> (\<exists>m. s2 = s\<lparr>sv_aaa := m\<rparr>)"
proof -
  have x: "x = docked s src a" and s1: "\<exists>m. s1 = s\<lparr>sv_aaa := m\<rparr>" "docked s1 dst b = docked s dst b"
    using resolve_docking_node_value [OF assms(1)] docked_after_lapse [of s a dst b] by (auto intro: exI [of _ "sv_aaa s"])
  have "y = docked s1 dst b" "\<exists>m. s2 = s1\<lparr>sv_aaa := m\<rparr>"
    using resolve_docking_node_value [OF assms(2)] by (auto intro: exI [of _ "sv_aaa s1"])
  with x s1 show ?thesis by auto
qed

lemma decide_value:
  assumes "decide src_zpr dst_zpr a b best decision s = (s', Inr (OutAllow hits r x y))"
  shows "decision = AllowWithoutRoute hits \<and> x = a \<and> y = b \<and> s' = s"
  using assms by (auto simp: decide_def eval_routes_def value_of split: partial_eval_result.splits final_deny.splits)

lemma evaluate_value:
  assumes "evaluate_against_policy src dst src_zpr dst_zpr pkt p s = (s', Inr (OutAllow hits r a b))"
  shows "\<not> auth_expired (ck_wall (sv_ck s)) src \<and> \<not> auth_expired (ck_wall (sv_ck s)) dst \<and>
    docked s src src_zpr = Some a \<and> docked s dst dst_zpr = Some b \<and> get_best_route (sv_router s) a b \<noteq> None \<and>
    eval_request (ck_wall (sv_ck s)) p src dst pkt = Inr (AllowWithoutRoute hits) \<and> sv_ck s' = sv_ck s"
proof -
  obtain s1 s2 x y best decision where auth: "\<not> auth_expired (ck_wall (sv_ck s)) src" "\<not> auth_expired (ck_wall (sv_ck s)) dst"
    and docks: "resolve_docking_node src src_zpr s = (s1, Inr (Some x) :: (service_error, ip_addr option) result)"
      "resolve_docking_node dst dst_zpr s1 = (s2, Inr (Some y) :: (service_error, ip_addr option) result)"
    and best: "get_best_route (sv_router s2) x y = Some best"
    and decision: "eval_request (ck_wall (sv_ck s)) p src dst pkt = Inr decision"
    and decided: "decide src_zpr dst_zpr x y best decision s2 = (s', Inr (OutAllow hits r a b))"
    using assms by (auto simp: evaluate_against_policy_def basic_values elim!: andthenE split: if_split_asm option.split_asm)
  have "docked s src src_zpr = Some x" "docked s dst dst_zpr = Some y" "sv_router s2 = sv_router s" "sv_ck s2 = sv_ck s"
    using resolve_both_value [OF docks] by auto
  with auth best decision decide_value [OF decided] show ?thesis by auto
qed

lemma visa_from_allow_value:
  assumes "visa_from_allow e job hits p default_route src dst s = (s', Inr (VdAllow v r))"
  shows "\<exists>h. first hits = Some h \<and> admits_only (vj_packet job) (vj_comm_flag job) h v \<and>
    ck_wall (sv_ck s) + MIN_VISA_LIFETIME \<le> v_expires v \<and> v_expires v \<le> ck_wall (sv_ck s) + MAX_VISA_LIFETIME"
proof -
  obtain h t zpl s1 s2 v1 md where h: "first hits = Some h"
    and t: "compute_expiration (ck_wall (sv_ck s)) src dst p h = Inr t" "\<not> t < ck_wall (sv_ck s) + MIN_VISA_LIFETIME"
    and made: "create_visa e (vj_requesting_node job) (vj_packet job) (vj_comm_flag job) h r zpl (policy_version e p)
      (vinst p) t s = (s1, Inr (v1, md))"
    and copied: "actualize_visa_for_target_node v1 (vj_requesting_node job) s2 = (s', Inr v)"
    using assms by (auto simp: visa_from_allow_def value_of Let_def split: if_splits)
  have "v_expires v = t" "admits_only (vj_packet job) (vj_comm_flag job) h v"
    using create_visa_value [OF made] actualize_value [OF copied] admits_only_copy by auto
  moreover have "t \<le> ck_wall (sv_ck s) + MAX_VISA_LIFETIME"
    using t(1) by (auto simp: compute_expiration_def Let_def split: prod.splits option.splits if_splits)
  ultimately show ?thesis using h t(2) by auto
qed

lemma evaluate_request_value:
  assumes "evaluate_request e job src dst src_zpr dst_zpr s = (s', Inr (VdAllow v r))"
  shows "permitted s job src dst src_zpr dst_zpr v"
proof -
  obtain s1 hits rt a b where out: "evaluate_against_policy src dst src_zpr dst_zpr (vj_packet job) (sv_policy s) s =
      (s1, Inr (OutAllow hits rt a b))"
    and docks: "a = vj_requesting_node job \<or> b = vj_requesting_node job"
    and visa: "visa_from_allow e job hits (sv_policy s) rt src dst s1 = (s', Inr (VdAllow v r))"
    using assms by (auto simp: evaluate_request_def basic_values elim!: andthenE split: policy_outcome.split_asm if_split_asm)
  from evaluate_value [OF out] docks visa_from_allow_value [OF visa] show ?thesis
    unfolding permitted_def Let_def by auto
qed

subsection \<open>Issued visas\<close>

lemma get_actor_or_value:
  assumes "get_actor_or e a msg s = (s', Inr r)"
  shows "\<exists>s1 n. mgr_get_actor e a s = (s1, Inr r) \<and> s' = se_pause e n s1"
  using assms by (auto simp: get_actor_or_def basic_values pause_def elim!: andthenE attemptE)

lemma reached_lookup: "reached e job s t \<Longrightarrow> mgr_get_actor e a t = (t', r) \<Longrightarrow> reached e job s t'"
  by (metis fst_conv looked_up)

lemma get_actors_value:
  assumes "get_actors e job s = (s', Inr (src, dst))"
  shows "reached e job s s' \<and>
    (\<forall>actor. src = Some actor \<longrightarrow> found e job s (source_addr (vj_packet job)) actor) \<and>
    (\<forall>actor. dst = Some actor \<longrightarrow> found e job s (dest_addr (vj_packet job)) actor) \<and>
    (src = None \<longrightarrow> not_connected e job s (source_addr (vj_packet job))) \<and>
    (dst = None \<longrightarrow> not_connected e job s (dest_addr (vj_packet job)))"
proof -
  obtain t1 where src: "get_actor_or e (source_addr (vj_packet job)) ''error retrieving source actor'' s = (t1, Inr src)"
    and dst: "get_actor_or e (dest_addr (vj_packet job)) ''error retrieving dest actor'' t1 = (s', Inr dst)"
    using assms by (auto simp: get_actors_def basic_values elim!: andthenE)
  obtain s1 n where s1: "mgr_get_actor e (source_addr (vj_packet job)) s = (s1, Inr src)" "t1 = se_pause e n s1"
    using get_actor_or_value [OF src] by blast
  obtain s2 m where s2: "mgr_get_actor e (dest_addr (vj_packet job)) t1 = (s2, Inr dst)" "s' = se_pause e m s2"
    using get_actor_or_value [OF dst] by blast
  have t1: "reached e job s t1" using reached_lookup [OF start s1(1)] s1(2) by (simp add: others)
  then have "reached e job s s'" using reached_lookup [OF t1 s2(1)] s2(2) by (simp add: others)
  then show ?thesis using start [of e job s] t1 s1(1) s2(1) unfolding found_def not_connected_def by blast
qed

lemma aaa_docking_value:
  assumes "get_docking_node_for_aaa a t = (t', Inr (Some n))"
  shows "t' = t \<and> (\<exists>x. hm_get (sv_aaa t) a = Some (n, x) \<and> x > ck_wall (sv_ck t))"
  using assms by (auto simp: get_docking_node_for_aaa_def split: option.split_asm prod.split_asm if_split_asm)

lemma try_aaa_source_value:
  assumes "try_aaa_actor e job a cand True x t = (t', Inr (Inr (Some actor)))" "reached e job s t"
    and "a = source_addr (vj_packet job)"
  shows "reached e job s t' \<and> found e job s a actor"
proof -
  obtain net len where net: "aaa_network_for_node (vj_requesting_node job) = (net, len)" by fastforce
  obtain t1 n now where t1: "has_auth_services e cand t = (t1, Inr True)" and inside: "se_net_contains e net len a"
    and t': "t' = register_aaa a (vj_requesting_node job) x (se_pause e n t1)" and actor: "actor = fabricate_aaa_actor now a x"
    using assms(1) unfolding try_aaa_actor_def net
    by (auto simp: basic_values pause_def elim!: andthenE attemptE split: if_split_asm bool.split_asm)
  have "reached e job s t1" using asked_services [OF assms(2), of cand] t1 by simp
  then have "reached e job s t'" unfolding t' assms(3) by (intro registered others)
  moreover have "found e job s a actor" unfolding found_def anonymous_def net using inside actor by auto
  ultimately show ?thesis ..
qed

lemma try_aaa_dest_value:
  assumes "try_aaa_actor e job a cand False x t = (t', Inr (Inr (Some actor)))" "reached e job s t"
  shows "reached e job s t' \<and> found e job s a actor"
proof -
  obtain n now where dock: "get_docking_node_for_aaa a t = (t', Inr (Some n) :: (service_error, ip_addr option) result)"
    and actor: "actor = fabricate_aaa_actor now a x"
    using assms(1) unfolding try_aaa_actor_def
    by (auto simp: basic_values elim!: andthenE split: if_split_asm)
  from aaa_docking_value [OF dock] assms(2) have "reached e job s t'" "anonymous e job s a" by (auto simp: anonymous_def)
  with actor show ?thesis unfolding found_def by blast
qed

lemma resolve_actors_value:
  assumes "resolve_actors_or_deny e job src dst t = (t', Inr (Inr (a, b)))" and "reached e job s t"
    and "\<forall>actor. src = Some actor \<longrightarrow> found e job s (source_addr (vj_packet job)) actor"
    and "\<forall>actor. dst = Some actor \<longrightarrow> found e job s (dest_addr (vj_packet job)) actor"
  shows "reached e job s t' \<and> found e job s (source_addr (vj_packet job)) a \<and> found e job s (dest_addr (vj_packet job)) b"
proof (cases src; cases dst)
  assume "src = None" "dst = None"
  with assms(1) show ?thesis by (simp add: resolve_actors_or_deny_def basic_values)
next
  fix y assume none: "src = None" and dst: "dst = Some y"
  obtain x where "try_aaa_actor e job (source_addr (vj_packet job)) (dest_addr (vj_packet job)) True x t = (t', Inr (Inr (Some a)))"
    and "b = y"
    using assms(1) unfolding resolve_actors_or_deny_def none dst
    by (auto simp: basic_values elim!: andthenE split: sum.split_asm option.split_asm)
  with try_aaa_source_value [OF _ assms(2)] assms(4) dst show ?thesis by blast
next
  fix x assume src: "src = Some x" and none: "dst = None"
  obtain z where "try_aaa_actor e job (dest_addr (vj_packet job)) (source_addr (vj_packet job)) False z t = (t', Inr (Inr (Some b)))"
    and "a = x"
    using assms(1) unfolding resolve_actors_or_deny_def none src
    by (auto simp: basic_values elim!: andthenE split: sum.split_asm option.split_asm)
  with try_aaa_dest_value [OF _ assms(2)] assms(3) src show ?thesis by blast
next
  fix x y assume "src = Some x" "dst = Some y"
  with assms show ?thesis by (simp add: resolve_actors_or_deny_def basic_values)
qed

lemma resolve_actors_denies: "resolve_actors_or_deny e job src dst t = (t', Inr (Inl d)) \<Longrightarrow> \<exists>code. d = VdDeny code"
  by (auto simp: resolve_actors_or_deny_def basic_values elim!: andthenE split: option.split_asm sum.split_asm)

lemma reached_resolve:
  "reached e job s t \<Longrightarrow> resolve_docking_node actor a t = (t', Inr r) \<Longrightarrow> reached e job s t'"
  using resolve_docking_node_value [of actor a t t' r] by (auto intro: lapsed)

lemma reached_refresh:
  assumes "found e job s a actor" "reached e job s t" "refresh_and_persist_actor e actor t = (t', r)"
  shows "reached e job s t'"
proof -
  have "t' = fst (refresh_and_persist_actor e actor t)" using assms(3) by simp
  moreover have "reached e job s (fst (refresh_and_persist_actor e actor t))"
    using assms(1,2) unfolding found_def by (blast intro: refreshed refreshed_anonymous)
  ultimately show ?thesis by simp
qed

lemma bind_request_value:
  assumes "bind_request e job a b t = (t', Inr (VdAllow v r))" "reached e job s t"
    and "found e job s (source_addr (vj_packet job)) a" "found e job s (dest_addr (vj_packet job)) b"
  shows "\<exists>u src dst src_zpr dst_zpr. reached e job s u \<and>
    presented e job s (source_addr (vj_packet job)) src_zpr src \<and> presented e job s (dest_addr (vj_packet job)) dst_zpr dst \<and>
    permitted u job src dst src_zpr dst_zpr v"
proof -
  obtain t1 t2 x y src_zpr dst_zpr where addrs: "zpr_addr a = Some src_zpr" "zpr_addr b = Some dst_zpr"
    and docks: "resolve_docking_node a src_zpr t = (t1, Inr x :: (service_error, ip_addr option) result)"
      "resolve_docking_node b dst_zpr t1 = (t2, Inr y :: (service_error, ip_addr option) result)"
    and rest: "refresh_and_evaluate e job a b src_zpr dst_zpr t2 = (t', Inr (VdAllow v r))"
    using assms(1) by (auto simp: bind_request_def basic_values elim!: andthenE split: option.split_asm if_split_asm)
  have t2: "reached e job s t2" using reached_resolve [OF reached_resolve [OF assms(2) docks(1)] docks(2)] .
  obtain t3 t4 src dst c d where src: "refresh_and_persist_actor e a t2 = (t3, Inr (src, c))"
    and dst: "refresh_and_persist_actor e b t3 = (t4, Inr (dst, d))"
    and out: "evaluate_request e job src dst src_zpr dst_zpr t4 = (t', Inr (VdAllow v r))"
    using rest by (auto simp: refresh_and_evaluate_def basic_values elim!: attemptE)
  have t3: "reached e job s t3" using reached_refresh [OF assms(3) t2 src] .
  have t4: "reached e job s t4" using reached_refresh [OF assms(4) t3 dst] .
  show ?thesis
    using t4 addrs evaluate_request_value [OF out] assms(3,4) t2 src t3 dst unfolding presented_def by blast
qed

text \<open>C1. A node is handed a visa only in two cases. Either the request is about the flow between the visa service and a
  peer whose address was looked up and had no actor, and the policy declares that peer a neighbour of the node. Or there was a moment during the
  request at which all of the following held together: the policy in force allowed the packet between the two actors,
  found under the addresses of the packet (or anonymous there) and refreshed from the trusted services without an error;
  the authentication of neither had lapsed; the requesting node was the docking node of one of them; a route joined
  their docking nodes; and the visa admits that flow only and ends within the lifetimes a visa may have. What other
  tasks do in the meantime does not matter.\<close>

theorem visa_needs_permission:
  assumes "process_visa_request e job s = (s', Inr (VdAllow v r))"
  shows "\<exists>t. reached e job s t \<and>
    (peer_request e job s (sv_policy t) \<or>
     (\<exists>src dst src_zpr dst_zpr. presented e job s (source_addr (vj_packet job)) src_zpr src \<and>
        presented e job s (dest_addr (vj_packet job)) dst_zpr dst \<and> permitted t job src dst src_zpr dst_zpr v))"
proof -
  obtain t1 src dst answer t2 where actors: "get_actors e job s = (t1, Inr (src, dst))"
    and peer: "(if src = None \<or> dst = None then visa_for_future_peer_request e job src dst else yield None) t1 = (t2, Inr answer)"
    and rest: "(case answer of Some d \<Rightarrow> yield d | None \<Rightarrow> andthen (resolve_actors_or_deny e job src dst)
        (\<lambda>r. case r of Inl d \<Rightarrow> yield d | Inr (a, b) \<Rightarrow> bind_request e job a b)) t2 = (s', Inr (VdAllow v r))"
    using assms by (auto simp: process_visa_request_def elim!: andthenE)
  note found = get_actors_value [OF actors]
  have t2: "reached e job s t2"
    using peer found for_peer [of e job s t1 src dst] by (auto simp: basic_values split: if_split_asm)
  show ?thesis
  proof (cases answer)
    case (Some d)
    with peer have "visa_for_future_peer_request e job src dst t1 = (t2, Inr (Some d))"
      by (auto simp: basic_values split: if_split_asm)
    from for_peer_value [OF this] found show ?thesis by blast
  next
    case None
    with rest obtain t3 a b where resolved: "resolve_actors_or_deny e job src dst t2 = (t3, Inr (Inr (a, b)))"
      and bound: "bind_request e job a b t3 = (s', Inr (VdAllow v r))"
      using resolve_actors_denies
      by (auto simp: basic_values elim!: andthenE split: sum.split_asm) blast
    have "reached e job s t3 \<and> found e job s (source_addr (vj_packet job)) a \<and> found e job s (dest_addr (vj_packet job)) b"
      using resolve_actors_value [OF resolved t2] found by blast
    with bind_request_value [OF bound] show ?thesis by blast
  qed
qed

theorem visa_needs_permission_witness:
  "\<exists>t. reached example_env example_job example_service t \<and>
    (peer_request example_env example_job example_service (sv_policy t) \<or>
     (\<exists>src dst src_zpr dst_zpr v. v_expires v = HOURS 1 \<and> presented example_env example_job example_service (V4 1) src_zpr src \<and>
        presented example_env example_job example_service (V4 2) dst_zpr dst \<and> permitted t example_job src dst src_zpr dst_zpr v))"
proof -
  obtain s' v r where "process_visa_request example_env example_job example_service = (s', Inr (VdAllow v r))" "v_expires v = HOURS 1"
    by (rule allowed_value [OF example_allowed])
  with visa_needs_permission [OF this(1)] show ?thesis by (auto simp: example_job_def demo_request_def)
qed

subsection \<open>Copies along a path\<close>

lemma position_distinct:
  assumes "distinct xs" "i < length xs"
  shows "position (\<lambda>x. x = xs ! i) xs = Some i"
  using assms
proof (induction xs arbitrary: i)
  case (Cons x xs)
  then show ?case by (cases i) (auto simp: nth_Cons')
qed simp

lemma next_hop_on_path:
  assumes "distinct path" "i < length path"
  shows "next_hop_in_path path (path ! i) = (if Suc i < length path then Some (path ! Suc i) else None)"
  using assms by (simp add: next_hop_in_path_def position_distinct get_at_def)

lemma context_on_path:
  assumes "distinct path" "i < length path"
  shows "context_of path (path ! i) = (if i = 0 then Ingress else if Suc i = length path then Egress else Intermediary)"
proof -
  have ne: "path \<noteq> []" using assms(2) by auto
  have "hd path = path ! i \<longleftrightarrow> i = 0" "last path = path ! i \<longleftrightarrow> Suc i = length path"
    using assms ne by (auto simp: hd_conv_nth last_conv_nth nth_eq_iff_index_eq)
  then show ?thesis by (simp add: context_of_def)
qed

lemma actualize_on_path_cases:
  assumes "distinct path" "i < length path" "2 \<le> length path"
  shows "actualize_on_path v path (path ! i) =
    Inr (if Suc i = length path then v
         else let fp = \<lparr>fp_next_hop = path ! Suc i, fp_style = OneWay\<rparr>
              in if i = 0 then v\<lparr>v_fwd_pep := Some fp\<rparr> else to_forwarding_visa v fp)"
  using assms by (auto simp: actualize_on_path_def context_on_path next_hop_on_path Let_def)

lemma actualize_off_path:
  assumes "n \<notin> set path" "path \<noteq> []"
  shows "actualize_on_path v path n = Inl (Err (SeInternal ''failed to actualize visa''))"
proof -
  have "position (\<lambda>x. x = n) path = None" using assms(1) by (auto simp: position_None)
  moreover have "context_of path n = Intermediary" using assms by (auto simp: context_of_def)
  ultimately show ?thesis by (simp add: actualize_on_path_def next_hop_in_path_def)
qed

text \<open>C28. The copies of a visa that the nodes of its path are handed carry the flow from the first node to the last and no
  further: each node but the last is told to forward to the next node of the path, the last one is told nothing, only the
  two ends can admit or deliver traffic, the copies differ in nothing else, and a node off the path gets no copy at all.\<close>

theorem copies_forward_along_path:
  assumes "get_visa_metadata_by_id (sv_ck s) (sv_visas s) (issuer_id v) = Inr md" and "vm_path md = Some path"
    and "distinct path" and "2 \<le> length path" and "v_type v = FullVisa" and "v_fwd_pep v = None"
  shows "(\<forall>i < length path. \<exists>copy. actualize_visa_for_target_node v (path ! i) s = (s, Inr copy) \<and>
      v_fwd_pep copy = (if Suc i = length path then None else Some \<lparr>fp_next_hop = path ! Suc i, fp_style = OneWay\<rparr>) \<and>
      v_dock_pep copy = (if i = 0 \<or> Suc i = length path then v_dock_pep v else None) \<and>
      (v_type copy = FullVisa \<longleftrightarrow> i = 0 \<or> Suc i = length path) \<and>
      issuer_id copy = issuer_id v \<and> v_expires copy = v_expires v) \<and>
    (\<forall>n. n \<notin> set path \<longrightarrow> (\<exists>err. actualize_visa_for_target_node v n s = (s, Inl (Err err))))"
proof -
  have run: "actualize_visa_for_target_node v n s = (s, actualize_on_path v path n)" for n
    using assms(1,2,4)
    by (simp add: actualize_visa_for_target_node_def andthen_def read_visas_def gets_def lift_result_def map_err_def)
  show ?thesis
  proof (intro conjI allI impI)
    fix i assume "i < length path"
    with assms show "\<exists>copy. actualize_visa_for_target_node v (path ! i) s = (s, Inr copy) \<and>
      v_fwd_pep copy = (if Suc i = length path then None else Some \<lparr>fp_next_hop = path ! Suc i, fp_style = OneWay\<rparr>) \<and>
      v_dock_pep copy = (if i = 0 \<or> Suc i = length path then v_dock_pep v else None) \<and>
      (v_type copy = FullVisa \<longleftrightarrow> i = 0 \<or> Suc i = length path) \<and>
      issuer_id copy = issuer_id v \<and> v_expires copy = v_expires v"
      by (simp add: run actualize_on_path_cases to_forwarding_visa_def Let_def)
  next
    fix n assume "n \<notin> set path"
    with assms(4) show "\<exists>err. actualize_visa_for_target_node v n s = (s, Inl (Err err))"
      by (subst run, subst actualize_off_path) auto
  qed
qed

definition example_visa :: visa where
  "example_visa = \<lparr>issuer_id = 1000, v_config = 0, v_expires = HOURS 1, v_type = FullVisa, v_dock_pep = None, v_fwd_pep = None\<rparr>"

definition example_stored :: "unit service" where
  "example_stored = example_service\<lparr>sv_visas := insert_entry 1000
     \<lparr>ve_visa = example_visa, ve_metadata = metadata_new (sv_ck example_service) (V4 9) 1 1 [] Forward (Some [V4 9, V4 8, V4 7]) demo_request,
      ve_deadline = HOURS 1,
      ve_node_states = [(V4 9, \<lparr>ns_state = Installed, ns_revoke_vinst = None\<rparr>), (V4 8, \<lparr>ns_state = PendingInstall, ns_revoke_vinst = None\<rparr>)]\<rparr> store_default\<rparr>"

lemma example_metadata:
  "\<exists>md. get_visa_metadata_by_id (sv_ck example_stored) (sv_visas example_stored) (issuer_id example_visa) = Inr md \<and>
    vm_path md = Some [V4 9, V4 8, V4 7]"
proof -
  have "case get_visa_metadata_by_id (sv_ck example_stored) (sv_visas example_stored) (issuer_id example_visa) of
      Inr md \<Rightarrow> vm_path md = Some [V4 9, V4 8, V4 7] | Inl _ \<Rightarrow> False" by code_simp
  then show ?thesis by (auto split: sum.split_asm)
qed

theorem copies_forward_along_path_witness:
  "\<exists>copy. actualize_visa_for_target_node example_visa (V4 8) example_stored = (example_stored, Inr copy) \<and>
     v_fwd_pep copy = Some \<lparr>fp_next_hop = V4 7, fp_style = OneWay\<rparr>"
proof -
  obtain md where "get_visa_metadata_by_id (sv_ck example_stored) (sv_visas example_stored) (issuer_id example_visa) = Inr md"
    "vm_path md = Some [V4 9, V4 8, V4 7]" using example_metadata by blast
  note md = this
  have "\<exists>copy. actualize_visa_for_target_node example_visa ([V4 9, V4 8, V4 7] ! 1) example_stored = (example_stored, Inr copy) \<and>
      v_fwd_pep copy = (if Suc 1 = length [V4 9, V4 8, V4 7] then None else Some \<lparr>fp_next_hop = [V4 9, V4 8, V4 7] ! Suc 1, fp_style = OneWay\<rparr>)"
    using copies_forward_along_path [OF md, THEN conjunct1, THEN spec, of 1] by (auto simp: example_visa_def simp del: One_nat_def)
  then show ?thesis by simp
qed

end
