(* ===== verification/Revocations.thy ===== *)
theory Revocations
  imports Visa_Guarantees Visa_Recovery
begin

text \<open>
  Revocation of a visa to its end: the visa is marked on every node that holds it, each node acknowledges the revocation it
  is sent, and with the last acknowledgement the visa is gone.
\<close>

text \<open>A database that takes every write of a visa, and a codec that writes every visa.\<close>

definition accepts_writes :: "'db service_env \<Rightarrow> bool" where
  "accepts_writes e \<longleftrightarrow>
     (\<forall>k v ttl now db. \<exists>db'. db_set_ex (en_conn (se_store e)) k v ttl now db = (db', Inr ())) \<and>
     (\<forall>k now db. \<exists>db'. db_del (en_conn (se_store e)) k now db = (db', Inr ())) \<and>
     (\<forall>ck v md states. \<exists>json. record_json (se_codec e) ck v md states = Inr json)"

definition entry_of :: "u64 \<Rightarrow> 'db service \<Rightarrow> visa_entry option" where
  "entry_of i s = hm_get (vs_visas (sv_visas s)) i"

lemma rewrite_accepted:
  assumes "accepts_writes e"
  obtains db' where "rewrite_record (se_codec e) (en_conn (se_store e)) ck i en md states u db = (db', Inr (Some u))"
proof -
  obtain json where "record_json (se_codec e) ck (ve_visa en) md states = Inr json" using assms unfolding accepts_writes_def by blast
  moreover obtain db' where "db_set_ex (en_conn (se_store e)) (visa_key_for_visa i) json (remaining_secs ck (ve_deadline en)) (ck_mono ck) db = (db', Inr ())"
    using assms unfolding accepts_writes_def by blast
  ultimately show ?thesis using that by (simp add: rewrite_record_def)
qed

lemma entry_modify: "hm_get (vs_visas (modify_entry i f st)) j = (if i = j then map_option f (hm_get (vs_visas st) i) else hm_get (vs_visas st) j)"
  by (auto simp: modify_entry_def update_conv' split: option.splits)

lemma entry_remove: "hm_get (vs_visas (remove_entry i st)) j = (if i = j then None else hm_get (vs_visas st) j)"
  by (auto simp: remove_entry_def delete_conv' split: option.splits)

lemma visas_unindex_node [simp]: "vs_visas (unindex_node n i st) = vs_visas st"
  by (simp add: unindex_node_def)

text \<open>What an accepted removal leaves.\<close>

lemma remove_accepted:
  assumes "accepts_writes e"
  obtains s' where "visa_op_action e (RemoveVisa i) s = (s', Inr True)" "sv_ck s' = sv_ck s" "entry_of i s' = None"
    "\<forall>j. j \<noteq> i \<longrightarrow> entry_of j s' = entry_of j s"
proof -
  obtain db' where "db_del (en_conn (se_store e)) (visa_key_for_visa i) (ck_mono (sv_ck s)) (w_db (sv_world s)) = (db', Inr ())"
    using assms unfolding accepts_writes_def by blast
  then show ?thesis
    using that [of "with_repo \<lparr>rp_db = db', rp_store = remove_entry i (sv_visas s), rp_last_purge = sv_last_purge s\<rparr> s"]
    by (simp add: visa_op_action_def repo_op_def visa_write_def write_through_def remove_visa_io_def repo_of_def with_repo_def
        entry_of_def entry_remove)
qed

text \<open>The nodes a visa has still to be revoked on, after one of them has acknowledged.\<close>

definition acked :: "ip_addr \<Rightarrow> node_states \<Rightarrow> node_states" where
  "acked n states =
     (case hm_get states n of Some ns \<Rightarrow> if ns_state ns = PendingRevoke then hm_remove n states else states | None \<Rightarrow> states)"

lemma drop_node_accepted:
  assumes "accepts_writes e"
  obtains s' b where "visa_op_action e (RemoveNodeIfPendingRevoke n i) s = (s', Inr b)" "sv_ck s' = sv_ck s"
    "\<forall>j. j \<noteq> i \<longrightarrow> entry_of j s' = entry_of j s"
    "live_entry (sv_ck s) (sv_visas s') i =
       map_option (\<lambda>en. en\<lparr>ve_node_states := acked n (ve_node_states en)\<rparr>) (live_entry (sv_ck s) (sv_visas s) i)"
proof (cases "\<exists>en ns. live_entry (sv_ck s) (sv_visas s) i = Some en \<and> hm_get (ve_node_states en) n = Some ns \<and> ns_state ns = PendingRevoke")
  case True
  then obtain en ns where en: "live_entry (sv_ck s) (sv_visas s) i = Some en" "hm_get (ve_node_states en) n = Some ns" "ns_state ns = PendingRevoke"
    by blast
  define u where "u = DropNode i n (hm_remove n (ve_node_states en))"
  obtain db' where "rewrite_record (se_codec e) (en_conn (se_store e)) (sv_ck s) i en (ve_metadata en)
      (hm_remove n (ve_node_states en)) u (w_db (sv_world s)) = (db', Inr (Some u))"
    using rewrite_accepted [OF assms] by blast
  then have run: "visa_op_action e (RemoveNodeIfPendingRevoke n i) s =
      (with_repo \<lparr>rp_db = db', rp_store = apply_update u (sv_visas s), rp_last_purge = sv_last_purge s\<rparr> s, Inr True)"
    using en
    by (simp add: visa_op_action_def repo_op_def visa_write_def write_through_def remove_node_if_pending_revoke_io_def
        repo_of_def u_def)
  have stored: "hm_get (vs_visas (sv_visas s)) i = Some en" "is_live (sv_ck s) en"
    using en(1) by (auto simp: live_entry_def split: option.split_asm if_split_asm)
  show ?thesis
    by (rule that [OF run])
       (use en stored in \<open>auto simp: with_repo_def u_def entry_of_def entry_modify live_entry_def is_live_def acked_def\<close>)
next
  case False
  then have "acked n (ve_node_states en) = ve_node_states en" if "live_entry (sv_ck s) (sv_visas s) i = Some en" for en
    using that by (auto simp: acked_def split: option.split)
  then have same: "map_option (\<lambda>en. en\<lparr>ve_node_states := acked n (ve_node_states en)\<rparr>) (live_entry (sv_ck s) (sv_visas s) i) =
      live_entry (sv_ck s) (sv_visas s) i"
    by (cases "live_entry (sv_ck s) (sv_visas s) i") auto
  have run: "visa_op_action e (RemoveNodeIfPendingRevoke n i) s = (with_repo (repo_of s) s, Inr False)"
    using False
    by (auto simp: visa_op_action_def repo_op_def visa_write_def write_through_def remove_node_if_pending_revoke_io_def
        repo_of_def Let_def split: option.split)
  show ?thesis by (rule that [OF run]) (simp_all add: with_repo_def repo_of_def entry_of_def same)
qed

text \<open>An acknowledgement takes the node off the visa, and the last one takes the visa away.\<close>

lemma revoke_acked_effect:
  assumes "accepts_writes e"
  obtains s' where "revoke_acked e n i s = (s', Inr ())" "sv_ck s' = sv_ck s" "\<forall>j. j \<noteq> i \<longrightarrow> entry_of j s' = entry_of j s"
    "live_entry (sv_ck s) (sv_visas s') i =
       (case live_entry (sv_ck s) (sv_visas s) i of
          None \<Rightarrow> None
        | Some en \<Rightarrow> if acked n (ve_node_states en) = [] then None else Some (en\<lparr>ve_node_states := acked n (ve_node_states en)\<rparr>))"
    "live_entry (sv_ck s) (sv_visas s') i = None \<longrightarrow> entry_of i s' = None"
proof -
  obtain s1 b where dropped: "visa_op_action e (RemoveNodeIfPendingRevoke n i) s = (s1, Inr b)" "sv_ck s1 = sv_ck s"
    "\<forall>j. j \<noteq> i \<longrightarrow> entry_of j s1 = entry_of j s"
    "live_entry (sv_ck s) (sv_visas s1) i =
       map_option (\<lambda>en. en\<lparr>ve_node_states := acked n (ve_node_states en)\<rparr>) (live_entry (sv_ck s) (sv_visas s) i)"
    by (rule drop_node_accepted [OF assms, of n i s])
  obtain s2 where removed: "visa_op_action e (RemoveVisa i) s1 = (s2, Inr True)" "sv_ck s2 = sv_ck s1" "entry_of i s2 = None"
    "\<forall>j. j \<noteq> i \<longrightarrow> entry_of j s2 = entry_of j s1"
    by (rule remove_accepted [OF assms, of i s1])
  show ?thesis
  proof (cases "visa_has_node_refs (sv_ck s1) (sv_visas s1) i")
    case True
    then have "revoke_acked e n i s = (s1, Inr ())"
      by (simp add: revoke_acked_def attempt_def andthen_def dropped(1) read_visas_def gets_def yield_def)
    then show ?thesis
      by (rule that) (use True dropped in \<open>auto simp: visa_has_node_refs_def split: option.split_asm option.split\<close>)
  next
    case False
    then have "revoke_acked e n i s = (s2, Inr ())"
      by (simp add: revoke_acked_def attempt_def andthen_def dropped(1) removed(1) read_visas_def gets_def yield_def)
    moreover have "live_entry (sv_ck s) (sv_visas s2) i = None"
      using removed(3) by (simp add: live_entry_def entry_of_def)
    ultimately show ?thesis
      by (rule_tac that) (use False dropped removed in \<open>auto simp: visa_has_node_refs_def split: option.split_asm option.split\<close>)
  qed
qed

lemma mark_accepted:
  assumes "accepts_writes e" "live_entry (sv_ck s) (sv_visas s) i = Some en"
  obtains s' where "visa_op_action e (MarkVisaRevoked i) s = (s', Inr True)" "sv_ck s' = sv_ck s"
    "live_entry (sv_ck s) (sv_visas s') i = Some (en\<lparr>ve_node_states := map_states (\<lambda>ns. ns\<lparr>ns_state := PendingRevoke\<rparr>) (ve_node_states en)\<rparr>)"
proof -
  define states where "states = map_states (\<lambda>ns. ns\<lparr>ns_state := PendingRevoke\<rparr>) (ve_node_states en)"
  obtain db' where "rewrite_record (se_codec e) (en_conn (se_store e)) (sv_ck s) i en (ve_metadata en) states
      (SetStates i None states) (w_db (sv_world s)) = (db', Inr (Some (SetStates i None states)))"
    using rewrite_accepted [OF assms(1)] by blast
  then have run: "visa_op_action e (MarkVisaRevoked i) s =
      (with_repo \<lparr>rp_db = db', rp_store = apply_update (SetStates i None states) (sv_visas s), rp_last_purge = sv_last_purge s\<rparr> s, Inr True)"
    using assms(2)
    by (simp add: visa_op_action_def repo_op_def visa_write_def write_through_def mark_visa_revoked_io_def repo_of_def
        Let_def states_def)
  note stored = live_entryD [OF assms(2)]
  show ?thesis
    by (rule that [OF run])
       (use stored in \<open>simp_all add: with_repo_def live_entry_def entry_modify is_live_def flip: states_def\<close>)
qed

subsection \<open>The run of a revocation\<close>

text \<open>What happens after a visa has been marked: a node acknowledges, or something else goes on that does not touch the
  visa, except that it may take it away; time passes.\<close>

datatype 'db event = Ack ip_addr | Meanwhile "'db service \<Rightarrow> 'db service"

fun run_event :: "'db service_env \<Rightarrow> u64 \<Rightarrow> 'db event \<Rightarrow> 'db service \<Rightarrow> 'db service" where
  "run_event e i (Ack n) s = fst (revoke_acked e n i s)"
| "run_event e i (Meanwhile f) s = f s"

definition leaves_alone :: "u64 \<Rightarrow> ('db service \<Rightarrow> 'db service) \<Rightarrow> bool" where
  "leaves_alone i f \<longleftrightarrow> (\<forall>s. ck_mono (sv_ck s) \<le> ck_mono (sv_ck (f s)) \<and> entry_of i (f s) \<in> {entry_of i s, None})"

text \<open>The visa is gone, or it waits for acknowledgements of some of the nodes and of no others.\<close>

definition waits_for :: "u64 \<Rightarrow> ip_addr set \<Rightarrow> 'db service \<Rightarrow> bool" where
  "waits_for i N s \<longleftrightarrow>
     (case live_entry (sv_ck s) (sv_visas s) i of
        None \<Rightarrow> True
      | Some en \<Rightarrow> ve_node_states en \<noteq> [] \<and> fst ` set (ve_node_states en) \<subseteq> N \<and>
          (\<forall>n ns. hm_get (ve_node_states en) n = Some ns \<longrightarrow> ns_state ns = PendingRevoke))"

lemma waits_for_none: "waits_for i {} s \<Longrightarrow> live_entry (sv_ck s) (sv_visas s) i = None"
  by (auto simp: waits_for_def split: option.split_asm)

lemma acked_all:
  assumes "\<forall>n ns. hm_get states n = Some ns \<longrightarrow> ns_state ns = PendingRevoke"
  shows "acked n states = hm_remove n states"
proof (cases "hm_get states n")
  case None
  then have "hm_remove n states = states" by (simp add: map_of_eq_None_iff AList.delete_id)
  with None show ?thesis by (simp add: acked_def)
qed (use assms in \<open>simp add: acked_def\<close>)

lemma waits_for_ack:
  assumes "accepts_writes e" "waits_for i N s"
  shows "waits_for i (N - {n}) (run_event e i (Ack n) s)"
proof -
  obtain s' where s': "revoke_acked e n i s = (s', Inr ())" "sv_ck s' = sv_ck s"
    "live_entry (sv_ck s) (sv_visas s') i =
       (case live_entry (sv_ck s) (sv_visas s) i of
          None \<Rightarrow> None
        | Some en \<Rightarrow> if acked n (ve_node_states en) = [] then None else Some (en\<lparr>ve_node_states := acked n (ve_node_states en)\<rparr>))"
    by (rule revoke_acked_effect [OF assms(1), of n i s])
  show ?thesis
  proof (cases "live_entry (sv_ck s) (sv_visas s) i")
    case None
    with s' show ?thesis by (simp add: waits_for_def)
  next
    case (Some en)
    with assms(2) have en: "fst ` set (ve_node_states en) \<subseteq> N" "\<forall>n ns. hm_get (ve_node_states en) n = Some ns \<longrightarrow> ns_state ns = PendingRevoke"
      by (simp_all add: waits_for_def)
    have "fst ` set (hm_remove n (ve_node_states en)) \<subseteq> N - {n}"
      using en(1) by (auto simp: AList.delete_eq)
    with Some s' en show ?thesis
      by (auto simp: waits_for_def acked_all delete_conv')
  qed
qed

lemma waits_for_meanwhile:
  assumes "leaves_alone i f" "waits_for i N s"
  shows "waits_for i N (f s)"
proof (cases "live_entry (sv_ck (f s)) (sv_visas (f s)) i")
  case (Some en)
  then have "entry_of i (f s) = Some en" "is_live (sv_ck (f s)) en" using live_entryD by (auto simp: entry_of_def)
  then have "entry_of i s = Some en" "is_live (sv_ck s) en"
    using assms(1) by (auto simp: leaves_alone_def is_live_iff) (metis (no_types) add_right_mono option.discI order_trans)+
  then have "live_entry (sv_ck s) (sv_visas s) i = Some en" by (simp add: live_entry_def entry_of_def)
  with Some assms(2) show ?thesis by (simp add: waits_for_def)
qed (simp add: waits_for_def)

lemma waits_for_run:
  assumes "accepts_writes e" "\<forall>f. Meanwhile f \<in> set events \<longrightarrow> leaves_alone i f" "waits_for i N s"
  shows "waits_for i (N - {n. Ack n \<in> set events}) (fold (run_event e i) events s)"
  using assms(2,3)
proof (induction events arbitrary: N s)
  case (Cons ev events)
  show ?case
  proof (cases ev)
    case (Ack n)
    have "waits_for i (N - {n} - {n. Ack n \<in> set events}) (fold (run_event e i) events (run_event e i (Ack n) s))"
      using Cons.prems waits_for_ack [OF assms(1)] by (intro Cons.IH) auto
    moreover have "N - {n} - {n. Ack n \<in> set events} = N - {n. Ack n \<in> set (ev # events)}" using Ack by auto
    ultimately show ?thesis using Ack by simp
  next
    case (Meanwhile f)
    then have "leaves_alone i f" using Cons.prems(1) by auto
    then have "waits_for i N (f s)" using Cons.prems(2) by (rule waits_for_meanwhile)
    then have "waits_for i (N - {n. Ack n \<in> set events}) (fold (run_event e i) events (f s))"
      using Cons.prems(1) by (intro Cons.IH) auto
    with Meanwhile show ?thesis by simp
  qed
qed simp

lemma keys_marked: "fst ` set (map_states f states) = fst ` set states"
  by (induction states) (auto simp: map_states_def)

lemma marked_Nil [simp]: "map_states f states = [] \<longleftrightarrow> states = []"
  by (simp add: map_states_def)

text \<open>C8. A revocation comes to its end: once a visa has been marked for revocation and every node that had it has
  acknowledged, in whatever order and with any activity in between that does not touch this visa, the visa is gone; no
  lookup finds it. It takes a database that accepts the writes.\<close>

theorem revocation_completes:
  assumes "accepts_writes e" and "live_entry (sv_ck s) (sv_visas s) i = Some en" and "ve_node_states en \<noteq> []"
    and "\<forall>n \<in> set (hm_keys (ve_node_states en)). Ack n \<in> set events"
    and "\<forall>f. Meanwhile f \<in> set events \<longrightarrow> leaves_alone i f"
  shows "\<exists>s1. visa_op_action e (MarkVisaRevoked i) s = (s1, Inr True) \<and>
    (let s2 = fold (run_event e i) events s1
     in live_entry (sv_ck s2) (sv_visas s2) i = None \<and> \<not> visa_has_node_refs (sv_ck s2) (sv_visas s2) i)"
proof -
  obtain s1 where s1: "visa_op_action e (MarkVisaRevoked i) s = (s1, Inr True)" "sv_ck s1 = sv_ck s"
    "live_entry (sv_ck s) (sv_visas s1) i = Some (en\<lparr>ve_node_states := map_states (\<lambda>ns. ns\<lparr>ns_state := PendingRevoke\<rparr>) (ve_node_states en)\<rparr>)"
    by (rule mark_accepted [OF assms(1,2)])
  have "waits_for i (set (hm_keys (ve_node_states en))) s1"
    using assms(3) unfolding waits_for_def s1(2,3) by (auto simp: keys_marked)
  from waits_for_run [OF assms(1,5) this] have "waits_for i (set (hm_keys (ve_node_states en)) - {n. Ack n \<in> set events})
      (fold (run_event e i) events s1)" .
  moreover have "set (hm_keys (ve_node_states en)) - {n. Ack n \<in> set events} = {}" using assms(4) by blast
  ultimately have "waits_for i {} (fold (run_event e i) events s1)" by (simp only:)
  from waits_for_none [OF this] s1(1) show ?thesis by (simp add: visa_has_node_refs_def)
qed

lemma example_accepts: "accepts_writes example_env"
  by (simp add: accepts_writes_def example_env_def example_store_def two_adapters_def example_codec_def record_json_def
      build_record_def bind_def)

definition later :: "unit service \<Rightarrow> unit service" where
  "later s = s\<lparr>sv_ck := (sv_ck s)\<lparr>ck_mono := ck_mono (sv_ck s) + 1\<rparr>\<rparr>"

theorem revocation_completes_witness:
  "\<exists>s1. visa_op_action example_env (MarkVisaRevoked 1000) example_stored = (s1, Inr True) \<and>
    (let s2 = fold (run_event example_env 1000) [Ack (V4 8), Meanwhile later, Ack (V4 9)] s1
     in live_entry (sv_ck s2) (sv_visas s2) 1000 = None \<and> \<not> visa_has_node_refs (sv_ck s2) (sv_visas s2) 1000)"
proof -
  have "case live_entry (sv_ck example_stored) (sv_visas example_stored) 1000 of
      None \<Rightarrow> False | Some en \<Rightarrow> hm_keys (ve_node_states en) = [V4 9, V4 8]" by code_simp
  then obtain en where en: "live_entry (sv_ck example_stored) (sv_visas example_stored) 1000 = Some en"
    "hm_keys (ve_node_states en) = [V4 9, V4 8]" by (auto split: option.split_asm)
  show ?thesis
    by (rule revocation_completes [OF example_accepts en(1)])
       (use en(2) in \<open>auto simp: leaves_alone_def later_def entry_of_def\<close>)
qed

end
