(* ===== verification/Visa_Sweeps.thy ===== *)
theory Visa_Sweeps
  imports Service_Frames Revocations
begin

text \<open>
  The sweep over the live visas, \<^verbatim>\<open>vs/src/visa_reconciler.rs\<close>, and the handler of \<^verbatim>\<open>vs/src/event_mgr.rs\<close> that runs it when the
  data of a trusted service has changed.
\<close>

subsection \<open>The sweep\<close>

datatype sweep_reason = PolicyUpdate | AttributeChange

definition apply_recheck ::
  "'db service_env \<Rightarrow> policy \<Rightarrow> sweep_reason \<Rightarrow> u64 \<Rightarrow> service_error + visa_recheck \<Rightarrow> ('db, unit) service_action" where
  "apply_recheck e p reason i r =
     (case r of
        Inl _ \<Rightarrow> yield ()
      | Inr SkipUnresolvedActor \<Rightarrow> yield ()
      | Inr AllowSameRoute \<Rightarrow>
          if reason = AttributeChange then yield ()
          else andthen (gets (\<lambda>s. vinst (sv_policy s))) (\<lambda>current.
            if current \<noteq> vinst p then yield ()
            else attempt (visa_op_action e (RecordAllowVerdict i (vinst p))) (\<lambda>_. yield ()))
      | Inr Revoke \<Rightarrow>
          andthen (gets (\<lambda>s. vinst (sv_policy s))) (\<lambda>current.
            if current \<noteq> vinst p then yield ()
            else attempt (visa_op_action e (case reason of
                PolicyUpdate \<Rightarrow> RecordDenyVerdict i (vinst p)
              | AttributeChange \<Rightarrow> MarkVisaRevoked i)) (\<lambda>_. yield ())))"

definition revalidate_visa ::
  "'db service_env \<Rightarrow> policy \<Rightarrow> sweep_reason \<Rightarrow> u64 \<times> visa_metadata \<Rightarrow> ('db, unit) service_action" where
  "revalidate_visa e p reason = (\<lambda>(i, md).
     if reason = PolicyUpdate \<and> vm_checked_vinst md \<ge> vinst p then yield ()
     else attempt (recheck_visa_allowed e md p) (\<lambda>r.
       andthen (apply_recheck e p reason i r) (\<lambda>_. pause e 10)))"

definition revalidate_visas :: "'db service_env \<Rightarrow> policy \<Rightarrow> sweep_reason \<Rightarrow> ('db, unit) service_action" where
  "revalidate_visas e p reason =
     andthen (read_visas list_visa_metadata) (\<lambda>snapshot. for_each snapshot (revalidate_visa e p reason))"

definition live_visa_actor_addrs :: "('db, ip_addr list) service_action" where
  "live_visa_actor_addrs =
     andthen (read_visas list_visa_metadata) (\<lambda>snapshot.
     yield (remdups (concat (map (\<lambda>(_, md). [source_addr (vm_five_tuple md), dest_addr (vm_five_tuple md)]) snapshot))))"

definition handle_trusted_service_change :: "'db service_env \<Rightarrow> ('db, unit) service_action" where
  "handle_trusted_service_change e =
     andthen (gets sv_policy) (\<lambda>p.
     andthen live_visa_actor_addrs (\<lambda>addrs.
     andthen (refresh_actors e (se_addr_order e addrs) (0, 0, 0)) (\<lambda>_.
     revalidate_visas e p AttributeChange)))"

subsection \<open>What a sweep leaves alone\<close>

definition settled :: "clock \<Rightarrow> visa_store \<Rightarrow> 'db service \<Rightarrow> bool" where
  "settled ck st s \<longleftrightarrow> sv_ck s = ck \<and> sv_visas s = st"

interpretation settled: read_frame "settled ck st :: 'db service \<Rightarrow> bool" for ck st
  by unfold_locales (simp_all add: settled_def)

text \<open>Other tasks leave the visas and the clock alone while the sweep waits; they may do anything else, and install a new
  policy in particular.\<close>

definition calm :: "'db service_env \<Rightarrow> bool" where
  "calm e \<longleftrightarrow> (\<forall>ck st. undisturbed (settled ck st) e)"

lemma pause_calm: "calm e \<Longrightarrow> pause e n s = (s', r) \<Longrightarrow> settled (sv_ck s) (sv_visas s) s'"
  by (auto simp: calm_def settled_def undisturbed_def pause_def modify_def)

lemma recheck_calm:
  "calm e \<Longrightarrow> recheck_visa_allowed e md p s = (s', r) \<Longrightarrow> settled (sv_ck s) (sv_visas s) s'"
  using keepsD [OF settled.recheck] by (metis calm_def settled_def)

subsection \<open>What a verdict makes of a visa\<close>

definition allowed_at :: "u64 \<Rightarrow> visa_entry \<Rightarrow> visa_entry" where
  "allowed_at vi en = (if vi \<le> vm_checked_vinst (ve_metadata en) then en
     else en\<lparr>ve_metadata := (ve_metadata en)\<lparr>vm_checked_vinst := vi\<rparr>,
             ve_node_states := map_states (cancel_revoke vi) (ve_node_states en)\<rparr>)"

definition denied_at :: "u64 \<Rightarrow> visa_entry \<Rightarrow> visa_entry" where
  "denied_at vi en = (if vi \<le> vm_checked_vinst (ve_metadata en) then en
     else en\<lparr>ve_node_states := map_states (stamp_revoke vi) (ve_node_states en)\<rparr>)"

definition revoked :: "visa_entry \<Rightarrow> visa_entry" where
  "revoked en = en\<lparr>ve_node_states := map_states (\<lambda>ns. ns\<lparr>ns_state := PendingRevoke\<rparr>) (ve_node_states en)\<rparr>"

text \<open>The verdict on a visa counts only where the policy it was reached under is still in force.\<close>

fun judged :: "bool \<Rightarrow> sweep_reason \<Rightarrow> u64 \<Rightarrow> (service_error, visa_recheck) result \<Rightarrow> visa_entry \<Rightarrow> visa_entry" where
  "judged True PolicyUpdate vi (Inr AllowSameRoute) en = allowed_at vi en"
| "judged True PolicyUpdate vi (Inr Revoke) en = denied_at vi en"
| "judged True AttributeChange vi (Inr Revoke) en = revoked en"
| "judged _ _ _ _ en = en"

definition swept :: "'db service_env \<Rightarrow> policy \<Rightarrow> sweep_reason \<Rightarrow> visa_metadata \<Rightarrow> 'db service \<Rightarrow> visa_entry \<Rightarrow> visa_entry" where
  "swept e p reason md t en =
     (case recheck_visa_allowed e md p t of
        (t', r) \<Rightarrow> judged (vinst (sv_policy t') = vinst p) reason (vinst p) r en)"

definition entry_at :: "u64 \<Rightarrow> 'db service \<Rightarrow> visa_entry option" where
  "entry_at i s = live_entry (sv_ck s) (sv_visas s) i"

lemma entry_at_settled: "settled (sv_ck s) (sv_visas s) s' \<Longrightarrow> entry_at i s' = entry_at i s"
  by (simp add: settled_def entry_at_def)

text \<open>An accepted write changes one visa.\<close>

definition changes_entry :: "u64 \<Rightarrow> visa_entry \<Rightarrow> 'db service \<Rightarrow> 'db service \<Rightarrow> bool" where
  "changes_entry i en s s' \<longleftrightarrow> sv_ck s' = sv_ck s \<and> (\<forall>j. entry_at j s' = (if j = i then Some en else entry_at j s))"

lemma unchanged_accepted:
  assumes "entry_at i s = Some en" "op_io (se_codec e) (en_conn (se_store e)) (sv_ck s) opn (w_db (sv_world s)) (sv_visas s) = (w_db (sv_world s), Inr None)"
  shows "\<exists>s'. visa_op_action e opn s = (s', Inr False) \<and> changes_entry i en s s'"
  using assms
  by (auto simp: visa_op_action_def repo_op_def visa_write_def write_through_def repo_of_def with_repo_def changes_entry_def
      entry_at_def)

lemma rewritten_accepted:
  assumes "accepts_writes e" "entry_at i s = Some en"
    and io: "\<And>db. op_io (se_codec e) (en_conn (se_store e)) (sv_ck s) opn db (sv_visas s) =
      rewrite_record (se_codec e) (en_conn (se_store e)) (sv_ck s) i en md states (SetStates i mdo states) db"
  shows "\<exists>s'. visa_op_action e opn s = (s', Inr True) \<and>
    changes_entry i (en\<lparr>ve_metadata := (case mdo of None \<Rightarrow> ve_metadata en | Some m \<Rightarrow> m), ve_node_states := states\<rparr>) s s'"
proof -
  obtain db' where "rewrite_record (se_codec e) (en_conn (se_store e)) (sv_ck s) i en md states
      (SetStates i mdo states) (w_db (sv_world s)) = (db', Inr (Some (SetStates i mdo states)))"
    using rewrite_accepted [OF assms(1)] by blast
  then have "visa_op_action e opn s =
      (with_repo \<lparr>rp_db = db', rp_store = apply_update (SetStates i mdo states) (sv_visas s), rp_last_purge = sv_last_purge s\<rparr> s, Inr True)"
    by (simp add: visa_op_action_def repo_op_def visa_write_def write_through_def repo_of_def io)
  moreover have "hm_get (vs_visas (sv_visas s)) i = Some en" "is_live (sv_ck s) en"
    using live_entryD assms(2) by (auto simp: entry_at_def)
  ultimately show ?thesis
    by (auto simp: with_repo_def changes_entry_def entry_at_def live_entry_def entry_modify is_live_def split: option.split)
qed

lemma allow_accepted:
  assumes "accepts_writes e" "entry_at i s = Some en"
  shows "\<exists>s' b. visa_op_action e (RecordAllowVerdict i vi) s = (s', Inr b) \<and> changes_entry i (allowed_at vi en) s s'"
proof (cases "vi \<le> vm_checked_vinst (ve_metadata en)")
  case True
  with unchanged_accepted [OF assms(2), of e "RecordAllowVerdict i vi"] assms(2) show ?thesis
    by (auto simp: record_allow_verdict_io_def allowed_at_def entry_at_def)
next
  case False
  let ?md = "(ve_metadata en)\<lparr>vm_checked_vinst := vi\<rparr>" and ?states = "map_states (cancel_revoke vi) (ve_node_states en)"
  have "\<exists>s'. visa_op_action e (RecordAllowVerdict i vi) s = (s', Inr True) \<and>
      changes_entry i (en\<lparr>ve_metadata := (case Some ?md of None \<Rightarrow> ve_metadata en | Some m \<Rightarrow> m), ve_node_states := ?states\<rparr>) s s'"
    by (rule rewritten_accepted [OF assms])
       (use False assms(2) in \<open>simp add: record_allow_verdict_io_def entry_at_def Let_def\<close>)
  with False show ?thesis by (auto simp: allowed_at_def)
qed

lemma deny_accepted:
  assumes "accepts_writes e" "entry_at i s = Some en"
  shows "\<exists>s' b. visa_op_action e (RecordDenyVerdict i vi) s = (s', Inr b) \<and> changes_entry i (denied_at vi en) s s'"
proof (cases "vi \<le> vm_checked_vinst (ve_metadata en)")
  case True
  with unchanged_accepted [OF assms(2), of e "RecordDenyVerdict i vi"] assms(2) show ?thesis
    by (auto simp: record_deny_verdict_io_def denied_at_def entry_at_def)
next
  case False
  let ?states = "map_states (stamp_revoke vi) (ve_node_states en)"
  have "\<exists>s'. visa_op_action e (RecordDenyVerdict i vi) s = (s', Inr True) \<and>
      changes_entry i (en\<lparr>ve_metadata := (case None of None \<Rightarrow> ve_metadata en | Some m \<Rightarrow> m), ve_node_states := ?states\<rparr>) s s'"
    by (rule rewritten_accepted [OF assms])
       (use False assms(2) in \<open>simp add: record_deny_verdict_io_def entry_at_def Let_def\<close>)
  with False show ?thesis by (auto simp: denied_at_def)
qed

lemma revoke_accepted:
  assumes "accepts_writes e" "entry_at i s = Some en"
  shows "\<exists>s' b. visa_op_action e (MarkVisaRevoked i) s = (s', Inr b) \<and> changes_entry i (revoked en) s s'"
proof -
  let ?states = "map_states (\<lambda>ns. ns\<lparr>ns_state := PendingRevoke\<rparr>) (ve_node_states en)"
  have "\<exists>s'. visa_op_action e (MarkVisaRevoked i) s = (s', Inr True) \<and>
      changes_entry i (en\<lparr>ve_metadata := (case None of None \<Rightarrow> ve_metadata en | Some m \<Rightarrow> m), ve_node_states := ?states\<rparr>) s s'"
    by (rule rewritten_accepted [OF assms])
       (use assms(2) in \<open>simp add: mark_visa_revoked_io_def entry_at_def Let_def\<close>)
  then show ?thesis by (auto simp: revoked_def)
qed

lemma apply_recheck_effect:
  assumes "accepts_writes e" "entry_at i s = Some en" and "apply_recheck e p reason i r s = (s', Inr ())"
  shows "changes_entry i (judged (vinst (sv_policy s) = vinst p) reason (vinst p)
    (case r of Inl err \<Rightarrow> Inl (Err err) | Inr v \<Rightarrow> Inr v) en) s s'"
proof -
  have same: "changes_entry i en s s" using assms(2) by (simp add: changes_entry_def)
  note accepted = allow_accepted [OF assms(1,2), of "vinst p"] deny_accepted [OF assms(1,2), of "vinst p"] revoke_accepted [OF assms(1,2)]
  consider err where "r = Inl err" | "r = Inr SkipUnresolvedActor" | "r = Inr AllowSameRoute" | "r = Inr Revoke"
    by (metis sum.exhaust visa_recheck.exhaust)
  then show ?thesis
    using assms(3) same accepted
    by cases
       (cases reason; cases "vinst (sv_policy s) = vinst p"; auto simp: apply_recheck_def yield_def andthen_def attempt_def gets_def)+
qed

lemma revalidate_visa_effect:
  assumes "accepts_writes e" "calm e" "entry_at i s = Some en"
    and run: "revalidate_visa e p reason (i, ve_metadata en) s = (s', Inr ())"
  shows "changes_entry i (swept e p reason (ve_metadata en) s en) s s'"
proof (cases "reason = PolicyUpdate \<and> vm_checked_vinst (ve_metadata en) \<ge> vinst p")
  case True
  then have "judged f reason (vinst p) r en = en" for f r
    by (cases "(f, PolicyUpdate, vinst p, r, en)" rule: judged.cases) (auto simp: allowed_at_def denied_at_def)
  with True run assms(3) show ?thesis
    by (simp add: revalidate_visa_def yield_def changes_entry_def swept_def split: prod.split)
next
  case False
  with run have run: "attempt (recheck_visa_allowed e (ve_metadata en) p)
      (\<lambda>r. andthen (apply_recheck e p reason i r) (\<lambda>_. pause e 10)) s = (s', Inr ())"
    by (simp add: revalidate_visa_def del: One_nat_def)
  obtain s1 s2 v where s1: "recheck_visa_allowed e (ve_metadata en) p s = (s1, case v of Inl err \<Rightarrow> Inl (Err err) | Inr v \<Rightarrow> Inr v)"
    and s2: "apply_recheck e p reason i v s1 = (s2, Inr ())" and s3: "pause e 10 s2 = (s', Inr () :: (service_error, unit) result)"
    using run by (elim attemptE andthenE) (force simp: sum.case)+
  have settled: "settled (sv_ck s) (sv_visas s) s1" using recheck_calm [OF assms(2) s1] .
  then have "entry_at i s1 = Some en"
    using assms(3) entry_at_settled [OF settled] by simp
  from apply_recheck_effect [OF assms(1) this s2] pause_calm [OF assms(2) s3] settled show ?thesis
    by (auto simp: s1 swept_def changes_entry_def settled_def entry_at_def)
qed

definition listed :: "(u64 \<times> visa_metadata) list \<Rightarrow> 'db service \<Rightarrow> bool" where
  "listed snapshot s \<longleftrightarrow> distinct (map fst snapshot) \<and> (\<forall>(i, md) \<in> set snapshot. \<exists>en. entry_at i s = Some en \<and> ve_metadata en = md)"

lemma sweep_step:
  assumes "accepts_writes e" "calm e" "listed ((i, md) # rest) s"
    and "for_each ((i, md) # rest) (revalidate_visa e p reason) s = (s', Inr ())"
  obtains s1 en where "revalidate_visa e p reason (i, md) s = (s1, Inr ())" "for_each rest (revalidate_visa e p reason) s1 = (s', Inr ())"
    "listed rest s1" "entry_at i s = Some en"
    "changes_entry i (swept e p reason md s en) s s1"
proof -
  from assms(3) obtain en where en: "entry_at i s = Some en" "ve_metadata en = md" by (auto simp: listed_def)
  obtain s1 where s1: "revalidate_visa e p reason (i, md) s = (s1, Inr ())" "for_each rest (revalidate_visa e p reason) s1 = (s', Inr ())"
    using assms(4) by (auto elim: andthenE)
  have step: "changes_entry i (swept e p reason md s en) s s1"
    using revalidate_visa_effect [OF assms(1,2) en(1)] s1(1) en(2) by simp
  show ?thesis
    by (rule that [OF s1 _ en(1) step]) (use assms(3) step in \<open>force simp: changes_entry_def listed_def\<close>)
qed

lemma sweep_others:
  assumes "accepts_writes e" "calm e" "listed snapshot s"
    and "for_each snapshot (revalidate_visa e p reason) s = (s', Inr ())" "i \<notin> fst ` set snapshot"
  shows "entry_at i s' = entry_at i s \<and> sv_ck s' = sv_ck s"
  using assms(3-)
proof (induction snapshot arbitrary: s)
  case (Cons x rest)
  obtain j md where x: "x = (j, md)" by (cases x)
  from sweep_step [OF assms(1,2) Cons.prems(1-2) [unfolded x]] obtain s1 en where
    "for_each rest (revalidate_visa e p reason) s1 = (s', Inr ())" "listed rest s1"
    "changes_entry j (swept e p reason md s en) s s1" by metis
  with Cons.IH [of s1] Cons.prems(3) x show ?case by (auto simp: changes_entry_def)
qed (simp add: yield_def)

lemma sweep_effect:
  assumes "accepts_writes e" "calm e" "listed snapshot s"
    and "for_each snapshot (revalidate_visa e p reason) s = (s', Inr ())" "k < length snapshot" "snapshot ! k = (i, md)"
    and "entry_at i s = Some en"
  shows "entry_at i s' = Some (swept e p reason md (fst (for_each (take k snapshot) (revalidate_visa e p reason) s)) en)"
  using assms(3-)
proof (induction snapshot arbitrary: s k)
  case (Cons x rest)
  obtain j mdj where x: "x = (j, mdj)" by (cases x)
  from sweep_step [OF assms(1,2) Cons.prems(1-2) [unfolded x]] obtain s1 enj where
    s1: "revalidate_visa e p reason (j, mdj) s = (s1, Inr ())" "for_each rest (revalidate_visa e p reason) s1 = (s', Inr ())"
    "listed rest s1" and enj: "entry_at j s = Some enj"
    and step: "changes_entry j (swept e p reason mdj s enj) s s1" by metis
  have "j \<notin> fst ` set rest" using Cons.prems(1) x by (simp add: listed_def)
  show ?case
  proof (cases k)
    case 0
    with Cons.prems x enj have "i = j" "md = mdj" "en = enj" by auto
    moreover have "entry_at j s' = entry_at j s1"
      using sweep_others [OF assms(1,2) s1(3,2) \<open>j \<notin> fst ` set rest\<close>] by simp
    ultimately show ?thesis using 0 step by (simp add: changes_entry_def yield_def)
  next
    case (Suc m)
    then have m: "m < length rest" "rest ! m = (i, md)" using Cons.prems(3,4) by simp_all
    then have "i \<noteq> j" using \<open>j \<notin> fst ` set rest\<close> by (metis fst_conv image_eqI nth_mem)
    then have "entry_at i s1 = Some en" using step Cons.prems(5) by (simp add: changes_entry_def)
    from Cons.IH [OF s1(3,2) m this] Suc s1(1) x show ?thesis by (simp add: andthen_def)
  qed
qed simp

lemma listed_snapshot:
  assumes "hm_wf (vs_visas (sv_visas s))"
  shows "listed (list_visa_metadata (sv_ck s) (sv_visas s)) s"
proof -
  have "distinct (map fst (list_visa_metadata (sv_ck s) (sv_visas s)))"
    using assms by (simp add: list_visa_metadata_def comp_def split_def distinct_map_filter)
  moreover have "\<exists>en. entry_at i s = Some en \<and> ve_metadata en = md"
    if "(i, md) \<in> set (list_visa_metadata (sv_ck s) (sv_visas s))" for i md
    using that hm_entry_iff [OF assms] by (auto simp: list_visa_metadata_def entry_at_def live_entry_def is_live_def)
  ultimately show ?thesis by (auto simp: listed_def)
qed

text \<open>C5. A sweep that completes gives every live visa the verdict of its recheck, and no other visa changes. The visa at each
  place of the list is rechecked in the state the sweep has reached there, and its verdict counts only where the policy the
  sweep works with is still in force when the recheck ends. After a policy update an allowed visa is then recorded as
  checked under that policy, with older queued revocations cancelled, and a denied or rerouted one is to be revoked on all
  its nodes; after a change of attributes a denied one is to be revoked and nothing else changes. A visa whose recheck
  fails, or whose actors cannot be resolved, and a visa already checked under this policy stay as they are. It takes a
  database that accepts the writes, and other tasks that leave the visas and the clock alone meanwhile; they may
  install another policy.\<close>

theorem sweep_applies_verdicts:
  assumes "accepts_writes e" "calm e" and "hm_wf (vs_visas (sv_visas s))"
    and "revalidate_visas e p reason s = (s', Inr ())"
  shows "(\<forall>k i md. k < length (list_visa_metadata (sv_ck s) (sv_visas s)) \<and>
       list_visa_metadata (sv_ck s) (sv_visas s) ! k = (i, md) \<longrightarrow>
       (\<exists>en. live_entry (sv_ck s) (sv_visas s) i = Some en \<and> ve_metadata en = md \<and>
          live_entry (sv_ck s') (sv_visas s') i = Some (swept e p reason md
            (fst (for_each (take k (list_visa_metadata (sv_ck s) (sv_visas s))) (revalidate_visa e p reason) s)) en))) \<and>
    (\<forall>i. i \<notin> fst ` set (list_visa_metadata (sv_ck s) (sv_visas s)) \<longrightarrow>
       live_entry (sv_ck s') (sv_visas s') i = live_entry (sv_ck s) (sv_visas s) i)"
proof -
  let ?l = "list_visa_metadata (sv_ck s) (sv_visas s)"
  note listed = listed_snapshot [OF assms(3)]
  have run: "for_each ?l (revalidate_visa e p reason) s = (s', Inr ())"
    using assms(4) by (simp add: revalidate_visas_def andthen_def read_visas_def gets_def)
  have "\<exists>en. entry_at i s = Some en \<and> ve_metadata en = md \<and>
      entry_at i s' = Some (swept e p reason md (fst (for_each (take k ?l) (revalidate_visa e p reason) s)) en)"
    if at: "k < length ?l" "?l ! k = (i, md)" for k i md
  proof -
    from at have "(i, md) \<in> set ?l" by (metis nth_mem)
    then obtain en where "entry_at i s = Some en" "ve_metadata en = md" using listed by (auto simp: listed_def)
    with sweep_effect [OF assms(1,2) listed run at] show ?thesis by blast
  qed
  moreover have "entry_at i s' = entry_at i s" if "i \<notin> fst ` set ?l" for i
    using sweep_others [OF assms(1,2) listed run that] by simp
  ultimately show ?thesis unfolding entry_at_def by blast
qed

definition reinstalled :: "unit service" where
  "reinstalled = example_stored\<lparr>sv_policy := demo_policy\<lparr>vinst := 7\<rparr>\<rparr>"

lemma example_calm: "calm example_env"
  by (simp add: calm_def undisturbed_def example_env_def)

theorem sweep_applies_verdicts_witness:
  "\<exists>s' en. revalidate_visas example_env (sv_policy reinstalled) PolicyUpdate reinstalled = (s', Inr ()) \<and>
    live_entry (sv_ck reinstalled) (sv_visas reinstalled) 1000 = Some en \<and>
    live_entry (sv_ck s') (sv_visas s') 1000 = Some (denied_at 7 en)"
proof -
  let ?p = "sv_policy reinstalled" and ?l = "list_visa_metadata (sv_ck reinstalled) (sv_visas reinstalled)"
  have "case snd (revalidate_visas example_env ?p PolicyUpdate reinstalled) of Inr _ \<Rightarrow> True | _ \<Rightarrow> False" by code_simp
  then obtain s' where run: "revalidate_visas example_env ?p PolicyUpdate reinstalled = (s', Inr ())"
    by (cases "revalidate_visas example_env ?p PolicyUpdate reinstalled") (auto split: sum.split_asm)
  have wf: "hm_wf (vs_visas (sv_visas reinstalled))" by code_simp
  have k: "0 < length ?l" "fst (?l ! 0) = 1000" by code_simp+
  then have at: "?l ! 0 = (1000, snd (?l ! 0))" by (metis prod.collapse)
  have "case recheck_visa_allowed example_env (snd (?l ! 0)) ?p reinstalled of
      (t', r) \<Rightarrow> vinst (sv_policy t') = 7 \<and> (case r of Inr v \<Rightarrow> v = Revoke | _ \<Rightarrow> False)" by code_simp
  then have verdict: "swept example_env ?p PolicyUpdate (snd (?l ! 0)) reinstalled en = denied_at 7 en" for en
    by (auto simp: swept_def reinstalled_def split: prod.splits sum.split_asm)
  from sweep_applies_verdicts [OF example_accepts example_calm wf run, THEN conjunct1, rule_format, OF conjI, OF k(1) at]
  show ?thesis using run verdict by (auto simp: yield_def)
qed

end
