(* ===== verification/Topology_Manager.thy ===== *)
theory Topology_Manager
  imports Service_Frames Visa_Guarantees
begin

text \<open>
  The topology manager, \<^verbatim>\<open>vs/src/topology_mgr.rs\<close>: the links of the router and the persisted edges, kept in step with each
  other and with the policy. It adds a node over a link and undoes what it did when a step fails, rebuilds the router from
  the persisted edges, revalidates the links when the policy changes, and removes a node.
\<close>

subsection \<open>Links in policy\<close>

datatype edge_decision = Install link_description | Gc

definition snapshot_describe_link :: "time \<Rightarrow> policy \<Rightarrow> ip_addr \<Rightarrow> ip_addr \<Rightarrow> (service_error, link_description) result" where
  "snapshot_describe_link now p a b = map_err (\<lambda>_. SeTopology (Topology_Graph.LinkNotFound None)) (describe_link now p a b)"

definition describe_policy_link_either :: "time \<Rightarrow> policy \<Rightarrow> ip_addr \<Rightarrow> ip_addr \<Rightarrow> (service_error, link_description) result" where
  "describe_policy_link_either now p a b =
     (case snapshot_describe_link now p a b of
        Inl (Err (SeTopology (Topology_Graph.LinkNotFound _))) \<Rightarrow> snapshot_describe_link now p b a
      | other \<Rightarrow> other)"

definition decide_edge :: "time \<Rightarrow> policy \<Rightarrow> ip_addr list \<Rightarrow> ip_addr \<Rightarrow> ip_addr \<Rightarrow> (service_error, edge_decision) result" where
  "decide_edge now p known a b =
     (if a \<notin> set known \<or> b \<notin> set known then Inr Gc
      else case describe_policy_link_either now p a b of
        Inr d \<Rightarrow> Inr (Install d)
      | Inl (Err (SeTopology (Topology_Graph.LinkNotFound _))) \<Rightarrow> Inr Gc
      | Inl err \<Rightarrow> Inl err)"

definition canonical_pair :: "ip_addr \<Rightarrow> ip_addr \<Rightarrow> ip_addr \<times> ip_addr" where
  "canonical_pair a b = (if a \<le> b then (a, b) else (b, a))"

subsection \<open>The router\<close>

definition router_op ::
  "(router_inner \<Rightarrow> router_inner \<times> (topology_error, 'a) result) \<Rightarrow> ('db service, topology_error, 'a) action" where
  "router_op f s = (case f (sv_router s) of (inner, r) \<Rightarrow> (s\<lparr>sv_router := inner\<rparr>, r))"

definition router_call ::
  "(router_inner \<Rightarrow> router_inner \<times> (topology_error, 'a) result) \<Rightarrow> ('db, 'a) service_action" where
  "router_call f s = (case router_op f s of (s', r) \<Rightarrow> (s', map_err SeTopology r))"

definition install_router_link :: "ip_addr \<Rightarrow> ip_addr \<Rightarrow> link_description \<Rightarrow> ('db service, topology_error, unit) action" where
  "install_router_link a b d = router_op (router_add_link a b (LinkId (ld_link_id d)) (ld_attrs d) (ld_cost d))"

definition persist_edge :: "'db service_env \<Rightarrow> ip_addr \<Rightarrow> ip_addr \<Rightarrow> ('db, unit) service_action" where
  "persist_edge e a b = on_store e (\<lambda>en. add_edge en a b)"

definition add_node_if_not_exists :: "ip_addr \<Rightarrow> ('db, bool) service_action" where
  "add_node_if_not_exists a =
     attempt (router_op (router_add_node a)) (\<lambda>r.
       case r of
         Inr _ \<Rightarrow> yield True
       | Inl (NodeExists _) \<Rightarrow> yield False
       | Inl _ \<Rightarrow> unwrap_or_panic None)"

definition remove_linked_node :: "'db service_env \<Rightarrow> ip_addr \<Rightarrow> ('db, unit) service_action" where
  "remove_linked_node e a =
     andthen (gets (\<lambda>s. get_peers (sv_router s) a)) (\<lambda>peers.
     andthen (for_each peers (\<lambda>peer. attempt (on_store e (\<lambda>en. remove_edge en a peer)) (\<lambda>_. yield ()))) (\<lambda>_.
     andthen (pause e 11) (\<lambda>_.
     router_call (router_remove_node a))))"

subsection \<open>A node joins over a link\<close>

datatype add_linked_node_error = NewNodeFailed service_error | ExistingNodeFailed service_error

definition linked_node_error :: "bool \<Rightarrow> service_error \<Rightarrow> add_linked_node_error" where
  "linked_node_error preexisting err = (if preexisting then ExistingNodeFailed err else NewNodeFailed err)"

definition rollback_created_node :: "'db service_env \<Rightarrow> ip_addr \<Rightarrow> ('db service, add_linked_node_error, unit) action" where
  "rollback_created_node e a =
     attempt (router_op (router_remove_node a)) (\<lambda>_.
     attempt (remove_node e a) (\<lambda>_.
     attempt (remove_actor_by_zpr_addr e a) (\<lambda>_. pause e 12)))"

definition create_node ::
  "'db service_env \<Rightarrow> policy \<Rightarrow> actor \<Rightarrow> ip_addr \<Rightarrow> ('db service, add_linked_node_error, unit) action" where
  "create_node e p actor new_node =
     attempt (router_op (router_add_node new_node)) (\<lambda>r.
       case r of
         Inl err \<Rightarrow> throw (NewNodeFailed (SeTopology err))
       | Inr _ \<Rightarrow>
           attempt (add_node e actor False (policy_service_names p)) (\<lambda>r.
           andthen (pause e 13) (\<lambda>_.
             case r of
               Inl err \<Rightarrow> attempt (router_op (router_remove_node new_node)) (\<lambda>_. throw (NewNodeFailed err))
             | Inr _ \<Rightarrow> yield ())))"

definition persist_link ::
  "'db service_env \<Rightarrow> link_description \<Rightarrow> bool \<Rightarrow> bool \<Rightarrow> ip_addr \<Rightarrow> ip_addr \<Rightarrow> ('db service, add_linked_node_error, unit) action" where
  "persist_link e d preexisting added_new_link connect_via new_node =
     attempt (persist_edge e connect_via new_node) (\<lambda>r.
     andthen (pause e 14) (\<lambda>_.
       case r of
         Inr _ \<Rightarrow> yield ()
       | Inl err \<Rightarrow>
           andthen (if \<not> preexisting then rollback_created_node e new_node
                    else if added_new_link
                    then attempt (router_op (router_remove_link (LinkId (ld_link_id d)))) (\<lambda>_. yield ())
                    else yield ()) (\<lambda>_.
           throw (linked_node_error preexisting err))))"

definition link_node ::
  "'db service_env \<Rightarrow> link_description \<Rightarrow> bool \<Rightarrow> ip_addr \<Rightarrow> ip_addr \<Rightarrow> ('db service, add_linked_node_error, unit) action" where
  "link_node e d preexisting connect_via new_node =
     attempt (install_router_link connect_via new_node d) (\<lambda>r.
       case r of
         Inr _ \<Rightarrow> persist_link e d preexisting True connect_via new_node
       | Inl (LinkExists _) \<Rightarrow> persist_link e d preexisting False connect_via new_node
       | Inl err \<Rightarrow>
           andthen (if \<not> preexisting then rollback_created_node e new_node else yield ()) (\<lambda>_.
           throw (linked_node_error preexisting (SeTopology err))))"

definition add_linked_node ::
  "'db service_env \<Rightarrow> policy \<Rightarrow> actor \<Rightarrow> ip_addr \<Rightarrow> ip_addr \<Rightarrow> ('db service, add_linked_node_error, unit) action" where
  "add_linked_node e p actor connect_via new_node =
     andthen (gets (\<lambda>s. (get_peers (sv_router s) new_node, has_node (sv_router s) new_node,
       snapshot_describe_link (ck_wall (sv_ck s)) p connect_via new_node))) (\<lambda>(peers, preexisting, described).
     attempt (lift_result described) (\<lambda>r.
       case r of
         Inl err \<Rightarrow> throw (linked_node_error preexisting err)
       | Inr d \<Rightarrow>
           if preexisting \<and> connect_via \<in> set peers then
             attempt (persist_edge e connect_via new_node) (\<lambda>r.
               case r of Inl err \<Rightarrow> throw (ExistingNodeFailed err) | Inr _ \<Rightarrow> yield ())
           else
             andthen (if preexisting then yield () else create_node e p actor new_node) (\<lambda>_.
             link_node e d preexisting connect_via new_node)))"

subsection \<open>Rebuilding the router\<close>

definition restore_edge :: "'db service_env \<Rightarrow> policy \<Rightarrow> ip_addr list \<Rightarrow> ip_addr \<times> ip_addr \<Rightarrow> ('db, unit) service_action" where
  "restore_edge e p known = (\<lambda>(a, b).
     andthen (gets (\<lambda>s. decide_edge (ck_wall (sv_ck s)) p known a b)) (\<lambda>r.
     andthen (lift_result r) (\<lambda>decision.
     case decision of
       Install d \<Rightarrow>
         attempt (install_router_link a b d) (\<lambda>r.
           case r of
             Inr _ \<Rightarrow> yield ()
           | Inl (LinkExists _) \<Rightarrow> yield ()
           | Inl err \<Rightarrow> throw (SeTopology err))
     | Gc \<Rightarrow> attempt (on_store e (\<lambda>en. remove_edge en a b)) (\<lambda>_. yield ()))))"

definition restore_topology :: "'db service_env \<Rightarrow> policy \<Rightarrow> ip_addr list \<Rightarrow> ('db, unit) service_action" where
  "restore_topology e p node_addrs =
     andthen (for_each node_addrs (\<lambda>a. router_call (router_add_node a))) (\<lambda>_.
     andthen (on_store e list_edges) (\<lambda>edges.
     for_each edges (restore_edge e p node_addrs)))"

subsection \<open>Revalidation\<close>

datatype link_action = Keep | Fresh | Replace link_id

record surviving =
  su_a :: ip_addr
  su_b :: ip_addr
  su_persisted :: bool
  su_desc :: link_description
  su_action :: link_action

record removal =
  rm_a :: ip_addr
  rm_b :: ip_addr
  rm_persisted :: bool
  rm_old_id :: "link_id option"

record revalidation_report =
  rr_links_removed :: nat
  rr_links_updated :: nat
  rr_links_repaired :: nat
  rr_orphaned_nodes :: "ip_addr list"

definition action_for :: "router_link option \<Rightarrow> link_description \<Rightarrow> link_action" where
  "action_for router_link d =
     (case router_link of
        None \<Rightarrow> Fresh
      | Some rl \<Rightarrow>
          if link_name (rl_id rl) \<noteq> ld_link_id d \<or> rl_cost rl \<noteq> ld_cost d \<or> \<not> attributes_equivalent (rl_attributes rl) (ld_attrs d)
          then Replace (rl_id rl) else Keep)"

fun decide_edges ::
  "time \<Rightarrow> policy \<Rightarrow> ip_addr list \<Rightarrow> router_inner \<Rightarrow> (ip_addr \<times> ip_addr) list \<Rightarrow> (ip_addr \<times> ip_addr) list
     \<Rightarrow> (service_error, surviving list \<times> removal list) result" where
  "decide_edges now p known inner persisted [] = Inr ([], [])"
| "decide_edges now p known inner persisted ((a, b) # edges) =
     bind (decide_edge now p known a b) (\<lambda>decision.
     bind (decide_edges now p known inner persisted edges) (\<lambda>(sus, rms).
     Inr (case decision of
       Gc \<Rightarrow> (sus, \<lparr>rm_a = a, rm_b = b, rm_persisted = (a, b) \<in> set persisted,
                   rm_old_id = map_option rl_id (link_between inner a b)\<rparr> # rms)
     | Install d \<Rightarrow> (\<lparr>su_a = a, su_b = b, su_persisted = (a, b) \<in> set persisted, su_desc = d,
                   su_action = action_for (link_between inner a b) d\<rparr> # sus, rms))))"

fun claim_ids :: "string list \<Rightarrow> surviving list \<Rightarrow> (service_error, unit) result" where
  "claim_ids claimed [] = Inr ()"
| "claim_ids claimed (su # sus) =
     (if ld_link_id (su_desc su) \<in> set claimed then Inl (Err (SeTopology (LinkExists (LinkId (ld_link_id (su_desc su))))))
      else claim_ids (ld_link_id (su_desc su) # claimed) sus)"

definition link_spec_of :: "surviving \<Rightarrow> link_spec" where
  "link_spec_of su = \<lparr>ls_a = su_a su, ls_b = su_b su, ls_id = LinkId (ld_link_id (su_desc su)),
     ls_attributes = ld_attrs (su_desc su), ls_cost = ld_cost (su_desc su)\<rparr>"

fun replaced_id :: "link_action \<Rightarrow> link_id option" where
  "replaced_id (Replace old) = Some old"
| "replaced_id _ = None"

definition removal_ids :: "surviving list \<Rightarrow> removal list \<Rightarrow> link_id list" where
  "removal_ids sus rms = List.map_filter rm_old_id rms @ List.map_filter (\<lambda>su. replaced_id (su_action su)) sus"

definition additions :: "surviving list \<Rightarrow> link_spec list" where
  "additions sus = map link_spec_of (filter (\<lambda>su. su_action su \<noteq> Keep) sus)"

definition report_of :: "surviving list \<Rightarrow> removal list \<Rightarrow> ip_addr list \<Rightarrow> revalidation_report" where
  "report_of sus rms orphaned = \<lparr>
     rr_links_removed = length (filter (\<lambda>rm. rm_old_id rm \<noteq> None \<or> rm_persisted rm) rms),
     rr_links_updated = length (filter (\<lambda>su. replaced_id (su_action su) \<noteq> None) sus),
     rr_links_repaired = length (filter (\<lambda>su. \<not> su_persisted su) sus) + length (filter (\<lambda>su. su_action su = Fresh) sus),
     rr_orphaned_nodes = orphaned\<rparr>"

text \<open>The edges to look at are a hash set: \<open>visit\<close> puts them in some order.\<close>

definition work_edges :: "router_inner \<Rightarrow> (ip_addr \<times> ip_addr) list \<Rightarrow> (ip_addr \<times> ip_addr) list" where
  "work_edges inner persisted =
     remdups (persisted @ map (\<lambda>link. canonical_pair (rl_a link) (rl_b link)) (link_snapshot inner))"

definition save_edges :: "'db service_env \<Rightarrow> surviving list \<Rightarrow> removal list \<Rightarrow> ('db, unit) service_action" where
  "save_edges e sus rms =
     andthen (for_each sus (\<lambda>su. if su_persisted su then yield () else persist_edge e (su_a su) (su_b su))) (\<lambda>_.
     for_each rms (\<lambda>rm. if rm_persisted rm
       then attempt (on_store e (\<lambda>en. remove_edge en (rm_a rm) (rm_b rm))) (\<lambda>_. yield ()) else yield ()))"

definition apply_review ::
  "'db service_env \<Rightarrow> ip_addr list \<Rightarrow> surviving list \<Rightarrow> removal list \<Rightarrow> ('db, revalidation_report) service_action" where
  "apply_review e node_addrs sus rms =
     andthen (lift_result (claim_ids [] sus)) (\<lambda>_.
     andthen (save_edges e sus rms) (\<lambda>_.
     andthen (pause e 16) (\<lambda>_.
     andthen (router_call (apply_link_batch (removal_ids sus rms) (additions sus))) (\<lambda>_.
     gets (\<lambda>s. report_of sus rms (filter (\<lambda>a. get_peers (sv_router s) a = []) node_addrs))))))"

definition revalidate_against_policy ::
  "'db service_env \<Rightarrow> ((ip_addr \<times> ip_addr) list \<Rightarrow> (ip_addr \<times> ip_addr) list) \<Rightarrow> policy \<Rightarrow> ip_addr list
     \<Rightarrow> ('db, revalidation_report) service_action" where
  "revalidate_against_policy e visit p node_addrs =
     andthen (for_each node_addrs (\<lambda>a. andthen (add_node_if_not_exists a) (\<lambda>_. yield ()))) (\<lambda>_.
     andthen (on_store e list_edges) (\<lambda>edges.
     andthen (pause e 15) (\<lambda>_.
     let persisted = remdups (map (\<lambda>(a, b). canonical_pair a b) edges)
     in andthen (gets (\<lambda>s. decide_edges (ck_wall (sv_ck s)) p node_addrs (sv_router s) persisted
          (visit (work_edges (sv_router s) persisted)))) (\<lambda>r.
        andthen (lift_result r) (\<lambda>(sus, rms). apply_review e node_addrs sus rms)))))"

subsection \<open>What the edges of the router become\<close>

abbreviation links :: "'db service \<Rightarrow> (link_id, link) hashmap" where
  "links s \<equiv> g_edges (ri_topology (sv_router s))"

definition ends_of :: "link \<Rightarrow> ip_addr \<times> ip_addr" where
  "ends_of lk = canonical_pair (node_ip (lk_a lk)) (node_ip (lk_b lk))"

text \<open>At most one link joins two nodes.\<close>

definition simple_links :: "router_inner \<Rightarrow> bool" where
  "simple_links inner \<longleftrightarrow> (\<forall>l l' lk lk'. hm_get (g_edges (ri_topology inner)) l = Some lk \<longrightarrow>
     hm_get (g_edges (ri_topology inner)) l' = Some lk' \<longrightarrow> ends_of lk = ends_of lk' \<longrightarrow> l = l')"

lemma canonical_pair_commute: "canonical_pair a b = canonical_pair b a"
  by (auto simp: canonical_pair_def)

lemma canonical_pair_idem [simp]: "canonical_pair a b = (x, y) \<Longrightarrow> canonical_pair x y = (x, y)"
  by (auto simp: canonical_pair_def split: if_splits)

lemma canonical_pair_eq_iff: "canonical_pair a b = canonical_pair c d \<longleftrightarrow> {a, b} = {c, d}"
  by (auto simp: canonical_pair_def doubleton_eq_iff split: if_splits)

lemma link_between_iff:
  assumes "router_inv inner" "simple_links inner" "canonical_pair a b = (a, b)"
  shows "link_between inner a b = Some rl \<longleftrightarrow>
    (\<exists>l lk. hm_get (g_edges (ri_topology inner)) l = Some lk \<and> ends_of lk = (a, b) \<and> rl = router_link_of l lk)"
proof -
  let ?g = "ri_topology inner"
  have wf: "graph_wf ?g" using assms(1) by (simp add: router_invD(1) graph_invD(1))
  have hop: "hop ?g (NodeId a) l = Some (NodeId b) \<longleftrightarrow> (\<exists>lk. hm_get (g_edges ?g) l = Some lk \<and> ends_of lk = (a, b))" for l
  proof (cases "hm_get (g_edges ?g) l")
    case (Some lk)
    obtain x y where lk: "lk_a lk = NodeId x" "lk_b lk = NodeId y" by (metis node_id.exhaust)
    have "ends_of lk = (a, b) \<longleftrightarrow> {x, y} = {a, b}"
      using canonical_pair_eq_iff [of x y a b] assms(3) by (simp add: ends_of_def lk)
    moreover have "x \<noteq> y" using graph_wfD(5) [OF wf Some] lk by auto
    ultimately show ?thesis by (auto simp: hop_def Some lk doubleton_eq_iff)
  qed (simp add: hop_def)
  show ?thesis
  proof (cases "link_id_between ?g (NodeId a) (NodeId b)")
    case None
    with link_id_between_spec(2) [OF wf None] hop show ?thesis by (auto simp: link_between_def)
  next
    case (Some l)
    from link_id_between_spec(1) [OF wf Some] hop obtain lk where
      lk: "hm_get (g_edges ?g) l = Some lk" "ends_of lk = (a, b)" by blast
    have unique: "router_link_of l' lk' = router_link_of l lk" if "hm_get (g_edges ?g) l' = Some lk'" "ends_of lk' = (a, b)" for l' lk'
    proof -
      have "l' = l" using assms(2) that lk unfolding simple_links_def by metis
      with that(1) lk(1) show ?thesis by simp
    qed
    have "link_between inner a b = Some (router_link_of l lk)" using Some lk(1) by (simp add: link_between_def)
    with unique lk show ?thesis by (metis option.inject)
  qed
qed

definition decided :: "time \<Rightarrow> policy \<Rightarrow> ip_addr list \<Rightarrow> router_inner \<Rightarrow> (ip_addr \<times> ip_addr) list \<Rightarrow> surviving list \<Rightarrow> removal list \<Rightarrow> bool" where
  "decided now p known inner edges sus rms \<longleftrightarrow>
     (\<forall>su \<in> set sus. (su_a su, su_b su) \<in> set edges \<and> decide_edge now p known (su_a su) (su_b su) = Inr (Install (su_desc su)) \<and>
        su_action su = action_for (link_between inner (su_a su) (su_b su)) (su_desc su)) \<and>
     (\<forall>rm \<in> set rms. (rm_a rm, rm_b rm) \<in> set edges \<and> decide_edge now p known (rm_a rm) (rm_b rm) = Inr Gc \<and>
        rm_old_id rm = map_option rl_id (link_between inner (rm_a rm) (rm_b rm))) \<and>
     (\<forall>(a, b) \<in> set edges. (\<exists>su \<in> set sus. su_a su = a \<and> su_b su = b) \<or> (\<exists>rm \<in> set rms. rm_a rm = a \<and> rm_b rm = b))"

lemma decide_edges_decided:
  "decide_edges now p known inner persisted edges = Inr (sus, rms) \<Longrightarrow> decided now p known inner edges sus rms"
proof (induction edges arbitrary: sus rms)
  case (Cons edge edges)
  obtain a b where edge: "edge = (a, b)" by (cases edge)
  from Cons.prems edge obtain decision sus' rms' where
    decision: "decide_edge now p known a b = Inr decision"
    and rest: "decide_edges now p known inner persisted edges = Inr (sus', rms')"
    and out: "(sus, rms) = (case decision of
       Gc \<Rightarrow> (sus', \<lparr>rm_a = a, rm_b = b, rm_persisted = (a, b) \<in> set persisted,
                   rm_old_id = map_option rl_id (link_between inner a b)\<rparr> # rms')
     | Install d \<Rightarrow> (\<lparr>su_a = a, su_b = b, su_persisted = (a, b) \<in> set persisted, su_desc = d,
                   su_action = action_for (link_between inner a b) d\<rparr> # sus', rms'))"
    by (auto simp: bind_Inr_iff)
  show ?case
    using Cons.IH [OF rest] decision out edge unfolding decided_def by (cases decision) auto
qed (simp add: decided_def)

lemma decide_edge_Install:
  "decide_edge now p known a b = Inr (Install d) \<longleftrightarrow>
     a \<in> set known \<and> b \<in> set known \<and> describe_policy_link_either now p a b = Inr d"
  by (auto simp: decide_edge_def split: sum.split fault.split service_error.split topology_error.split)

lemma batch_links:
  assumes "router_inv inner" "apply_link_batch ids specs inner = (inner', Inr ())"
  shows "router_inv inner'" and "distinct (map ls_id specs)"
    and "hm_get (g_edges (ri_topology inner')) l =
      (case find (\<lambda>s. ls_id s = l) specs of
         Some s \<Rightarrow> Some (spec_link s)
       | None \<Rightarrow> if l \<in> set ids then None else hm_get (g_edges (ri_topology inner)) l)"
    and "s \<in> set specs \<Longrightarrow> ls_id s \<in> set ids \<or> hm_get (g_edges (ri_topology inner)) (ls_id s) = None"
proof -
  from remove_links_spec [OF router_invD(1) [OF assms(1)], of ids] obtain g where
    g: "remove_links ids (ri_topology inner) = Inr g" "graph_inv g"
    "\<forall>l. hm_get (g_edges g) l = (if l \<in> set ids then None else hm_get (g_edges (ri_topology inner)) l)" by blast
  from install_links_spec [OF g(2), of specs "[]"] assms(2) g(1) obtain g' where
    g': "inner' = bump (flush (inner\<lparr>ri_topology := g'\<rparr>))" "graph_inv g'" "distinct (map ls_id specs)"
    "\<forall>l. hm_get (g_edges g') l =
       (case find (\<lambda>s. ls_id s = l) specs of Some s \<Rightarrow> Some (spec_link s) | None \<Rightarrow> hm_get (g_edges g) l)"
    "\<forall>s \<in> set specs. hm_get (g_edges g) (ls_id s) = None"
    by (auto simp: apply_link_batch_def)
  show "router_inv inner'" "distinct (map ls_id specs)" using g' router_inv_flush by simp_all
  have "ri_topology inner' = g'" using g'(1) by (simp add: bump_def flush_def)
  with g' g(3) show "hm_get (g_edges (ri_topology inner')) l =
      (case find (\<lambda>s. ls_id s = l) specs of
         Some s \<Rightarrow> Some (spec_link s)
       | None \<Rightarrow> if l \<in> set ids then None else hm_get (g_edges (ri_topology inner)) l)"
    by (simp split: option.split)
  show "ls_id s \<in> set ids \<or> hm_get (g_edges (ri_topology inner)) (ls_id s) = None" if "s \<in> set specs"
    using that g'(5) g(3) by (auto split: if_split_asm)
qed

text \<open>A link is as the policy describes it, and both its ends are known nodes.\<close>

definition policy_link :: "time \<Rightarrow> policy \<Rightarrow> ip_addr list \<Rightarrow> link_id \<Rightarrow> link \<Rightarrow> bool" where
  "policy_link now p known l lk \<longleftrightarrow>
     (case ends_of lk of (a, b) \<Rightarrow> a \<in> set known \<and> b \<in> set known \<and>
        (\<exists>d. describe_policy_link_either now p a b = Inr d \<and> l = LinkId (ld_link_id d) \<and> lk_cost lk = ld_cost d \<and>
           attributes_equivalent (lk_attributes lk) (ld_attrs d)))"

lemma action_for_Keep:
  "action_for (Some (router_link_of l lk)) d = Keep \<longleftrightarrow>
     l = LinkId (ld_link_id d) \<and> lk_cost lk = ld_cost d \<and> attributes_equivalent (lk_attributes lk) (ld_attrs d)"
  by (cases l) (auto simp: action_for_def router_link_of_def)

lemma action_for_Replace: "action_for rl d = Replace l \<Longrightarrow> \<exists>r. rl = Some r \<and> rl_id r = l"
  by (auto simp: action_for_def split: option.split_asm if_split_asm)

lemma removal_ids_iff:
  "l \<in> set (removal_ids sus rms) \<longleftrightarrow>
     (\<exists>rm \<in> set rms. rm_old_id rm = Some l) \<or> (\<exists>su \<in> set sus. su_action su = Replace l)"
proof -
  have "replaced_id act = Some l \<longleftrightarrow> act = Replace l" for act by (cases act) auto
  then show ?thesis by (auto simp: removal_ids_def set_map_filter)
qed

lemma ends_of_spec: "canonical_pair (su_a su) (su_b su) = (su_a su, su_b su) \<Longrightarrow> ends_of (spec_link (link_spec_of su)) = (su_a su, su_b su)"
  by (simp add: ends_of_def spec_link_def link_spec_of_def)

lemma action_for_Some: "action_for (Some (router_link_of l lk)) d \<in> {Keep, Replace l}"
  by (auto simp: action_for_def router_link_of_def)

text \<open>The outcome of a review of the edges.\<close>

definition reviewed :: "time \<Rightarrow> policy \<Rightarrow> ip_addr list \<Rightarrow> router_inner \<Rightarrow> (ip_addr \<times> ip_addr) list \<Rightarrow> surviving list \<Rightarrow> removal list \<Rightarrow> bool" where
  "reviewed now p known inner edges sus rms \<longleftrightarrow> router_inv inner \<and> simple_links inner \<and> decided now p known inner edges sus rms \<and>
     (\<forall>(a, b) \<in> set edges. canonical_pair a b = (a, b))"

lemma reviewedD:
  assumes "reviewed now p known inner edges sus rms"
  shows "router_inv inner" "simple_links inner" "decided now p known inner edges sus rms" "(a, b) \<in> set edges \<Longrightarrow> canonical_pair a b = (a, b)"
  using assms by (auto simp: reviewed_def)

lemma found_link:
  assumes "reviewed now p known inner edges sus rms" "(a, b) \<in> set edges" "hm_get (g_edges (ri_topology inner)) l = Some lk" "ends_of lk = (a, b)"
  shows "link_between inner a b = Some (router_link_of l lk)"
  using assms(2-) link_between_iff [OF reviewedD(1,2,4) [OF assms(1)]] by blast

lemma found_ends:
  assumes "reviewed now p known inner edges sus rms" "(a, b) \<in> set edges" "link_between inner a b = Some r"
    and "hm_get (g_edges (ri_topology inner)) (rl_id r) = Some lk"
  shows "ends_of lk = (a, b) \<and> r = router_link_of (rl_id r) lk"
  using assms(2-) link_between_iff [OF reviewedD(1,2,4) [OF assms(1)]] by (auto simp: router_link_of_def)

lemma surviving_described:
  assumes "reviewed now p known inner edges sus rms" "su \<in> set sus"
  shows "(su_a su, su_b su) \<in> set edges \<and> su_a su \<in> set known \<and> su_b su \<in> set known \<and>
    describe_policy_link_either now p (su_a su) (su_b su) = Inr (su_desc su) \<and>
    su_action su = action_for (link_between inner (su_a su) (su_b su)) (su_desc su)"
  using reviewedD(3) [OF assms(1)] assms(2) by (simp add: decided_def decide_edge_Install)

lemma removed_not_described:
  assumes "reviewed now p known inner edges sus rms" "rm \<in> set rms"
  shows "(rm_a rm, rm_b rm) \<in> set edges \<and> rm_old_id rm = map_option rl_id (link_between inner (rm_a rm) (rm_b rm)) \<and>
    \<not> (rm_a rm \<in> set known \<and> rm_b rm \<in> set known \<and> (\<exists>d. describe_policy_link_either now p (rm_a rm) (rm_b rm) = Inr d))"
  using reviewedD(3) [OF assms(1)] assms(2) decide_edge_Install [of now p known "rm_a rm" "rm_b rm"] by (auto simp: decided_def)

lemma edge_covered:
  assumes "reviewed now p known inner edges sus rms" "(a, b) \<in> set edges"
  obtains su where "su \<in> set sus" "su_a su = a" "su_b su = b" | rm where "rm \<in> set rms" "rm_a rm = a" "rm_b rm = b"
  using reviewedD(3) [OF assms(1)] assms(2) by (fastforce simp: decided_def)

lemma removal_iff:
  assumes ok: "reviewed now p known inner edges sus rms" and lk: "hm_get (g_edges (ri_topology inner)) l = Some lk" and ends: "ends_of lk \<in> set edges"
  shows "l \<in> set (removal_ids sus rms) \<longleftrightarrow> \<not> policy_link now p known l lk"
proof -
  obtain a b where ab: "ends_of lk = (a, b)" by fastforce
  with ends have edge: "(a, b) \<in> set edges" by simp
  note between = found_link [OF ok edge lk ab]
  show ?thesis
  proof
    assume "l \<in> set (removal_ids sus rms)"
    then consider rm where "rm \<in> set rms" "rm_old_id rm = Some l" | su where "su \<in> set sus" "su_action su = Replace l"
      by (auto simp: removal_ids_iff)
    then show "\<not> policy_link now p known l lk"
    proof cases
      case 1
      then obtain r where "link_between inner (rm_a rm) (rm_b rm) = Some r" "rl_id r = l" using removed_not_described [OF ok] by auto
      with found_ends [OF ok, of "rm_a rm" "rm_b rm" r lk] removed_not_described [OF ok 1(1)] lk ab have "(rm_a rm, rm_b rm) = (a, b)" by auto
      with removed_not_described [OF ok 1(1)] ab show ?thesis by (auto simp: policy_link_def)
    next
      case 2
      then obtain r where r: "link_between inner (su_a su) (su_b su) = Some r" "rl_id r = l"
        using surviving_described [OF ok 2(1)] action_for_Replace by metis
      with found_ends [OF ok, of "su_a su" "su_b su" r lk] surviving_described [OF ok 2(1)] lk ab have "(su_a su, su_b su) = (a, b)" by auto
      with surviving_described [OF ok 2(1)] 2(2) between have "action_for (Some (router_link_of l lk)) (su_desc su) \<noteq> Keep"
        "describe_policy_link_either now p a b = Inr (su_desc su)" by auto
      with ab show ?thesis by (auto simp: policy_link_def action_for_Keep)
    qed
  next
    assume no: "\<not> policy_link now p known l lk"
    show "l \<in> set (removal_ids sus rms)"
    proof (rule edge_covered [OF ok edge])
      fix rm assume rm: "rm \<in> set rms" "rm_a rm = a" "rm_b rm = b"
      with removed_not_described [OF ok rm(1)] between have "rm_old_id rm = Some l" by (simp add: router_link_of_def)
      with rm(1) show ?thesis by (auto simp: removal_ids_iff)
    next
      fix su assume sus: "su \<in> set sus" "su_a su = a" "su_b su = b"
      with surviving_described [OF ok sus(1)] between have su: "su_action su = action_for (Some (router_link_of l lk)) (su_desc su)" "a \<in> set known"
        "b \<in> set known" "describe_policy_link_either now p a b = Inr (su_desc su)" by auto
      with no ab have "su_action su \<noteq> Keep" by (auto simp: policy_link_def action_for_Keep)
      with su(1) action_for_Some [of l lk "su_desc su"] have "su_action su = Replace l" by auto
      with sus(1) show ?thesis by (auto simp: removal_ids_iff)
    qed
  qed
qed

lemma added_policy_link:
  assumes ok: "reviewed now p known inner edges sus rms" and "s \<in> set (additions sus)"
  shows "policy_link now p known (ls_id s) (spec_link s)"
proof -
  from assms(2) obtain su where su: "su \<in> set sus" "s = link_spec_of su" by (auto simp: additions_def)
  with surviving_described [OF ok su(1)] reviewedD(4) [OF ok] ends_of_spec [of su] show ?thesis
    by (auto simp: policy_link_def) (simp_all add: link_spec_of_def spec_link_def attributes_equivalent_def)
qed

lemma revalidated_follow:
  assumes ok: "reviewed now p known inner edges sus rms" and cover: "\<forall>l lk. hm_get (g_edges (ri_topology inner)) l = Some lk \<longrightarrow> ends_of lk \<in> set edges"
    and batch: "apply_link_batch (removal_ids sus rms) (additions sus) inner = (inner', Inr ())"
    and l: "hm_get (g_edges (ri_topology inner')) l = Some lk"
  shows "policy_link now p known l lk"
proof (cases "find (\<lambda>s. ls_id s = l) (additions sus)")
  case None
  with l batch_links(3) [OF reviewedD(1) [OF ok] batch, of l] have "l \<notin> set (removal_ids sus rms)" "hm_get (g_edges (ri_topology inner)) l = Some lk"
    by (auto split: if_split_asm)
  with removal_iff [OF ok] cover show ?thesis by blast
next
  case (Some s)
  then have "s \<in> set (additions sus)" "ls_id s = l" by (auto simp: find_Some_iff)
  moreover have "lk = spec_link s" using l batch_links(3) [OF reviewedD(1) [OF ok] batch, of l] Some by simp
  ultimately show ?thesis using added_policy_link [OF ok] by blast
qed

lemma find_distinct: "distinct (map f xs) \<Longrightarrow> x \<in> set xs \<Longrightarrow> find (\<lambda>y. f y = f x) xs = Some x"
  by (induction xs) (auto simp: image_iff)

lemma revalidated_keep:
  assumes ok: "reviewed now p known inner edges sus rms" and cover: "\<forall>l lk. hm_get (g_edges (ri_topology inner)) l = Some lk \<longrightarrow> ends_of lk \<in> set edges"
    and batch: "apply_link_batch (removal_ids sus rms) (additions sus) inner = (inner', Inr ())"
    and edge: "(a, b) \<in> set edges" "a \<in> set known" "b \<in> set known" "describe_policy_link_either now p a b = Inr d"
  shows "\<exists>lk. hm_get (g_edges (ri_topology inner')) (LinkId (ld_link_id d)) = Some lk \<and> ends_of lk = (a, b)"
proof (rule edge_covered [OF ok edge(1)])
  fix rm assume "rm \<in> set rms" "rm_a rm = a" "rm_b rm = b"
  with removed_not_described [OF ok, of rm] edge show ?thesis by auto
next
  fix su assume su: "su \<in> set sus" "su_a su = a" "su_b su = b"
  note batch = batch_links [OF reviewedD(1) [OF ok] batch]
  have desc: "su_desc su = d" "su_action su = action_for (link_between inner a b) d"
    using surviving_described [OF ok su(1)] su edge(4) by auto
  show ?thesis
  proof (cases "su_action su = Keep")
    case False
    then have "link_spec_of su \<in> set (additions sus)" using su(1) by (auto simp: additions_def)
    from find_distinct [OF batch(2) this] desc have "find (\<lambda>s. ls_id s = LinkId (ld_link_id d)) (additions sus) = Some (link_spec_of su)"
      by (simp add: link_spec_of_def)
    with batch(3) [of "LinkId (ld_link_id d)"] ends_of_spec [of su] reviewedD(4) [OF ok edge(1)] su show ?thesis by auto
  next
    case True
    then obtain r where r: "link_between inner a b = Some r" using desc(2) by (auto simp: action_for_def split: option.split_asm)
    with link_between_iff [OF reviewedD(1,2) [OF ok] reviewedD(4) [OF ok edge(1)]] obtain l lk where
      lk: "hm_get (g_edges (ri_topology inner)) l = Some lk" "ends_of lk = (a, b)" "r = router_link_of l lk" by blast
    with True desc r have match: "l = LinkId (ld_link_id d)" "policy_link now p known l lk"
      using edge by (auto simp: action_for_Keep policy_link_def)
    with removal_iff [OF ok lk(1)] cover lk(1) have stays: "l \<notin> set (removal_ids sus rms)" by simp
    have "find (\<lambda>s. ls_id s = l) (additions sus) = None"
      using batch(4) stays lk(1) by (fastforce simp: find_None_iff)
    with batch(3) [of l] stays lk match show ?thesis by auto
  qed
qed

subsection \<open>The topology after a change of policy\<close>

definition on_topology :: "graph \<Rightarrow> clock \<Rightarrow> 'db service \<Rightarrow> bool" where
  "on_topology g ck s \<longleftrightarrow> router_inv (sv_router s) \<and> ri_topology (sv_router s) = g \<and> sv_ck s = ck"

lemma routes_committed:
  assumes "router_inv inner" "get_routes_read inner a b hint = RouteMiss g rs" "get_routes_commit a b hint g rs inner = (inner', rs')"
  shows "router_inv inner' \<and> ri_topology inner' = ri_topology inner"
proof -
  have "rs = compute_routes (ri_topology inner) a b hint" using assms(2) by (auto simp: get_routes_read_def split: option.split_asm)
  then have "correct_routes (ri_topology inner) (NodeId a) (NodeId b) rs"
    using compute_routes_correct graph_invD(1) router_invD(1) assms(1) by blast
  with get_routes_commit_ok(1,2) [OF assms(1) _ assms(3)] show ?thesis by (simp add: same_topology_def)
qed

interpretation topo: read_frame "on_topology g ck :: 'db service \<Rightarrow> bool" for g ck
proof (unfold_locales, goal_cases)
  case (2 s a b hint g' rs inner rs')
  with routes_committed [OF _ 2(2,3)] show ?case by (simp add: on_topology_def)
qed (simp_all add: on_topology_def)

definition topology_calm :: "'db service_env \<Rightarrow> bool" where
  "topology_calm e \<longleftrightarrow> (\<forall>g ck. undisturbed (on_topology g ck) e)"

text \<open>The nodes are added; the links, the clock and the database stay.\<close>

definition same_links_as :: "'db service \<Rightarrow> 'db service \<Rightarrow> bool" where
  "same_links_as s s' \<longleftrightarrow> router_inv (sv_router s') \<and> links s' = links s \<and> sv_ck s' = sv_ck s \<and> sv_world s' = sv_world s"

lemma length_hm_insert: "length (hm_insert k v m) \<le> Suc (length m)"
  by (induction m) auto

lemma add_node_if_not_exists_effect:
  assumes inv: "router_inv (sv_router s)" and few: "length (g_nodes (ri_topology (sv_router s))) < 2 ^ 32"
    and run: "add_node_if_not_exists a s = (s', r)"
  shows "same_links_as s s' \<and> length (g_nodes (ri_topology (sv_router s'))) \<le> Suc (length (g_nodes (ri_topology (sv_router s))))"
proof -
  obtain inner' r' where add: "router_add_node a (sv_router s) = (inner', r')" by fastforce
  have inv': "router_inv inner'" using router_add_node_ok [OF inv few, of a] add by (simp add: op_ok_def)
  have links': "g_edges (ri_topology inner') = g_edges (ri_topology (sv_router s))"
    and len: "length (g_nodes (ri_topology inner')) \<le> Suc (length (g_nodes (ri_topology (sv_router s))))"
    using add length_hm_insert [of "NodeId a" "\<lparr>nd_edges = []\<rparr>" "g_nodes (ri_topology (sv_router s))"]
    by (auto simp: router_add_node_def graph_add_node_def bump_def split: if_split_asm)
  have "fst (add_node_if_not_exists a s) = s\<lparr>sv_router := inner'\<rparr>"
    using add by (auto simp: add_node_if_not_exists_def attempt_def router_op_def yield_def unwrap_or_panic_def
        split: sum.split fault.split topology_error.split)
  with run have "s' = s\<lparr>sv_router := inner'\<rparr>" by simp
  with inv' links' len show ?thesis by (simp add: same_links_as_def)
qed

lemma add_nodes_effect:
  assumes "router_inv (sv_router s)" "length (g_nodes (ri_topology (sv_router s))) + length as \<le> 2 ^ 32"
    and "for_each as (\<lambda>a. andthen (add_node_if_not_exists a) (\<lambda>_. yield ())) s = (s', Inr ())"
  shows "same_links_as s s'"
  using assms
proof (induction as arbitrary: s)
  case (Cons a as)
  from Cons.prems(3) obtain s1 r where s1: "add_node_if_not_exists a s = (s1, Inr r)"
    "for_each as (\<lambda>a. andthen (add_node_if_not_exists a) (\<lambda>_. yield ())) s1 = (s', Inr ())"
    by (auto simp: basic_values elim!: andthenE)
  from add_node_if_not_exists_effect [OF Cons.prems(1) _ s1(1)] Cons.prems(2)
  have step: "same_links_as s s1" "length (g_nodes (ri_topology (sv_router s1))) \<le> Suc (length (g_nodes (ri_topology (sv_router s))))"
    by simp_all
  with Cons.prems(2) have "same_links_as s1 s'" by (intro Cons.IH [OF _ _ s1(2)]) (simp_all add: same_links_as_def)
  with step show ?case by (simp add: same_links_as_def)
qed (simp add: same_links_as_def yield_def)

lemma reviewed_cong:
  assumes "ri_topology inner' = ri_topology inner" "router_inv inner'"
  shows "reviewed now p known inner edges sus rms \<Longrightarrow> reviewed now p known inner' edges sus rms"
proof -
  have "link_between inner' = link_between inner" using assms(1) by (intro ext) (simp add: link_between_def split: option.split)
  moreover assume "reviewed now p known inner edges sus rms"
  ultimately show ?thesis using assms by (simp add: reviewed_def decided_def simple_links_def)
qed

lemma links_in_work:
  "hm_get (g_edges (ri_topology inner)) l = Some lk \<Longrightarrow> ends_of lk \<in> set (work_edges inner persisted)"
  by (force simp: work_edges_def link_snapshot_def router_link_of_def ends_of_def dest: map_of_SomeD)

lemma work_canonical:
  "(a, b) \<in> set (work_edges inner (remdups (map (\<lambda>(a, b). canonical_pair a b) edges))) \<Longrightarrow> canonical_pair a b = (a, b)"
  by (auto simp: work_edges_def canonical_pair_def split: if_split_asm)

lemma router_call_value:
  "router_call f s = (s', Inr u) \<longleftrightarrow> (\<exists>inner. f (sv_router s) = (inner, Inr u) \<and> s' = s\<lparr>sv_router := inner\<rparr>)"
  by (auto simp: router_call_def router_op_def split: prod.split)

text \<open>What the run of a revalidation amounts to.\<close>

lemma apply_review_effect:
  assumes "undisturbed (on_topology g ck) e" "on_topology g ck s" and run: "apply_review e node_addrs sus rms s = (s', Inr report)"
  obtains inner where "router_inv inner" "ri_topology inner = g"
    "apply_link_batch (removal_ids sus rms) (additions sus) inner = (sv_router s', Inr ())"
proof -
  from run obtain s1 s2 where s1: "save_edges e sus rms s = (s1, Inr ())" and s2: "pause e 16 s1 = (s2, Inr () :: (service_error, unit) result)"
    and "router_call (apply_link_batch (removal_ids sus rms) (additions sus)) s2 = (s', Inr ())"
    unfolding apply_review_def by (auto simp: basic_values elim!: andthenE)
  then have batch: "apply_link_batch (removal_ids sus rms) (additions sus) (sv_router s2) = (sv_router s', Inr ())"
    by (auto simp: router_call_value)
  have "keeps (on_topology g ck) (save_edges e sus rms)"
    unfolding save_edges_def persist_edge_def
    by (intro keeps_andthen keeps_for_each) (simp_all add: keeps_yield topo.on_store keeps_attempt)
  from keepsD [OF this s1 assms(2)] have "on_topology g ck s1" .
  from keepsD [OF topo.paused [OF assms(1)] s2 this] show ?thesis
    by (intro that [OF _ _ batch]) (simp_all add: on_topology_def)
qed

lemma revalidation_run:
  assumes "router_inv (sv_router s)" "simple_links (sv_router s)"
    and "length (g_nodes (ri_topology (sv_router s))) + length node_addrs \<le> 2 ^ 32" and calm: "topology_calm e"
    and visit: "\<forall>xs. set (visit xs) = set xs"
    and run: "revalidate_against_policy e visit p node_addrs s = (s', Inr report)"
  obtains edges inner sus rms where "snd (on_store e list_edges s) = Inr edges" "g_edges (ri_topology inner) = links s"
    "reviewed (ck_wall (sv_ck s)) p node_addrs inner (visit (work_edges inner (remdups (map (\<lambda>(a, b). canonical_pair a b) edges)))) sus rms"
    "apply_link_batch (removal_ids sus rms) (additions sus) inner = (sv_router s', Inr ())"
proof -
  let ?persisted = "\<lambda>edges. remdups (map (\<lambda>(a, b). canonical_pair a b) edges)"
  from run obtain s1 s2 s3 edges sus rms where
    s1: "for_each node_addrs (\<lambda>a. andthen (add_node_if_not_exists a) (\<lambda>_. yield ())) s = (s1, Inr ())"
    and s2: "on_store e list_edges s1 = (s2, Inr edges)"
    and s3: "pause e 15 s2 = (s3, Inr () :: (service_error, unit) result)"
    and decide: "decide_edges (ck_wall (sv_ck s3)) p node_addrs (sv_router s3) (?persisted edges) (visit (work_edges (sv_router s3) (?persisted edges))) = Inr (sus, rms)"
    and rest: "apply_review e node_addrs sus rms s3 = (s', Inr report)"
    unfolding revalidate_against_policy_def Let_def by (auto simp: basic_values elim!: andthenE)
  from add_nodes_effect [OF assms(1,3) s1] have same: "same_links_as s s1" .
  let ?T = "on_topology (ri_topology (sv_router s1)) (sv_ck s)"
  have calm: "undisturbed ?T e" using calm by (simp add: topology_calm_def)
  have "?T s1" using same by (simp add: on_topology_def same_links_as_def)
  then have "?T s2" by (rule keepsD [OF topo.on_store s2])
  then have T3: "?T s3" by (rule keepsD [OF topo.paused [OF calm] s3])
  obtain inner where inner: "router_inv inner" "ri_topology inner = ri_topology (sv_router s1)"
    and batch: "apply_link_batch (removal_ids sus rms) (additions sus) inner = (sv_router s', Inr ())"
    by (rule apply_review_effect [OF calm T3 rest])
  have work: "work_edges inner = work_edges (sv_router s3)"
    using T3 inner by (simp add: fun_eq_iff work_edges_def link_snapshot_def on_topology_def)
  have "simple_links (sv_router s3)" using assms(2) T3 same by (simp add: on_topology_def same_links_as_def simple_links_def)
  then have "reviewed (ck_wall (sv_ck s)) p node_addrs (sv_router s3) (visit (work_edges (sv_router s3) (?persisted edges))) sus rms"
    unfolding reviewed_def
  proof (intro conjI)
    show "router_inv (sv_router s3)" using T3 by (simp add: on_topology_def)
    have "ck_wall (sv_ck s3) = ck_wall (sv_ck s)" using T3 by (simp add: on_topology_def)
    then show "decided (ck_wall (sv_ck s)) p node_addrs (sv_router s3) (visit (work_edges (sv_router s3) (?persisted edges))) sus rms"
      using decide_edges_decided [OF decide] by simp
    have "set (visit (work_edges (sv_router s3) (?persisted edges))) = set (work_edges (sv_router s3) (?persisted edges))"
      using visit by blast
    then show "\<forall>(a, b) \<in> set (visit (work_edges (sv_router s3) (?persisted edges))). canonical_pair a b = (a, b)"
      using work_canonical by blast
  qed
  then have "reviewed (ck_wall (sv_ck s)) p node_addrs inner (visit (work_edges inner (?persisted edges))) sus rms"
    unfolding work using T3 inner by (intro reviewed_cong [of inner "sv_router s3"]) (simp_all add: on_topology_def)
  moreover have "snd (on_store e list_edges s) = Inr edges"
    using s2 same by (auto simp: on_store_def store_op_def same_links_as_def split: prod.split_asm prod.split)
  ultimately show ?thesis using batch inner(2) same by (intro that) (simp_all add: same_links_as_def)
qed

text \<open>C6. After a change of policy the topology is that of the policy: when the revalidation succeeds, every link of the router
  joins two known nodes and has the id, the cost and the attributes the policy gives it; and every two known nodes that were
  linked before, in the router or in the stored edges, and that the policy still links are linked under the id the policy
  gives. It takes a router that has at most one link between two nodes, and other tasks that leave the topology alone
  meanwhile.\<close>

theorem topology_follows_policy:
  assumes "router_inv (sv_router s)" and "simple_links (sv_router s)"
    and "length (g_nodes (ri_topology (sv_router s))) + length node_addrs \<le> 2 ^ 32" and "topology_calm e"
    and "\<forall>xs. set (visit xs) = set xs"
    and "revalidate_against_policy e visit p node_addrs s = (s', Inr report)"
  shows "(\<forall>l lk. hm_get (links s') l = Some lk \<longrightarrow> policy_link (ck_wall (sv_ck s)) p node_addrs l lk) \<and>
    (\<forall>a b d. ((\<exists>l lk. hm_get (links s) l = Some lk \<and> ends_of lk = (a, b)) \<or>
        (\<exists>edges c c'. snd (on_store e list_edges s) = Inr edges \<and> (c, c') \<in> set edges \<and> canonical_pair c c' = (a, b))) \<longrightarrow>
      a \<in> set node_addrs \<longrightarrow> b \<in> set node_addrs \<longrightarrow> describe_policy_link_either (ck_wall (sv_ck s)) p a b = Inr d \<longrightarrow>
      (\<exists>lk. hm_get (links s') (LinkId (ld_link_id d)) = Some lk \<and> ends_of lk = (a, b)))"
proof -
  obtain edges inner sus rms where run: "snd (on_store e list_edges s) = Inr edges" "g_edges (ri_topology inner) = links s"
    "reviewed (ck_wall (sv_ck s)) p node_addrs inner (visit (work_edges inner (remdups (map (\<lambda>(a, b). canonical_pair a b) edges)))) sus rms"
    "apply_link_batch (removal_ids sus rms) (additions sus) inner = (sv_router s', Inr ())"
    by (rule revalidation_run [OF assms])
  let ?work = "visit (work_edges inner (remdups (map (\<lambda>(a, b). canonical_pair a b) edges)))"
  have cover: "\<forall>l lk. hm_get (g_edges (ri_topology inner)) l = Some lk \<longrightarrow> ends_of lk \<in> set ?work"
    using links_in_work assms(5) by blast
  have stored: "canonical_pair c c' \<in> set ?work" if "(c, c') \<in> set edges" for c c'
    using that assms(5) by (force simp: work_edges_def)
  have keep: "\<exists>lk. hm_get (links s') (LinkId (ld_link_id d)) = Some lk \<and> ends_of lk = (a, b)"
    if "(\<exists>l lk. hm_get (links s) l = Some lk \<and> ends_of lk = (a, b)) \<or>
        (\<exists>edges c c'. snd (on_store e list_edges s) = Inr edges \<and> (c, c') \<in> set edges \<and> canonical_pair c c' = (a, b))"
      and described: "a \<in> set node_addrs" "b \<in> set node_addrs" "describe_policy_link_either (ck_wall (sv_ck s)) p a b = Inr d" for a b d
  proof -
    from that(1) have "(a, b) \<in> set ?work"
    proof
      assume "\<exists>l lk. hm_get (links s) l = Some lk \<and> ends_of lk = (a, b)"
      with cover run(2) show ?thesis by metis
    next
      assume "\<exists>edges c c'. snd (on_store e list_edges s) = Inr edges \<and> (c, c') \<in> set edges \<and> canonical_pair c c' = (a, b)"
      with run(1) stored show ?thesis by fastforce
    qed
    from revalidated_keep [OF run(3) cover run(4) this described] show ?thesis .
  qed
  show ?thesis using revalidated_follow [OF run(3) cover run(4)] keep by blast
qed

subsection \<open>A failed join leaves the topology as it was\<close>

definition topological :: "(graph \<Rightarrow> bool) \<Rightarrow> 'db service \<Rightarrow> bool" where
  "topological P s \<longleftrightarrow> router_inv (sv_router s) \<and> P (ri_topology (sv_router s))"

interpretation topol: read_frame "topological P :: 'db service \<Rightarrow> bool" for P
proof (unfold_locales, goal_cases)
  case (2 s a b hint g rs inner rs')
  with routes_committed [OF _ 2(2,3)] show ?case by (simp add: topological_def)
qed (simp_all add: topological_def)

lemma calm_topological: "topology_calm e \<Longrightarrow> undisturbed (topological P) e"
  by (fastforce simp: topology_calm_def undisturbed_def on_topology_def topological_def)

lemma remove_actor_topological: "keeps (topological P) (remove_actor_by_zpr_addr e a)"
  unfolding remove_actor_by_zpr_addr_def
  by (auto intro!: keeping keeps_modify topol.on_store topol.store_op simp: topological_def split: option.split)

lemma remove_node_topological: "keeps (topological P) (remove_node e a)"
  unfolding remove_node_def by (auto intro!: keeping keeps_modify topol.on_store simp: topological_def)

lemma add_node_topological: "keeps (topological P) (add_node e actor reconnect names)"
  unfolding add_node_def by (auto intro!: keeping keeps_modify topol.on_store simp: topological_def)

definition same_graph :: "graph \<Rightarrow> graph \<Rightarrow> bool" where
  "same_graph g g' \<longleftrightarrow> (\<forall>l. hm_get (g_edges g') l = hm_get (g_edges g) l) \<and> set (hm_keys (g_nodes g')) = set (hm_keys (g_nodes g))"

text \<open>The graph has one node more, and perhaps links at that node.\<close>

definition budded :: "node_id \<Rightarrow> graph \<Rightarrow> graph \<Rightarrow> bool" where
  "budded n g g' \<longleftrightarrow> set (hm_keys (g_nodes g')) = insert n (set (hm_keys (g_nodes g))) \<and>
     (\<forall>l. hm_get (g_edges g') l = hm_get (g_edges g) l \<or>
        hm_get (g_edges g) l = None \<and> (\<exists>lk. hm_get (g_edges g') l = Some lk \<and> n \<in> {lk_a lk, lk_b lk}))"

lemma no_links_without_node:
  assumes "graph_wf g" "n \<notin> set (hm_keys (g_nodes g))" "hm_get (g_edges g) l = Some lk"
  shows "n \<notin> {lk_a lk, lk_b lk}"
  using assms graph_wfD(4) [OF assms(1), of l n] edges_at_node [of l g n] by auto

lemma router_remove_node_topology:
  assumes "router_inv inner" "router_remove_node a inner = (inner', r)"
  shows "r = Inr () \<and> router_inv inner' \<and> set (hm_keys (g_nodes (ri_topology inner'))) = set (hm_keys (g_nodes (ri_topology inner))) - {NodeId a} \<and>
    (\<forall>l. hm_get (g_edges (ri_topology inner')) l =
       (if l \<in> edges_at (ri_topology inner) (NodeId a) then None else hm_get (g_edges (ri_topology inner)) l))"
proof -
  obtain g r' where g: "graph_remove_node (NodeId a) (ri_topology inner) = (Inr (g, r') :: (topology_error, graph \<times> node option) result)"
    "\<And>l. hm_get (g_edges g) l = (if l \<in> edges_at (ri_topology inner) (NodeId a) then None else hm_get (g_edges (ri_topology inner)) l)"
    "set (hm_keys (g_nodes g)) = set (hm_keys (g_nodes (ri_topology inner))) - {NodeId a}"
    by (rule graph_remove_node_spec [OF router_invD(1) [OF assms(1)], of "NodeId a"]) blast
  have "router_inv inner'" using router_remove_node_ok [OF assms(1), of a] assms(2) by (simp add: op_ok_def)
  moreover have "ri_topology inner' = g \<and> r = Inr ()"
    using assms(2) g(1) invalidate_keys_spec router_invD(2) [OF assms(1)]
    by (auto simp: router_remove_node_def Let_def bump_def same_topology_def split: sum.split_asm)
  ultimately show ?thesis using g by simp
qed

lemma shed_node:
  assumes "graph_wf g" "NodeId a \<notin> set (hm_keys (g_nodes g))" "router_inv inner" "budded (NodeId a) g (ri_topology inner)"
    and "router_remove_node a inner = (inner', r)"
  shows "router_inv inner' \<and> same_graph g (ri_topology inner')"
proof -
  note removed = router_remove_node_topology [OF assms(3,5)]
  have wf: "graph_wf (ri_topology inner)" using assms(3) by (simp add: router_invD(1) graph_invD(1))
  have "hm_get (g_edges (ri_topology inner')) l = hm_get (g_edges g) l" for l
  proof (cases "hm_get (g_edges (ri_topology inner)) l = hm_get (g_edges g) l")
    case True
    then have "l \<notin> edges_at (ri_topology inner) (NodeId a)"
      using graph_wfD(4) [OF wf] no_links_without_node [OF assms(1,2)] by fastforce
    with removed True show ?thesis by simp
  next
    case False
    with assms(4) obtain lk where "hm_get (g_edges g) l = None" "hm_get (g_edges (ri_topology inner)) l = Some lk" "NodeId a \<in> {lk_a lk, lk_b lk}"
      unfolding budded_def by blast
    then have "l \<in> edges_at (ri_topology inner) (NodeId a)" using graph_wfD(4) [OF wf] by blast
    with removed \<open>hm_get (g_edges g) l = None\<close> show ?thesis by simp
  qed
  with removed assms(2,4) show ?thesis by (auto simp: same_graph_def budded_def)
qed

text \<open>Partial correctness with a condition for either end of an action.\<close>

fun ended :: "('a \<Rightarrow> 's \<Rightarrow> bool) \<Rightarrow> ('e \<Rightarrow> 's \<Rightarrow> bool) \<Rightarrow> 's \<times> ('e, 'a) result \<Rightarrow> bool" where
  "ended Q E (s, Inr a) = Q a s"
| "ended Q E (s, Inl (Err x)) = E x s"
| "ended Q E (s, Inl Panic) = True"

definition ending :: "('s \<Rightarrow> bool) \<Rightarrow> ('s, 'e, 'a) action \<Rightarrow> ('a \<Rightarrow> 's \<Rightarrow> bool) \<Rightarrow> ('e \<Rightarrow> 's \<Rightarrow> bool) \<Rightarrow> bool" where
  "ending P m Q E \<longleftrightarrow> (\<forall>s. P s \<longrightarrow> ended Q E (m s))"

lemma endingD: "ending P m Q E \<Longrightarrow> P s \<Longrightarrow> m s = (s', Inl (Err x)) \<Longrightarrow> E x s'"
  by (metis ended.simps(2) ending_def)

lemma ending_andthen:
  assumes "ending P m R E" "\<And>a. ending (R a) (f a) Q E"
  shows "ending P (andthen m f) Q E"
  unfolding ending_def
proof (intro allI impI)
  fix s assume "P s"
  with assms(1) have "ended R E (m s)" by (simp add: ending_def)
  with assms(2) show "ended Q E (andthen m f s)"
    by (cases "(R, E, m s)" rule: ended.cases) (simp_all add: andthen_def ending_def)
qed

lemma ending_attempt:
  assumes "ending P m (\<lambda>a. R (Inr a)) (\<lambda>x. R (Inl x))" "\<And>r. ending (R r) (f r) Q E"
  shows "ending P (attempt m f) Q E"
  unfolding ending_def
proof (intro allI impI)
  fix s assume "P s"
  with assms(1) have "ended (\<lambda>a. R (Inr a)) (\<lambda>x. R (Inl x)) (m s)" by (simp add: ending_def)
  with assms(2) show "ended Q E (attempt m f s)"
    by (cases "(\<lambda>a. R (Inr a), \<lambda>x. R (Inl x), m s)" rule: ended.cases) (simp_all add: attempt_def ending_def)
qed

lemma ending_keeps:
  assumes "keeps P m"
  shows "ending P m (\<lambda>_. P) (\<lambda>_. P)"
  unfolding ending_def
proof (intro allI impI)
  fix s assume "P s"
  obtain s' r where ms: "m s = (s', r)" by fastforce
  with assms \<open>P s\<close> have "P s'" using keepsD by metis
  with ms show "ended (\<lambda>_. P) (\<lambda>_. P) (m s)"
    by (cases r; cases "projl r") simp_all
qed

lemma ending_yield: "ending P (yield a) (\<lambda>_. P) E"
  by (simp add: ending_def yield_def)

lemma ending_throw: "ending P (throw x) Q (\<lambda>_. P)"
  by (simp add: ending_def throw_def)

lemma ending_weaken: "ending P m Q E \<Longrightarrow> (\<And>s. P' s \<Longrightarrow> P s) \<Longrightarrow> ending P' m Q E"
  by (simp add: ending_def)

lemma ending_any: "(\<And>s. \<not> P s) \<Longrightarrow> ending P m Q E"
  by (simp add: ending_def)

text \<open>The undoing steps.\<close>

definition fresh_node :: "graph \<Rightarrow> ip_addr \<Rightarrow> bool" where
  "fresh_node g a \<longleftrightarrow> graph_wf g \<and> NodeId a \<notin> set (hm_keys (g_nodes g))"

lemma remove_new_node:
  assumes "fresh_node g a"
  shows "ending (topological (budded (NodeId a) g)) (router_op (router_remove_node a)) (\<lambda>_. topological (same_graph g)) (\<lambda>_. topological (same_graph g))"
  unfolding ending_def
proof (intro allI impI)
  fix s :: "'b service" assume s: "topological (budded (NodeId a) g) s"
  obtain inner' r where rm: "router_remove_node a (sv_router s) = (inner', r)" by fastforce
  with shed_node [OF _ _ _ _ rm] router_remove_node_topology [OF _ rm] assms s
  show "ended (\<lambda>_. topological (same_graph g)) (\<lambda>_. topological (same_graph g)) (router_op (router_remove_node a) s)"
    by (simp add: router_op_def topological_def fresh_node_def)
qed

lemma rollback_undoes:
  assumes "fresh_node g a" "topology_calm e"
  shows "ending (topological (budded (NodeId a) g)) (rollback_created_node e a) (\<lambda>_. topological (same_graph g)) E"
proof -
  let ?S = "topological (same_graph g)"
  show ?thesis
    unfolding rollback_created_node_def
    by (rule ending_attempt [where R = "\<lambda>_. ?S", OF remove_new_node [OF assms(1)]],
        rule ending_attempt [where R = "\<lambda>_. ?S", OF ending_keeps [OF remove_node_topological]],
        rule ending_attempt [where R = "\<lambda>_. ?S", OF ending_keeps [OF remove_actor_topological]])
       (use calm_topological [OF assms(2)] in \<open>simp add: ending_def pause_def modify_def undisturbed_def\<close>)
qed

lemma create_node_ending:
  assumes "fresh_node g a" "topology_calm e" "length (g_nodes g) < 2 ^ 32"
  shows "ending (topological (\<lambda>h. h = g)) (create_node e p actor a) (\<lambda>_. topological (budded (NodeId a) g)) (\<lambda>_. topological (same_graph g))"
proof -
  let ?B = "topological (budded (NodeId a) g)" and ?S = "topological (same_graph g)"
  have add: "ending (topological (\<lambda>h. h = g)) (router_op (router_add_node a)) (\<lambda>_. ?B) (\<lambda>_. ?S)"
    unfolding ending_def
  proof (intro allI impI)
    fix s :: "'b service" assume s: "topological (\<lambda>h. h = g) s"
    then have inv: "router_inv (sv_router s)" "ri_topology (sv_router s) = g" by (simp_all add: topological_def)
    have none: "hm_get (g_nodes g) (NodeId a) = None" using assms(1) by (simp add: fresh_node_def map_of_eq_None_iff)
    obtain g' where g': "graph_add_node (NodeId a) g = Inr (g', NodeId a)" "graph_inv g'" "g_edges g' = g_edges g"
      "fst ` set (g_nodes g') = insert (NodeId a) (fst ` set (g_nodes g))"
      by (rule graph_add_node_spec [OF _ assms(3) none]) (use inv router_invD(1) in auto)
    have run: "router_add_node a (sv_router s) = (bump ((sv_router s)\<lparr>ri_topology := g'\<rparr>), Inr ())"
      using g'(1) inv(2) by (simp add: router_add_node_def)
    moreover have "router_inv (bump ((sv_router s)\<lparr>ri_topology := g'\<rparr>))"
      using router_add_node_ok [OF inv(1), of a] assms(3) inv(2) run by (simp add: op_ok_def)
    ultimately show "ended (\<lambda>_. ?B) (\<lambda>_. ?S) (router_op (router_add_node a) s)"
      using g'(3,4) by (simp add: router_op_def topological_def budded_def bump_def)
  qed
  have undo: "ending ?B (attempt (router_op (router_remove_node a)) (\<lambda>_. throw (NewNodeFailed err))) Q (\<lambda>_. ?S)" for err Q
    by (rule ending_attempt [where R = "\<lambda>_. ?S", OF remove_new_node [OF assms(1)]]) (rule ending_throw)
  have paused: "ending ?B (pause e n) (\<lambda>_. ?B) E" for n E
    using calm_topological [OF assms(2)] by (simp add: ending_def pause_def modify_def undisturbed_def)
  show ?thesis
    unfolding create_node_def
  proof (rule ending_attempt [where R = "\<lambda>r. case r of Inl _ \<Rightarrow> ?S | Inr _ \<Rightarrow> ?B"])
    fix r :: "topology_error + unit"
    have "ending ?B (attempt (add_node e actor False (policy_service_names p)) (\<lambda>r. andthen (pause e 13) (\<lambda>_.
        case r of Inl err \<Rightarrow> attempt (router_op (router_remove_node a)) (\<lambda>_. throw (NewNodeFailed err)) | Inr _ \<Rightarrow> yield ()))) (\<lambda>_. ?B) (\<lambda>_. ?S)"
      by (rule ending_attempt [where R = "\<lambda>_. ?B", OF ending_keeps [OF add_node_topological]], rule ending_andthen [OF paused])
         (simp add: undo ending_yield split: sum.split)
    then show "ending (case r of Inl _ \<Rightarrow> ?S | Inr _ \<Rightarrow> ?B)
      (case r of Inl err \<Rightarrow> throw (NewNodeFailed (SeTopology err))
       | Inr _ \<Rightarrow> attempt (add_node e actor False (policy_service_names p)) (\<lambda>r. andthen (pause e 13) (\<lambda>_.
        case r of Inl err \<Rightarrow> attempt (router_op (router_remove_node a)) (\<lambda>_. throw (NewNodeFailed err)) | Inr _ \<Rightarrow> yield ())))
      (\<lambda>_. ?B) (\<lambda>_. ?S)"
      by (cases r) (simp_all add: ending_throw)
  qed (use add in simp)
qed

text \<open>Installing a link: it is there, or nothing has changed.\<close>

definition linked :: "link_id \<Rightarrow> ip_addr \<Rightarrow> ip_addr \<Rightarrow> graph \<Rightarrow> graph \<Rightarrow> bool" where
  "linked l a b g g' \<longleftrightarrow> hm_get (g_edges g) l = None \<and> set (hm_keys (g_nodes g')) = set (hm_keys (g_nodes g)) \<and>
     (\<exists>lk. lk_a lk = NodeId a \<and> lk_b lk = NodeId b \<and> (\<forall>k. hm_get (g_edges g') k = (if k = l then Some lk else hm_get (g_edges g) k)))"

lemma router_add_link_cases:
  assumes "router_inv inner" "router_add_link a b l ats cost inner = (inner', r)"
  shows "router_inv inner'" and "r \<noteq> Inl Panic"
    and "r = Inl f \<Longrightarrow> ri_topology inner' = ri_topology inner" and "r = Inr () \<Longrightarrow> linked l a b (ri_topology inner) (ri_topology inner')"
proof -
  show "router_inv inner'" "r \<noteq> Inl Panic" using router_add_link_ok [OF assms(1), of a b l ats cost] assms(2) by (simp_all add: op_ok_def)
  have "(\<forall>f. r = Inl f \<longrightarrow> ri_topology inner' = ri_topology inner) \<and> (r = Inr () \<longrightarrow> linked l a b (ri_topology inner) (ri_topology inner'))"
  proof (rule graph_add_link_cases [OF router_invD(1) [OF assms(1)], of "NodeId a" "NodeId b" l ats cost])
    fix x assume "graph_add_link (NodeId a) (NodeId b) l ats cost (ri_topology inner) = Inl (Err x)"
    then show ?thesis using assms(2) by (auto simp: router_add_link_def flush_def)
  next
    let ?lk = "\<lparr>lk_a = NodeId a, lk_b = NodeId b, lk_attributes = ats, lk_cost = cost\<rparr>"
    fix g assume add: "graph_add_link (NodeId a) (NodeId b) l ats cost (ri_topology inner) = Inr g"
      and g: "hm_get (g_edges (ri_topology inner)) l = None" "hm_keys (g_nodes g) = hm_keys (g_nodes (ri_topology inner))"
      "g_edges g = hm_insert l ?lk (g_edges (ri_topology inner))"
    have "linked l a b (ri_topology inner) g"
      unfolding linked_def g(2) by (intro conjI exI [of _ ?lk]) (simp_all add: g(1,3))
    moreover have "ri_topology inner' = g" "r = Inr ()" using assms(2) add by (auto simp: router_add_link_def flush_def bump_def)
    ultimately show ?thesis by simp
  qed
  then show "r = Inl f \<Longrightarrow> ri_topology inner' = ri_topology inner" "r = Inr () \<Longrightarrow> linked l a b (ri_topology inner) (ri_topology inner')"
    by blast+
qed

lemma install_ending:
  assumes "\<And>h. G h \<Longrightarrow> E h" "\<And>h h'. G h \<Longrightarrow> linked (LinkId (ld_link_id d)) a b h h' \<Longrightarrow> Q h'"
  shows "ending (topological G) (install_router_link a b d) (\<lambda>_. topological Q) (\<lambda>_. topological E)"
  unfolding ending_def
proof (intro allI impI)
  fix s :: "'b service" assume "topological G s"
  then have s: "router_inv (sv_router s)" "G (ri_topology (sv_router s))" by (simp_all add: topological_def)
  obtain inner' r where add: "router_add_link a b (LinkId (ld_link_id d)) (ld_attrs d) (ld_cost d) (sv_router s) = (inner', r)" by fastforce
  note cases = router_add_link_cases [OF s(1) add]
  show "ended (\<lambda>_. topological Q) (\<lambda>_. topological E) (install_router_link a b d s)"
  proof (cases r)
    case (Inl f)
    with cases obtain x where "f = Err x" by (cases f) auto
    with Inl add cases(1) cases(3) [OF Inl] s assms(1) show ?thesis by (simp add: install_router_link_def router_op_def topological_def)
  next
    case (Inr u)
    with add cases(1,4) s assms(2) show ?thesis by (simp add: install_router_link_def router_op_def topological_def)
  qed
qed

lemma remove_new_link:
  "ending (topological (linked l a b g)) (router_op (router_remove_link l)) (\<lambda>_. topological (same_graph g)) (\<lambda>_. topological (same_graph g))"
  unfolding ending_def
proof (intro allI impI)
  fix s :: "'b service" assume "topological (linked l a b g) s"
  then have s: "router_inv (sv_router s)" "linked l a b g (ri_topology (sv_router s))" by (simp_all add: topological_def)
  obtain h where h: "graph_remove_link l (ri_topology (sv_router s)) =
      (Inr (h, hm_get (g_edges (ri_topology (sv_router s))) l) :: (topology_error, graph \<times> link option) result)"
    "g_edges h = hm_remove l (g_edges (ri_topology (sv_router s)))" "hm_keys (g_nodes h) = hm_keys (g_nodes (ri_topology (sv_router s)))"
    by (rule graph_remove_link_spec [OF router_invD(1) [OF s(1)]])
  obtain inner' r where rm: "router_remove_link l (sv_router s) = (inner', r)" by fastforce
  have "ri_topology inner' = h \<and> r = Inr ()"
    using rm h(1) invalidate_keys_spec(2) [OF router_invD(2) [OF s(1)]]
    by (auto simp: router_remove_link_def Let_def bump_def same_topology_def split: sum.split_asm)
  moreover have "router_inv inner'" using router_remove_link_ok [OF s(1), of l] rm by (simp add: op_ok_def)
  moreover have "same_graph g h" using h(2) arg_cong [OF h(3), of set] s(2) by (auto simp: same_graph_def linked_def)
  ultimately show "ended (\<lambda>_. topological (same_graph g)) (\<lambda>_. topological (same_graph g)) (router_op (router_remove_link l) s)"
    using rm by (simp add: router_op_def topological_def)
qed

lemma persist_link_ending:
  assumes "topology_calm e"
    and "ending (topological G) (if \<not> preexisting then rollback_created_node e b
      else if added then attempt (router_op (router_remove_link (LinkId (ld_link_id d)))) (\<lambda>_. yield ())
      else yield ()) (\<lambda>_. topological (same_graph g)) (\<lambda>_. topological (same_graph g))"
  shows "ending (topological G) (persist_link e d preexisting added a b) (\<lambda>_ _. True) (\<lambda>_. topological (same_graph g))"
proof -
  have paused: "ending (topological G) (pause e n) (\<lambda>_. topological G) E" for n E
    using calm_topological [OF assms(1)] by (simp add: ending_def pause_def modify_def undisturbed_def)
  have stop: "ending (topological G) (yield ()) (\<lambda>_ _. True) (\<lambda>_. topological (same_graph g))" by (simp add: ending_def yield_def)
  have undo: "ending (topological G) (andthen (if \<not> preexisting then rollback_created_node e b
      else if added then attempt (router_op (router_remove_link (LinkId (ld_link_id d)))) (\<lambda>_. yield ())
      else yield ()) (\<lambda>_. throw (linked_node_error preexisting err))) (\<lambda>_ _. True) (\<lambda>_. topological (same_graph g))" for err
    by (rule ending_andthen [OF assms(2)]) (rule ending_throw)
  show ?thesis
    unfolding persist_link_def persist_edge_def
  proof (rule ending_attempt [where R = "\<lambda>_. topological G", OF ending_keeps [OF topol.on_store]], rule ending_andthen [OF paused])
    fix r :: "service_error + unit" and u
    show "ending (topological G) (case r of
        Inl err \<Rightarrow> andthen (if \<not> preexisting then rollback_created_node e b
          else if added then attempt (router_op (router_remove_link (LinkId (ld_link_id d)))) (\<lambda>_. yield ())
          else yield ()) (\<lambda>_. throw (linked_node_error preexisting err))
      | Inr _ \<Rightarrow> yield ()) (\<lambda>_ _. True) (\<lambda>_. topological (same_graph g))"
    proof (cases r)
      case (Inl err)
      show ?thesis unfolding Inl sum.case by (rule undo)
    next
      case (Inr v)
      show ?thesis unfolding Inr sum.case by (rule stop)
    qed
  qed
qed

lemma same_graph_refl [simp]: "same_graph g g"
  by (simp add: same_graph_def)

lemma link_new_node:
  assumes "fresh_node g b" "topology_calm e"
  shows "ending (topological (budded (NodeId b) g)) (link_node e d False a b) (\<lambda>_ _. True) (\<lambda>_. topological (same_graph g))"
proof -
  let ?B = "topological (budded (NodeId b) g)" and ?S = "topological (same_graph g)"
  have bud: "budded (NodeId b) g h'" if "budded (NodeId b) g h" "linked l a b h h'" for h h' l
  proof -
    from that(2) obtain lk where lk: "hm_get (g_edges h) l = None" "set (hm_keys (g_nodes h')) = set (hm_keys (g_nodes h))" "lk_b lk = NodeId b"
      "\<forall>k. hm_get (g_edges h') k = (if k = l then Some lk else hm_get (g_edges h) k)" by (auto simp: linked_def)
    moreover have "hm_get (g_edges g) l = None" using that(1) lk(1) unfolding budded_def by (metis option.discI)
    ultimately show ?thesis using that(1) unfolding budded_def by auto
  qed
  have rollback: "ending ?B (rollback_created_node e b) (\<lambda>_. ?S) (\<lambda>_. ?S)" by (rule rollback_undoes [OF assms])
  then have persist: "ending ?B (persist_link e d False added a b) (\<lambda>_ _. True) (\<lambda>_. ?S)" for added
    by (intro persist_link_ending [OF assms(2)]) simp
  have undo: "ending ?B (andthen (rollback_created_node e b) (\<lambda>_. throw err)) (\<lambda>_ _. True) (\<lambda>_. ?S)" for err
    by (rule ending_andthen [OF rollback]) (rule ending_throw)
  show ?thesis
    unfolding link_node_def
    by (rule ending_attempt [where R = "\<lambda>_. ?B", OF install_ending])
       (auto intro: bud persist undo split: sum.split topology_error.split)
qed

lemma link_known_node:
  assumes "topology_calm e"
  shows "ending (topological (\<lambda>h. h = g)) (link_node e d True a b) (\<lambda>_ _. True) (\<lambda>_. topological (same_graph g))"
proof -
  let ?L = "linked (LinkId (ld_link_id d)) a b g" and ?S = "topological (same_graph g)"
  have "ending (topological ?L) (attempt (router_op (router_remove_link (LinkId (ld_link_id d)))) (\<lambda>_. yield ())) (\<lambda>_. ?S) (\<lambda>_. ?S)"
    by (rule ending_attempt [where R = "\<lambda>_. ?S", OF remove_new_link]) (rule ending_yield)
  then have added: "ending (topological ?L) (persist_link e d True True a b) (\<lambda>_ _. True) (\<lambda>_. ?S)"
    by (intro persist_link_ending [OF assms]) simp
  have kept: "ending ?S (persist_link e d True False a b) (\<lambda>_ _. True) (\<lambda>_. ?S)"
    by (intro persist_link_ending [OF assms]) (simp add: ending_yield)
  have stop: "ending ?S (andthen (yield ()) (\<lambda>_. throw err)) (\<lambda>_ _. True) (\<lambda>_. ?S)" for err
    by (rule ending_andthen [OF ending_yield]) (rule ending_throw)
  show ?thesis
    unfolding link_node_def
  proof (rule ending_attempt [where R = "\<lambda>r. case r of Inl _ \<Rightarrow> ?S | Inr _ \<Rightarrow> topological ?L"])
    show "ending (topological (\<lambda>h. h = g)) (install_router_link a b d) (\<lambda>u. case Inr u of Inl _ \<Rightarrow> ?S | Inr _ \<Rightarrow> topological ?L)
        (\<lambda>x. case Inl x of Inl _ \<Rightarrow> ?S | Inr _ \<Rightarrow> topological ?L)"
      using install_ending [of "\<lambda>h. h = g" "same_graph g" d a b ?L] by simp
  qed (auto intro: added kept stop split: sum.split topology_error.split)
qed

lemma attempt_value_of: "attempt (lift_result (Inr d)) f s = f (Inr d) s"
  by (simp add: attempt_def lift_result_def)

text \<open>C7. A node that fails to join leaves no trace in the topology: when adding a node over a link reports an error, whichever step
  failed, the router has the nodes and the links it had before. It takes other tasks that leave the topology alone
  meanwhile.\<close>

theorem failed_join_undone:
  assumes "router_inv (sv_router s)" and "length (g_nodes (ri_topology (sv_router s))) < 2 ^ 32" and "topology_calm e"
    and "add_linked_node e p actor connect_via new_node s = (s', Inl (Err err))"
  shows "(\<forall>l. hm_get (links s') l = hm_get (links s) l) \<and> (\<forall>n. has_node (sv_router s') n \<longleftrightarrow> has_node (sv_router s) n)"
proof -
  let ?g = "ri_topology (sv_router s)" and ?pre = "has_node (sv_router s) new_node"
  let ?described = "snapshot_describe_link (ck_wall (sv_ck s)) p connect_via new_node"
  have start: "topological (\<lambda>h. h = ?g) s" using assms(1) by (simp add: topological_def)
  have run: "attempt (lift_result ?described) (\<lambda>r. case r of
       Inl err \<Rightarrow> throw (linked_node_error ?pre err)
     | Inr d \<Rightarrow>
         if ?pre \<and> connect_via \<in> set (get_peers (sv_router s) new_node) then
           attempt (persist_edge e connect_via new_node) (\<lambda>r.
             case r of Inl err \<Rightarrow> throw (ExistingNodeFailed err) | Inr _ \<Rightarrow> yield ())
         else
           andthen (if ?pre then yield () else create_node e p actor new_node) (\<lambda>_.
           link_node e d ?pre connect_via new_node)) s = (s', Inl (Err err))"
    using assms(4) by (simp add: add_linked_node_def andthen_def gets_def)
  have "topological (same_graph ?g) s'"
  proof (cases ?described)
    case (Inl f)
    with run have "s' = s" by (cases f) (auto simp: attempt_def lift_result_def throw_def)
    with start show ?thesis by (simp add: topological_def)
  next
    case (Inr d)
    let ?S = "topological (same_graph ?g)"
    have again: "ending (topological (\<lambda>h. h = ?g)) (attempt (persist_edge e connect_via new_node) (\<lambda>r.
        case r of Inl err \<Rightarrow> throw (ExistingNodeFailed err) | Inr _ \<Rightarrow> yield ())) (\<lambda>_ _. True) (\<lambda>_. ?S)"
      unfolding persist_edge_def
      by (rule ending_attempt [where R = "\<lambda>_. topological (\<lambda>h. h = ?g)", OF ending_keeps [OF topol.on_store]])
         (auto simp: ending_def throw_def yield_def topological_def split: sum.split)
    have known: "ending (topological (\<lambda>h. h = ?g)) (andthen (yield ()) (\<lambda>_. link_node e d True connect_via new_node)) (\<lambda>_ _. True) (\<lambda>_. ?S)"
      by (rule ending_andthen [OF ending_yield]) (rule link_known_node [OF assms(3)])
    have new: "ending (topological (\<lambda>h. h = ?g)) (andthen (create_node e p actor new_node) (\<lambda>_. link_node e d False connect_via new_node)) (\<lambda>_ _. True) (\<lambda>_. ?S)"
      if "\<not> ?pre"
    proof -
      have fresh: "fresh_node ?g new_node"
        using that assms(1) by (simp add: fresh_node_def has_node_def map_of_eq_None_iff router_invD(1) graph_invD(1))
      show ?thesis
        by (rule ending_andthen [OF create_node_ending [OF fresh assms(3,2)]]) (rule link_new_node [OF fresh assms(3)])
    qed
    show ?thesis
    proof (cases "?pre \<and> connect_via \<in> set (get_peers (sv_router s) new_node)")
      case True
      have "attempt (persist_edge e connect_via new_node) (\<lambda>r.
          case r of Inl err \<Rightarrow> throw (ExistingNodeFailed err) | Inr _ \<Rightarrow> yield ()) s = (s', Inl (Err err))"
        using run unfolding Inr attempt_value_of sum.case if_P [OF True] .
      then show ?thesis by (rule endingD [OF again start])
    next
      case False
      have "andthen (if ?pre then yield () else create_node e p actor new_node) (\<lambda>_.
           link_node e d ?pre connect_via new_node) s = (s', Inl (Err err))"
        using run unfolding Inr attempt_value_of sum.case if_not_P [OF False] .
      then show ?thesis using endingD [OF known start] endingD [OF new start] by (cases ?pre) simp_all
    qed
  qed
  moreover have "has_node inner n \<longleftrightarrow> NodeId n \<in> set (hm_keys (g_nodes (ri_topology inner)))" for inner n
    unfolding has_node_def by (simp add: map_of_eq_None_iff)
  ultimately show ?thesis by (simp add: topological_def same_graph_def)
qed

subsection \<open>Examples\<close>

text \<open>Three nodes in a row. The policy has the first link, under another name, and knows only the first two nodes.\<close>

definition three_nodes :: router_inner where
  "three_nodes = fold (\<lambda>a inner. fst (router_add_node a inner)) [V4 9, V4 8, V4 7] router_new"

definition row_router :: router_inner where
  "row_router = fst (router_add_link (V4 8) (V4 9) (LinkId ''old'') [] 5 (fst (router_add_link (V4 7) (V4 8) (LinkId ''gone'') [] 5 three_nodes)))"

definition link_policy :: policy where
  "link_policy = demo_policy\<lparr>peer_table := Some
     [(V4 9, [\<lparr>link_id = ''uplink'', remote_zpr_addr = V4 8, remote_substrate = ([], 0), local_substrate = ([], 0)\<rparr>])]\<rparr>"

definition saving_env :: "unit service_env" where
  "saving_env = example_env\<lparr>se_store := example_store\<lparr>en_conn := two_adapters\<lparr>
     db_smembers := (\<lambda>_ _ db. (db, Inr [])), db_sadd := (\<lambda>_ _ _ db. (db, Inr ()))\<rparr>\<rparr>\<rparr>"

definition row_service :: "unit service" where
  "row_service = example_service\<lparr>sv_router := row_router\<rparr>"

lemma example_topology_calm: "topology_calm example_env" "topology_calm saving_env"
  by (simp_all add: topology_calm_def undisturbed_def example_env_def saving_env_def)

lemma row_links: "g_edges (ri_topology row_router) =
    [(LinkId ''gone'', \<lparr>lk_a = NodeId (V4 7), lk_b = NodeId (V4 8), lk_attributes = [], lk_cost = 5\<rparr>),
     (LinkId ''old'', \<lparr>lk_a = NodeId (V4 8), lk_b = NodeId (V4 9), lk_attributes = [], lk_cost = 5\<rparr>)]"
  by code_simp

lemma router_inv_add_nodes:
  "router_inv inner \<Longrightarrow> length (g_nodes (ri_topology inner)) + length as < 2 ^ 32 \<Longrightarrow>
     router_inv (fold (\<lambda>a inner. fst (router_add_node a inner)) as inner)"
proof (induction as arbitrary: inner)
  case (Cons a as)
  have "router_inv (fst (router_add_node a inner))"
    using router_add_node_ok [OF Cons.prems(1), of a] Cons.prems(2) by (simp add: op_ok_def)
  moreover have "length (g_nodes (ri_topology (fst (router_add_node a inner)))) \<le> Suc (length (g_nodes (ri_topology inner)))"
    using length_hm_insert [of "NodeId a" "\<lparr>nd_edges = []\<rparr>" "g_nodes (ri_topology inner)"]
    by (auto simp: router_add_node_def graph_add_node_def bump_def)
  ultimately show ?case using Cons.IH Cons.prems(2) by simp
qed simp

lemma row_router_ok: "router_inv row_router" "simple_links row_router"
proof -
  have "router_inv three_nodes"
    unfolding three_nodes_def by (rule router_inv_add_nodes [OF router_inv_new]) (simp add: router_new_def graph_default_def)
  then show "router_inv row_router"
    using router_add_link_ok unfolding row_router_def op_ok_def by (metis (no_types))
  show "simple_links row_router"
    by (auto simp: simple_links_def row_links ends_of_def canonical_pair_def split: if_splits)
qed

theorem topology_follows_policy_witness:
  "\<exists>s' report. revalidate_against_policy saving_env rev link_policy [V4 8, V4 9] row_service = (s', Inr report) \<and>
    (\<forall>l lk. hm_get (links s') l = Some lk \<longrightarrow> policy_link 0 link_policy [V4 8, V4 9] l lk) \<and>
    (\<exists>lk. hm_get (links s') (LinkId ''uplink'') = Some lk \<and> ends_of lk = (V4 8, V4 9))"
proof -
  have "case snd (revalidate_against_policy saving_env rev link_policy [V4 8, V4 9] row_service) of Inr _ \<Rightarrow> True | _ \<Rightarrow> False" by code_simp
  then obtain s' report where run: "revalidate_against_policy saving_env rev link_policy [V4 8, V4 9] row_service = (s', Inr report)"
    by (cases "revalidate_against_policy saving_env rev link_policy [V4 8, V4 9] row_service") (auto split: sum.split_asm)
  have nodes: "length (g_nodes (ri_topology row_router)) = 3" by code_simp
  have router: "sv_router row_service = row_router" and ck: "ck_wall (sv_ck row_service) = 0"
    by (simp_all add: row_service_def example_service_def)
  have "case describe_policy_link_either 0 link_policy (V4 8) (V4 9) of Inr d \<Rightarrow> ld_link_id d = ''uplink'' | _ \<Rightarrow> False" by code_simp
  then obtain d where d: "describe_policy_link_either 0 link_policy (V4 8) (V4 9) = Inr d" "ld_link_id d = ''uplink''"
    by (auto split: sum.split_asm)
  have "ends_of \<lparr>lk_a = NodeId (V4 8), lk_b = NodeId (V4 9), lk_attributes = [], lk_cost = 5\<rparr> = (V4 8, V4 9)" by code_simp
  then have old: "\<exists>l lk. hm_get (links row_service) l = Some lk \<and> ends_of lk = (V4 8, V4 9)"
    unfolding router row_links by (intro exI [of _ "LinkId ''old''"]) simp
  have few: "length (g_nodes (ri_topology (sv_router row_service))) + length [V4 8, V4 9] \<le> 2 ^ 32" using nodes router by simp
  have "\<forall>xs. set (rev xs) = set xs" by simp
  note follows = topology_follows_policy [OF row_router_ok [folded router] few example_topology_calm(2) this run, unfolded ck]
  have "\<exists>lk. hm_get (links s') (LinkId (ld_link_id d)) = Some lk \<and> ends_of lk = (V4 8, V4 9)"
    by (rule follows [THEN conjunct2, rule_format]) (use old d in simp_all)
  with follows [THEN conjunct1] d(2) run show ?thesis by auto
qed

text \<open>A node joins over the link of the policy while the database refuses to take its record.\<close>

definition joining_node :: actor where
  "joining_node = actor_new\<lparr>attrs := [(ROLE, attribute_new ROLE [ROLE_NODE] (HOURS 2) SOURCE_ZPR)], zpr_addr := Some (V4 8)\<rparr>"

definition one_node_service :: "unit service" where
  "one_node_service = example_service\<lparr>sv_router := fst (router_add_node (V4 9) router_new)\<rparr>"

theorem failed_join_undone_witness:
  "\<exists>s' err. add_linked_node example_env link_policy joining_node (V4 9) (V4 8) one_node_service = (s', Inl (Err err)) \<and>
    \<not> has_node (sv_router s') (V4 8)"
proof -
  have "case snd (add_linked_node example_env link_policy joining_node (V4 9) (V4 8) one_node_service) of
      Inl (Err (NewNodeFailed (SeStore _))) \<Rightarrow> True | _ \<Rightarrow> False" by code_simp
  then obtain s' err where run: "add_linked_node example_env link_policy joining_node (V4 9) (V4 8) one_node_service = (s', Inl (Err err))"
    by (cases "add_linked_node example_env link_policy joining_node (V4 9) (V4 8) one_node_service")
       (auto split: sum.split_asm fault.split_asm)
  have router: "sv_router one_node_service = fst (router_add_node (V4 9) router_new)" by (simp add: one_node_service_def)
  have inv: "router_inv (sv_router one_node_service)"
    using router_inv_add_nodes [OF router_inv_new, of "[V4 9]"] by (simp add: router router_new_def graph_default_def)
  have nodes: "length (g_nodes (ri_topology (sv_router one_node_service))) = 1" by code_simp
  have "\<not> has_node (sv_router one_node_service) (V4 8)" by code_simp
  with failed_join_undone [OF inv _ example_topology_calm(1) run] nodes run show ?thesis by auto
qed

end
