(* ===== verification/Spec2Isabelle.thy ===== *)
theory Spec2Isabelle
  imports Visa_Runs Visa_Sweeps Topology_Manager
begin

text \<open>
  \<^bold>\<open>The visa service of a ZPR network.\<close> A ZPR network lets two endpoints exchange packets only while a visa permits it. The
  visa service holds the policy of the network, knows which nodes and adapters are connected and with which authenticated
  attributes, decides requests for visas against the policy, and installs, rechecks and revokes the visas it has issued.
  This library models the service and proves what it promises.

  \<^bold>\<open>Parts and how they interact.\<close>
  The policy library \<^verbatim>\<open>libeval\<close> loads a compiled policy and decides two questions: may this actor connect, and may this
  packet pass. The service \<^verbatim>\<open>vs\<close> keeps its durable state in a database behind the trait \<^verbatim>\<open>DbConnection\<close>; repositories for
  visas, actors, nodes, links, denials and re-authentication obligations sit on top of it. Managers hold the state in memory: the
  router (topology and route cache), the actor manager (where adapters are docked), the trusted service manager (which
  revision of its attributes an actor has), the visa manager. A visa request goes through all of them: the worker looks the
  two actors up, refreshes their attributes from the trusted services, has the policy evaluated with the route between the
  docking nodes, makes the visa, stores it and hands an adjusted copy to every node on the path.

  \<^bold>\<open>Theories.\<close>
  \<^item> \<^verbatim>\<open>Prelude\<close>: results with errors and panics (\<open>('e, 'a) result\<close>, where \<open>Inl Panic\<close> is a panic of the code), hash maps as
    association lists with the operations \<open>hm_get\<close>, \<open>hm_insert\<close>, \<open>hm_remove\<close>, addresses, decimal printing, shared lemmas.
  \<^item> \<^verbatim>\<open>Attributes\<close>, \<^verbatim>\<open>Actors\<close>: \<^verbatim>\<open>libeval/src/attribute.rs\<close>, \<^verbatim>\<open>actor.rs\<close>. The type invariant of actors and when
    the operations keep it; the authentication expiration is the earliest among its sources.
  \<^item> \<^verbatim>\<open>Join_Policy\<close>, \<^verbatim>\<open>Policies\<close>: \<^verbatim>\<open>joinpolicy.rs\<close>, \<^verbatim>\<open>policy.rs\<close>. Loading, matching of join policies against its
    declarative meaning, peer tables and link descriptions, lookup identities.
  \<^item> \<^verbatim>\<open>Routes\<close>, \<^verbatim>\<open>Evaluation\<close>: \<^verbatim>\<open>route.rs\<close>, \<^verbatim>\<open>eval.rs\<close>, \<^verbatim>\<open>eval_result.rs\<close>, \<^verbatim>\<open>eval_route.rs\<close>. Decisions on packets (a deny
    overrides every allow, passing time never grants, only an operator outside the schema panics), and approval of connections (total, nothing unauthenticated becomes
    an attribute, a requested address is never a grant by itself).
  \<^item> \<^verbatim>\<open>Link_Paths\<close>, \<^verbatim>\<open>Topology_Graph\<close>, \<^verbatim>\<open>Shortest_Paths\<close>, \<^verbatim>\<open>All_Paths\<close>, \<^verbatim>\<open>Route_Cache\<close>: \<^verbatim>\<open>vs/src/router.rs\<close>. Dijkstra and
    the path enumeration terminate and are correct; the cache with its two lock sections per lookup refines a lookup in the
    current topology under every interleaving with writes.
  \<^item> \<^verbatim>\<open>Addr_Text\<close>, \<^verbatim>\<open>Database\<close>: printing and parsing of addresses, \<^verbatim>\<open>vs/src/db/mod.rs\<close> and the in-memory backend
    \<^verbatim>\<open>db_fake.rs\<close> with the faults it can inject.
  \<^item> \<^verbatim>\<open>Visa_Store\<close>, \<^verbatim>\<open>Visa_Recovery\<close>, \<^verbatim>\<open>Visa_Runs\<close>: \<^verbatim>\<open>vs/src/db/visa.rs\<close>. Every write in two halves, first the database, then
    the image. Runs of the store with failures, restarts and time as an inductive relation: a restart finds the same
    visas, the indexes are exact, the order of verdicts does not matter.
  \<^item> \<^verbatim>\<open>Store_Monad\<close>, \<^verbatim>\<open>Actor_Store\<close>, \<^verbatim>\<open>Repositories\<close>, \<^verbatim>\<open>Store_Records\<close>, \<^verbatim>\<open>Hostnames\<close>: \<^verbatim>\<open>vs/src/db/actor.rs\<close>, \<^verbatim>\<open>node.rs\<close>,
    \<^verbatim>\<open>link.rs\<close>, \<^verbatim>\<open>denylist.rs\<close>, \<^verbatim>\<open>reauth.rs\<close> and \<^verbatim>\<open>counters.rs\<close>. Asynchronous functions as state transformers with Hoare
    triples; hostnames stay with their holder and the free ones go to who asks.
  \<^item> \<^verbatim>\<open>Deny_Log\<close>: \<^verbatim>\<open>vs/src/deny_log.rs\<close>, the window of recent denials.
  \<^item> \<^verbatim>\<open>Actor_Manager\<close>, \<^verbatim>\<open>Trusted_Attributes\<close>, \<^verbatim>\<open>Visa_Manager\<close>, \<^verbatim>\<open>Visa_Requests\<close>: \<^verbatim>\<open>vs/src/actor_mgr.rs\<close>,
    \<^verbatim>\<open>trusted_services\<close>, \<^verbatim>\<open>actor_attributes.rs\<close>, \<^verbatim>\<open>visa_policy.rs\<close>, \<^verbatim>\<open>visa_mgr.rs\<close>, \<^verbatim>\<open>visareq_worker.rs\<close>,
    \<^verbatim>\<open>visa_bootstrap.rs\<close>, \<^verbatim>\<open>packet.rs\<close> and the anonymous networks of \<^verbatim>\<open>net_mgr.rs\<close>.
  \<^item> \<^verbatim>\<open>Visa_Guarantees\<close>, \<^verbatim>\<open>Revocations\<close>: what holds of a visa that has been issued, and that a revocation comes to its end.
  \<^item> \<^verbatim>\<open>Service_Frames\<close>: what an operation of the service leaves alone, as locales over a predicate on the state.
  \<^item> \<^verbatim>\<open>Visa_Sweeps\<close>: \<^verbatim>\<open>vs/src/visa_reconciler.rs\<close> and the handler of \<^verbatim>\<open>event_mgr.rs\<close> for changed attributes. A sweep gives
    every visa the verdict of its recheck, as long as the policy of the sweep is in force.
  \<^item> \<^verbatim>\<open>Topology_Manager\<close>: \<^verbatim>\<open>vs/src/topology_mgr.rs\<close>. After a change of policy the links are those of the policy; a node that
    fails to join leaves no trace.

  \<^bold>\<open>State and operations.\<close> A struct is a record and an enum a datatype with the fields and constructors of the source, under
  its names with a prefix where records share a field name; each function is one definition with its name, helper definitions name the
  loops and branches of long functions. The state of the service, \<open>'db service\<close>, is the part of \<^verbatim>\<open>Assembly\<close> the modelled
  functions use. Concurrency is modelled at these points: the lock sections of the router, the two halves of a write to the visa
  store, and the waits of the asynchronous functions of the managers and workers, at which \<open>se_pause\<close> lets the other tasks
  change the state in any way. An operation of a repository (\<^verbatim>\<open>vs/src/db\<close>) runs as a whole at one instant: the database
  calls it awaits inside, as in \<^verbatim>\<open>update_actor\<close>, are not points at which other tasks run, and the clocks stand still
  between two such points, so that the deadline of a stored visa counts from the moment its write begins. Counters and
  identifiers are words and wrap around; times are integers in nanoseconds.

  \<^bold>\<open>Code outside the sources\<close> is a parameter: the database connection (a record of its operations), Cap'n Proto, JSON, Base64 and
  timestamps (the codec and \<open>'db store_env\<close>), hashing, key decoding, network membership of the crate \<^verbatim>\<open>ipnet\<close>, the
  version number of a policy, the order in which a hash set is walked where it can matter, the push of a visa to a node. What the proofs need of it are laws in locales
  (\<open>db_strings\<close>, \<open>db_records\<close>, \<open>repositories\<close>) and hypotheses of the theorems; the in-memory database is shown to obey them.

  Messages read by Cap'n Proto are taken to be well-formed with UTF-8 text; an enumerator or union member outside the schema
  is a value of the model, with the error or the panic the source has for it.

  \<^bold>\<open>Loops and bounds.\<close> All loops are structural recursions or functions with a termination proof (Dijkstra's loop, the path
  enumeration, the trimming of strings), with two exceptions. The walk back along the predecessor links of Dijkstra is a
  partial function, whose value None is a walk that never ends; the correctness theorems show that it has a value. The
  printing of numbers runs on fuel, which is shown to be enough for the word sizes. No bound is assumed on inputs beyond what
  the word types give, except where a theorem says so: a router has at most \<open>2 ^ 32\<close> nodes, for the distances not to wrap.

  \<^bold>\<open>Not modelled.\<close> The transport and session layer (\<^verbatim>\<open>vsapi_worker.rs\<close>, \<^verbatim>\<open>connection_control.rs\<close>, \<^verbatim>\<open>vss_worker.rs\<close>,
  \<^verbatim>\<open>vss_mgr.rs\<close>, \<^verbatim>\<open>admin_service.rs\<close>): Cap'n Proto RPC, TLS and HTTP handlers around the operations modelled here, whose
  cryptographic checks and network calls are library calls. The identity providers (\<^verbatim>\<open>oidc\<close>, the attribute stores): HTTP
  clients and token validation by libraries. The policy manager and the handler of a policy update: they decode, resolve and
  store policies and drive disconnects and pushes. The sweep of authentications, which ends in disconnects. The address pools of \<^verbatim>\<open>net_mgr.rs\<close> draw random numbers. \<^verbatim>\<open>db_redis.rs\<close> passes each
  operation to the Redis driver. Configuration files, logging, command line tools and the dashboard have no state of interest.
\<close>

end
